(* ===== verification/Prelude.thy ===== *)
theory Prelude
  imports Main "HOL-Library.Word"
begin

text \<open>
  What every component of the gateway shares: the types of instants and durations with
  Go's saturating and wrapping arithmetic, the string functions of Go's standard library
  that the sources call, time-zone locations, and generic lemmas on relations and lists.

  A Go string is a sequence of bytes, so it is a HOL \<open>string\<close> (a list of 8-bit
  characters). A \<open>time.Time\<close> is its instant, counted in nanoseconds from the zero
  time of Go (January 1, year 1, UTC), so \<open>IsZero\<close> is equality with 0; a
  \<open>time.Duration\<close> is an \<open>int\<close> of nanoseconds whose 64-bit wrap-around is
  written out where the code adds durations.
\<close>

named_theorems route_simps \<open>rewriting host and name lookups\<close>
named_theorems frame_simps \<open>fields an operation leaves unchanged\<close>

section \<open>Relations and lists\<close>

lemma find_SomeD: "find P xs = Some x \<Longrightarrow> x \<in> set xs \<and> P x"
  by (induction xs) (auto split: if_splits)

text \<open>A set closed under a relation is closed under its transitive closures.\<close>

lemma closed_trancl:
  assumes "\<And>a b. a \<in> B \<Longrightarrow> (a, b) \<in> r \<Longrightarrow> b \<in> B" and "(a, b) \<in> r\<^sup>+" and "a \<in> B"
  shows "b \<in> B"
  using assms(2,3) by (induction rule: trancl_induct) (auto intro: assms(1))

lemma closed_rtrancl:
  assumes "\<And>a b. a \<in> B \<Longrightarrow> (a, b) \<in> r \<Longrightarrow> b \<in> B" and "(a, b) \<in> r\<^sup>*" and "a \<in> B"
  shows "b \<in> B"
  using assms(2,3) by (induction rule: rtrancl_induct) (auto intro: assms(1))

text \<open>Adding a node whose successors are in a closed acyclic set keeps it acyclic.\<close>

lemma acyclic_on_insert:
  assumes closed: "\<And>a b. a \<in> B \<Longrightarrow> (a, b) \<in> r \<Longrightarrow> b \<in> B"
    and acyc: "\<And>a. a \<in> B \<Longrightarrow> (a, a) \<notin> r\<^sup>+"
    and succs: "\<And>b. (x, b) \<in> r \<Longrightarrow> b \<in> B" and fresh: "x \<notin> B"
    and a: "a \<in> insert x B"
  shows "(a, a) \<notin> r\<^sup>+"
proof (cases "a = x")
  case True
  show ?thesis
  proof
    assume "(a, a) \<in> r\<^sup>+"
    then obtain y where "(x, y) \<in> r" and yx: "(y, x) \<in> r\<^sup>*"
      using True by (meson tranclD)
    then have y: "y \<in> B" by (simp add: succs)
    have "x \<in> B" by (rule closed_rtrancl [OF _ yx y]) (rule closed)
    with fresh show False by blast
  qed
next
  case False
  with a acyc show ?thesis by blast
qed

text \<open>
  A list is ordered by a dependency function when everything an element depends on stands
  before it.
\<close>

definition dep_ordered :: "('a \<Rightarrow> 'a set) \<Rightarrow> 'a list \<Rightarrow> bool" where
  "dep_ordered adj ord \<longleftrightarrow> (\<forall>xs x ys. ord = xs @ x # ys \<longrightarrow> adj x \<subseteq> set xs)"

lemma dep_ordered_Nil [simp]: "dep_ordered adj []"
  by (simp add: dep_ordered_def)

lemma dep_ordered_snoc [simp]:
  "dep_ordered adj (ord @ [x]) \<longleftrightarrow> dep_ordered adj ord \<and> adj x \<subseteq> set ord"
proof
  assume l: "dep_ordered adj (ord @ [x])"
  have "adj x \<subseteq> set ord"
    using l unfolding dep_ordered_def by blast
  moreover have "adj y \<subseteq> set us" if "ord = us @ y # vs" for us y vs
    using l that unfolding dep_ordered_def by (metis append.assoc append_Cons)
  ultimately show "dep_ordered adj ord \<and> adj x \<subseteq> set ord"
    by (simp add: dep_ordered_def)
next
  assume r: "dep_ordered adj ord \<and> adj x \<subseteq> set ord"
  show "dep_ordered adj (ord @ [x])"
    unfolding dep_ordered_def
  proof (intro allI impI)
    fix us y vs
    assume eq: "ord @ [x] = us @ y # vs"
    show "adj y \<subseteq> set us"
    proof (cases vs rule: rev_cases)
      case Nil
      with eq r show ?thesis by simp
    next
      case (snoc ws z)
      with eq have "ord = us @ y # ws" by simp
      with r show ?thesis unfolding dep_ordered_def by blast
    qed
  qed
qed

lemma dep_ordered_before:
  assumes "dep_ordered adj ord" and "i < length ord" and "j < length ord" and "distinct ord"
    and "ord ! j \<in> adj (ord ! i)"
  shows "j < i"
proof -
  have "ord = take i ord @ ord ! i # drop (Suc i) ord"
    using assms(2) by (rule id_take_nth_drop)
  with assms(1) have "adj (ord ! i) \<subseteq> set (take i ord)"
    unfolding dep_ordered_def by blast
  with assms(5) have "ord ! j \<in> set (take i ord)" by blast
  then obtain k where "k < i" "k < length ord" "ord ! j = ord ! k"
    by (auto simp: in_set_conv_nth)
  with assms(3,4) show ?thesis by (simp add: nth_eq_iff_index_eq)
qed

lemma dep_ordered_closed:
  "dep_ordered adj ord \<Longrightarrow> x \<in> set ord \<Longrightarrow> adj x \<subseteq> set ord"
  unfolding dep_ordered_def by (metis Un_iff set_append split_list subset_iff)

section \<open>Instants and durations\<close>

type_synonym time = int
type_synonym duration = int

definition second :: duration where "second = 1000000000"
definition minute :: duration where "minute = 60 * second"
definition hour :: duration where "hour = 60 * minute"

lemmas duration_defs = second_def minute_def hour_def

definition maxDuration :: duration where "maxDuration = 2 ^ 63 - 1"
definition minDuration :: duration where "minDuration = - (2 ^ 63)"

text \<open>Two's complement wrap-around of Go's \<open>int64\<close>.\<close>

definition wrap64 :: "int \<Rightarrow> int" where
  "wrap64 x = (x + 2 ^ 63) mod 2 ^ 64 - 2 ^ 63"

lemma wrap64_id: "minDuration \<le> x \<Longrightarrow> x \<le> maxDuration \<Longrightarrow> wrap64 x = x"
  by (simp add: wrap64_def minDuration_def maxDuration_def)

text \<open>\<open>t.Sub(u)\<close> saturates at the ends of the range of \<open>Duration\<close>.\<close>

definition time_Sub :: "time \<Rightarrow> time \<Rightarrow> duration" where
  "time_Sub t u = max minDuration (min maxDuration (t - u))"

lemma time_Sub_mono: "t \<le> t' \<Longrightarrow> time_Sub t u \<le> time_Sub t' u"
  by (simp add: time_Sub_def min_def max_def)

lemma time_Sub_ge:
  "minDuration < d \<Longrightarrow> d \<le> maxDuration \<Longrightarrow> d \<le> time_Sub t u \<longleftrightarrow> d \<le> t - u"
  by (auto simp: time_Sub_def min_def max_def)

text \<open>\<open>t.Truncate(d)\<close> rounds down to a multiple of \<open>d\<close> since the zero time.\<close>

definition time_Truncate :: "time \<Rightarrow> duration \<Rightarrow> time" where
  "time_Truncate t d = (if d \<le> 0 then t else t - t mod d)"

section \<open>Strings\<close>

definition HasPrefix :: "string \<Rightarrow> string \<Rightarrow> bool" where
  "HasPrefix s p \<longleftrightarrow> take (length p) s = p"

definition HasSuffix :: "string \<Rightarrow> string \<Rightarrow> bool" where
  "HasSuffix s p \<longleftrightarrow> HasPrefix (rev s) (rev p)"

lemma HasPrefix_iff: "HasPrefix s p \<longleftrightarrow> (\<exists>r. s = p @ r)"
  unfolding HasPrefix_def by (metis append_eq_conv_conj append_take_drop_id)

definition TrimPrefix :: "string \<Rightarrow> string \<Rightarrow> string" where
  "TrimPrefix s p = (if HasPrefix s p then drop (length p) s else s)"

fun Contains :: "string \<Rightarrow> string \<Rightarrow> bool" where
  "Contains [] p \<longleftrightarrow> p = []"
| "Contains (x # xs) p \<longleftrightarrow> HasPrefix (x # xs) p \<or> Contains xs p"

text \<open>
  \<open>strings.LastIndex(s, c)\<close> and \<open>strings.Index(s, c)\<close> for a one-byte separator;
  \<open>None\<close> is Go's -1.
\<close>

definition LastIndex :: "string \<Rightarrow> char \<Rightarrow> nat option" where
  "LastIndex s c = (if c \<in> set s
     then Some (length s - Suc (length (takeWhile (\<lambda>x. x \<noteq> c) (rev s)))) else None)"

definition IndexByte :: "string \<Rightarrow> char \<Rightarrow> nat option" where
  "IndexByte s c = (if c \<in> set s then Some (length (takeWhile (\<lambda>x. x \<noteq> c) s)) else None)"

lemma LastIndex_append:
  assumes "c \<notin> set p"
  shows "LastIndex (h @ c # p) c = Some (length h)"
proof -
  have "takeWhile (\<lambda>x. x \<noteq> c) (rev p @ c # rev h) = rev p"
    using assms by (subst takeWhile_append2) auto
  then show ?thesis by (simp add: LastIndex_def)
qed

lemma LastIndex_None: "LastIndex s c = None \<longleftrightarrow> c \<notin> set s"
  by (simp add: LastIndex_def)

text \<open>\<open>strings.SplitN(s, sep, 2)\<close> and \<open>strings.Split(s, sep)\<close>, one-byte separator.\<close>

definition SplitN2 :: "string \<Rightarrow> char \<Rightarrow> string list" where
  "SplitN2 s c = (if c \<in> set s
     then [takeWhile (\<lambda>x. x \<noteq> c) s, tl (dropWhile (\<lambda>x. x \<noteq> c) s)] else [s])"

fun Split :: "string \<Rightarrow> char \<Rightarrow> string list" where
  "Split [] c = [[]]"
| "Split (x # xs) c =
     (if x = c then [] # Split xs c
      else (case Split xs c of [] \<Rightarrow> [[x]] | y # ys \<Rightarrow> (x # y) # ys))"

lemma Split_not_Nil [simp]: "Split s c \<noteq> []"
  by (cases s) (auto split: list.split)

lemma SplitN2_append: "c \<notin> set u \<Longrightarrow> SplitN2 (u @ c # v) c = [u, v]"
  by (simp add: SplitN2_def takeWhile_append dropWhile_append)

text \<open>\<open>strings.Join\<close>.\<close>

fun Join :: "string list \<Rightarrow> string \<Rightarrow> string" where
  "Join [] sep = []"
| "Join [x] sep = x"
| "Join (x # y # ys) sep = x @ sep @ Join (y # ys) sep"

lemma Split_append:
  assumes "c \<notin> set u"
  shows "Split (u @ c # v) c = u # Split v c"
  using assms by (induction u) auto

lemma Split_single: "c \<notin> set u \<Longrightarrow> Split u c = [u]"
  by (induction u) auto

text \<open>Splitting a joined list gives the list back when no element holds the separator.\<close>

lemma Split_Join:
  assumes "xs \<noteq> []" and "\<And>x. x \<in> set xs \<Longrightarrow> c \<notin> set x"
  shows "Split (Join xs [c]) c = xs"
  using assms
proof (induction xs "[c]" rule: Join.induct)
  case 1
  then show ?case by simp
next
  case (2 x)
  then show ?case by (simp add: Split_single)
next
  case (3 x y ys)
  then show ?case by (simp add: Split_append)
qed

text \<open>
  \<open>strings.TrimSpace\<close>: the white space of Unicode, as the UTF-8 byte sequences of its
  code points. A byte that is not part of one of these sequences is never trimmed.
\<close>

definition space_seqs :: "string list" where
  "space_seqs =
     [[CHR 0x09], [CHR 0x0A], [CHR 0x0B], [CHR 0x0C], [CHR 0x0D], [CHR 0x20],
      [CHR 0xC2, CHR 0x85], [CHR 0xC2, CHR 0xA0], [CHR 0xE1, CHR 0x9A, CHR 0x80],
      [CHR 0xE2, CHR 0x80, CHR 0x80], [CHR 0xE2, CHR 0x80, CHR 0x81],
      [CHR 0xE2, CHR 0x80, CHR 0x82], [CHR 0xE2, CHR 0x80, CHR 0x83],
      [CHR 0xE2, CHR 0x80, CHR 0x84], [CHR 0xE2, CHR 0x80, CHR 0x85],
      [CHR 0xE2, CHR 0x80, CHR 0x86], [CHR 0xE2, CHR 0x80, CHR 0x87],
      [CHR 0xE2, CHR 0x80, CHR 0x88], [CHR 0xE2, CHR 0x80, CHR 0x89],
      [CHR 0xE2, CHR 0x80, CHR 0x8A], [CHR 0xE2, CHR 0x80, CHR 0xA8],
      [CHR 0xE2, CHR 0x80, CHR 0xA9], [CHR 0xE2, CHR 0x80, CHR 0xAF],
      [CHR 0xE2, CHR 0x81, CHR 0x9F], [CHR 0xE3, CHR 0x80, CHR 0x80]]"

function trim_left_seqs :: "string list \<Rightarrow> string \<Rightarrow> string" where
  "trim_left_seqs qs s =
     (case find (\<lambda>q. q \<noteq> [] \<and> HasPrefix s q) qs of
        None \<Rightarrow> s
      | Some q \<Rightarrow> trim_left_seqs qs (drop (length q) s))"
  by pat_completeness auto
termination
proof (relation "measure (\<lambda>(qs, s). length s)")
  fix qs :: "string list" and s q :: string
  assume "find (\<lambda>q. q \<noteq> [] \<and> HasPrefix s q) qs = Some q"
  then have "q \<noteq> []" "HasPrefix s q" by (auto simp: find_Some_iff)
  then have "length q \<le> length s" "0 < length q" by (auto simp: HasPrefix_iff)
  then have "length s - length q < length s" by linarith
  then show "((qs, drop (length q) s), qs, s) \<in> measure (\<lambda>(qs, s). length s)" by simp
qed simp

declare trim_left_seqs.simps [simp del]

definition TrimSpace :: "string \<Rightarrow> string" where
  "TrimSpace s =
     rev (trim_left_seqs (map rev space_seqs) (rev (trim_left_seqs space_seqs s)))"

definition TrimRight :: "string \<Rightarrow> char \<Rightarrow> string" where
  "TrimRight s c = rev (dropWhile (\<lambda>x. x = c) (rev s))"

text \<open>\<open>%d\<close> of an integer.\<close>

fun dec_digits :: "nat \<Rightarrow> string" where
  "dec_digits n =
     (if n < 10 then [char_of (n + 48)] else dec_digits (n div 10) @ [char_of (n mod 10 + 48)])"

declare dec_digits.simps [simp del]

definition format_d :: "int \<Rightarrow> string" where
  "format_d i = (if i < 0 then ''-'' @ dec_digits (nat (- i)) else dec_digits (nat i))"

text \<open>\<open>net.JoinHostPort\<close>, also the form in which Go gives the peer of a connection.\<close>

definition JoinHostPort :: "string \<Rightarrow> string \<Rightarrow> string" where
  "JoinHostPort host port =
     (if CHR '':'' \<in> set host then ''['' @ host @ '']:'' @ port else host @ '':'' @ port)"

text \<open>Digits and the number they spell.\<close>

definition is_digit :: "char \<Rightarrow> bool" where
  "is_digit c \<longleftrightarrow> 48 \<le> (of_char c :: nat) \<and> (of_char c :: nat) \<le> 57"

definition digit_val :: "char \<Rightarrow> nat" where
  "digit_val c = of_char c - 48"

lemma digit_char [simp]: "n < 10 \<Longrightarrow> is_digit (char_of (n + 48)) \<and> digit_val (char_of (n + 48)) = n"
  by (simp add: is_digit_def digit_val_def)

lemma dec_digits_all: "\<forall>c \<in> set (dec_digits n). is_digit c"
  by (induction n rule: dec_digits.induct) (subst dec_digits.simps, simp)

lemma dec_digits_not_Nil [simp]: "dec_digits n \<noteq> []"
  by (subst dec_digits.simps) simp

section \<open>Locations\<close>

text \<open>
  \<open>*time.Location\<close>: the process's local zone, UTC, or a zone of the IANA database. A
  nil pointer is \<open>None\<close> of \<open>location option\<close>. The database itself is not part of
  the program: \<open>tzdb n\<close> says whether it holds a zone named \<open>n\<close>.
\<close>

datatype location = LocLocal | LocUTC | LocZone string

fun loc_String :: "location \<Rightarrow> string" where
  "loc_String LocLocal = ''Local''"
| "loc_String LocUTC = ''UTC''"
| "loc_String (LocZone n) = n"

definition LoadLocation :: "(string \<Rightarrow> bool) \<Rightarrow> string \<Rightarrow> location option" where
  "LoadLocation tzdb name =
     (if name = '''' \<or> name = ''UTC'' then Some LocUTC
      else if name = ''Local'' then Some LocLocal
      else if Contains name ''..'' \<or> hd name = CHR ''/'' \<or> hd name = CHR 0x5C then None
      else if tzdb name then Some (LocZone name) else None)"

end
