(* ===== verification/Config.thy ===== *)
theory Config
  imports Prelude
begin

text \<open>
  The configuration data of \<^verbatim>\<open>gateway/config.go\<close>: the structs as records (field names
  carry a prefix, since HOL's record fields are global), the defaults filled in after
  parsing, equality of configurations, and the lookup indexes built from a configuration.
  Validation and loading are in the theories \<open>Validation\<close> and \<open>Loading\<close>. A Go slice
  is a list; a nil slice and an empty slice are the same list.
\<close>

section \<open>Data\<close>

record ContainerConfig =
  c_Name :: string
  c_Host :: string
  c_TargetPort :: string
  c_StartTimeout :: duration
  c_IdleTimeout :: duration
  c_Network :: string
  c_RedirectPath :: string
  c_Icon :: string
  c_HealthPath :: string
  c_DependsOn :: "string list"
  c_ScheduleStart :: string
  c_ScheduleStop :: string
  c_ScheduleTimezone :: string

record GroupConfig =
  g_Name :: string
  g_Host :: string
  g_Strategy :: string
  g_Containers :: "string list"

record AdminAuthConfig =
  a_Method :: string
  a_Username :: string
  a_Password :: string
  a_Token :: string

record GlobalConfig =
  Port :: string
  LogLines :: int
  TrustedProxies :: "string list"
  DiscoveryInterval :: duration
  AdminAuth :: AdminAuthConfig
  ScheduleTimezone :: string

record GatewayConfig =
  Gateway :: GlobalConfig
  Containers :: "ContainerConfig list"
  Groups :: "GroupConfig list"

text \<open>The zero value of a container's struct, the start of a composite literal.\<close>

definition zero_container :: ContainerConfig where
  "zero_container =
     \<lparr>c_Name = '''', c_Host = '''', c_TargetPort = '''', c_StartTimeout = 0,
      c_IdleTimeout = 0, c_Network = '''', c_RedirectPath = '''', c_Icon = '''',
      c_HealthPath = '''', c_DependsOn = [], c_ScheduleStart = '''',
      c_ScheduleStop = '''', c_ScheduleTimezone = ''''\<rparr>"

text \<open>\<open>Equal\<close> takes two pointers: nil is equal to nil only.\<close>

definition Equal :: "GatewayConfig option \<Rightarrow> GatewayConfig option \<Rightarrow> bool" where
  "Equal c other =
     (case (c, other) of
        (Some a, Some b) \<Rightarrow> a = b
      | (None, None) \<Rightarrow> True
      | _ \<Rightarrow> False)"

lemma Equal_iff: "Equal c other \<longleftrightarrow> c = other"
  by (auto simp: Equal_def split: option.splits)

section \<open>Defaults\<close>

definition default_global :: "GlobalConfig \<Rightarrow> GlobalConfig" where
  "default_global g0 =
     (let g1 = (if Port g0 = '''' then g0\<lparr>Port := ''8080''\<rparr> else g0);
          g2 = (if LogLines g1 = 0 then g1\<lparr>LogLines := 30\<rparr> else g1);
          g3 = (if DiscoveryInterval g2 = 0 then g2\<lparr>DiscoveryInterval := 15 * second\<rparr> else g2)
      in if a_Method (AdminAuth g3) = ''''
         then g3\<lparr>AdminAuth := (AdminAuth g3)\<lparr>a_Method := ''none''\<rparr>\<rparr> else g3)"

definition default_container :: "ContainerConfig \<Rightarrow> ContainerConfig" where
  "default_container c0 =
     (let c1 = (if c_TargetPort c0 = '''' then c0\<lparr>c_TargetPort := ''80''\<rparr> else c0);
          c2 = (if c_StartTimeout c1 = 0 then c1\<lparr>c_StartTimeout := 60 * second\<rparr> else c1);
          c3 = (if c_RedirectPath c2 = '''' then c2\<lparr>c_RedirectPath := ''/''\<rparr> else c2)
      in if c_Icon c3 = '''' then c3\<lparr>c_Icon := ''docker''\<rparr> else c3)"

definition default_group :: "GroupConfig \<Rightarrow> GroupConfig" where
  "default_group g = (if g_Strategy g = '''' then g\<lparr>g_Strategy := ''round-robin''\<rparr> else g)"

definition applyDefaults :: "GatewayConfig \<Rightarrow> GatewayConfig" where
  "applyDefaults cfg =
     cfg\<lparr>Gateway := default_global (Gateway cfg),
         Containers := map default_container (Containers cfg),
         Groups := map default_group (Groups cfg)\<rparr>"

lemmas default_defs = default_global_def default_container_def default_group_def Let_def

lemma default_container_frame [simp]:
  "c_Name (default_container c) = c_Name c"
  "c_Host (default_container c) = c_Host c"
  "c_IdleTimeout (default_container c) = c_IdleTimeout c"
  "c_DependsOn (default_container c) = c_DependsOn c"
  "c_HealthPath (default_container c) = c_HealthPath c"
  "c_ScheduleStart (default_container c) = c_ScheduleStart c"
  "c_ScheduleStop (default_container c) = c_ScheduleStop c"
  by (simp_all add: default_defs)

lemma default_container_filled:
  "c_TargetPort (default_container c) \<noteq> ''''" "c_StartTimeout (default_container c) \<noteq> 0"
  "c_RedirectPath (default_container c) \<noteq> ''''" "c_Icon (default_container c) \<noteq> ''''"
  by (simp_all add: default_defs duration_defs)

lemma default_global_idem: "default_global (default_global g) = default_global g"
  by (simp add: default_defs duration_defs)

lemma default_container_idem: "default_container (default_container c) = default_container c"
  by (simp add: default_defs duration_defs)

lemma default_group_idem: "default_group (default_group g) = default_group g"
  by (simp add: default_defs)

text \<open>
  \<^verbatim>\<open>applyDefaults\<close>: filling in the defaults is idempotent, leaves no
  required default unset, and touches neither names, hosts, idle timeouts nor the
  dependency lists of the containers.
\<close>

theorem applyDefaults_complete:
  "applyDefaults (applyDefaults cfg) = applyDefaults cfg \<and>
   Port (Gateway (applyDefaults cfg)) \<noteq> '''' \<and>
   DiscoveryInterval (Gateway (applyDefaults cfg)) \<noteq> 0 \<and>
   a_Method (AdminAuth (Gateway (applyDefaults cfg))) \<noteq> '''' \<and>
   list_all (\<lambda>c. c_TargetPort c \<noteq> '''' \<and> c_StartTimeout c \<noteq> 0 \<and> c_RedirectPath c \<noteq> '''' \<and>
                 c_Icon c \<noteq> '''') (Containers (applyDefaults cfg)) \<and>
   map (\<lambda>c. (c_Name c, c_Host c, c_IdleTimeout c, c_DependsOn c)) (Containers (applyDefaults cfg)) =
     map (\<lambda>c. (c_Name c, c_Host c, c_IdleTimeout c, c_DependsOn c)) (Containers cfg)"
proof -
  have g: "Port (default_global g) \<noteq> ''''" "DiscoveryInterval (default_global g) \<noteq> 0"
    "a_Method (AdminAuth (default_global g)) \<noteq> ''''" for g
    by (simp_all add: default_defs duration_defs)
  show ?thesis
    by (simp add: applyDefaults_def default_global_idem default_container_idem
        default_group_idem g default_container_filled list_all_iff)
qed

section \<open>Indexes\<close>

text \<open>
  An index maps a key to an entry of a configuration list. The contract the request
  router relies on: an entry found was kept and has the key; a kept entry's key is
  found; and a later entry wins over an earlier one with the same key.
\<close>

locale last_wins_index =
  fixes build :: "'cfg \<Rightarrow> string \<Rightarrow> 'e option"
    and entries :: "'cfg \<Rightarrow> 'e list"
    and key :: "'e \<Rightarrow> string"
    and keep :: "'e \<Rightarrow> bool"
  assumes index_find: "build cfg k = find (\<lambda>e. keep e \<and> key e = k) (rev (entries cfg))"
begin

lemma index_SomeD: "build cfg k = Some e \<Longrightarrow> e \<in> set (entries cfg) \<and> keep e \<and> key e = k"
  by (auto simp: index_find dest!: find_SomeD)

lemma index_None: "build cfg k = None \<longleftrightarrow> (\<forall>e \<in> set (entries cfg). keep e \<longrightarrow> key e \<noteq> k)"
  by (auto simp: index_find find_None_iff)

lemma index_dom: "dom (build cfg) = key ` set (filter keep (entries cfg))"
  using index_None by (force simp: dom_def)

lemma index_unique:
  assumes "distinct (map key (filter keep (entries cfg)))"
    and "e \<in> set (entries cfg)" and "keep e"
  shows "build cfg (key e) = Some e"
proof -
  from assms(2,3) index_None obtain e' where e': "build cfg (key e) = Some e'" by fastforce
  with index_SomeD have "e' \<in> set (filter keep (entries cfg))" "key e' = key e" by auto
  with assms have "e' = e" by (auto simp: distinct_map dest: inj_onD)
  with e' show ?thesis by simp
qed

end

lemma foldl_index:
  "foldl (\<lambda>idx e. if keep e then idx(key e \<mapsto> e) else idx) m es k =
     (case find (\<lambda>e. keep e \<and> key e = k) (rev es) of None \<Rightarrow> m k | Some e \<Rightarrow> Some e)"
  by (induction es rule: rev_induct) auto

definition BuildHostIndex :: "GatewayConfig \<Rightarrow> string \<Rightarrow> ContainerConfig option" where
  "BuildHostIndex cfg =
     foldl (\<lambda>idx c. if c_Host c \<noteq> '''' then idx(c_Host c \<mapsto> c) else idx) Map.empty
       (Containers cfg)"

definition BuildGroupHostIndex :: "GatewayConfig \<Rightarrow> string \<Rightarrow> GroupConfig option" where
  "BuildGroupHostIndex cfg =
     foldl (\<lambda>idx g. if g_Host g \<noteq> '''' then idx(g_Host g \<mapsto> g) else idx) Map.empty
       (Groups cfg)"

definition container_map :: "ContainerConfig list \<Rightarrow> string \<Rightarrow> ContainerConfig option" where
  "container_map cs = foldl (\<lambda>m c. m(c_Name c \<mapsto> c)) Map.empty cs"

definition BuildContainerMap :: "GatewayConfig \<Rightarrow> string \<Rightarrow> ContainerConfig option" where
  "BuildContainerMap cfg = container_map (Containers cfg)"

lemma container_map_find: "container_map cs k = find (\<lambda>c. c_Name c = k) (rev cs)"
  using foldl_index [of "\<lambda>_. True" c_Name Map.empty cs k]
  by (auto simp: container_map_def split: option.splits)

interpretation host_index: last_wins_index BuildHostIndex Containers c_Host "\<lambda>c. c_Host c \<noteq> ''''"
  by unfold_locales
    (simp add: BuildHostIndex_def foldl_index [where keep = "\<lambda>c. c_Host c \<noteq> ''''"]
       split: option.split)

interpretation group_index: last_wins_index BuildGroupHostIndex Groups g_Host "\<lambda>g. g_Host g \<noteq> ''''"
  by unfold_locales
    (simp add: BuildGroupHostIndex_def foldl_index [where keep = "\<lambda>g. g_Host g \<noteq> ''''"]
       split: option.split)

interpretation name_index: last_wins_index container_map "\<lambda>cs. cs" c_Name "\<lambda>_. True"
  by unfold_locales (simp add: container_map_find)

interpretation cfg_name_index: last_wins_index BuildContainerMap Containers c_Name "\<lambda>_. True"
  by unfold_locales (simp add: BuildContainerMap_def container_map_find)

lemma container_map_Some: "container_map cs n = Some c \<Longrightarrow> c \<in> set cs \<and> c_Name c = n"
  using name_index.index_SomeD by fastforce

lemma container_map_dom [route_simps]: "dom (container_map cs) = c_Name ` set cs"
  by (simp add: name_index.index_dom)

lemma container_map_None [route_simps]:
  "container_map cs n = None \<longleftrightarrow> n \<notin> c_Name ` set cs"
  by (auto simp: name_index.index_None)

text \<open>The dependency lists by name: \<open>deps\<close> of a name without an entry is nil.\<close>

definition deps_of :: "ContainerConfig list \<Rightarrow> string \<Rightarrow> string list" where
  "deps_of cs n = (case container_map cs n of None \<Rightarrow> [] | Some c \<Rightarrow> c_DependsOn c)"

definition dep_rel :: "ContainerConfig list \<Rightarrow> (string \<times> string) set" where
  "dep_rel cs = {(a, b). b \<in> set (deps_of cs a)}"

lemma dep_rel_iff [simp]: "(a, b) \<in> dep_rel cs \<longleftrightarrow> b \<in> set (deps_of cs a)"
  by (simp add: dep_rel_def)

lemma deps_of_nonempty: "b \<in> set (deps_of cs a) \<Longrightarrow> a \<in> c_Name ` set cs"
  by (cases "container_map cs a") (auto simp: deps_of_def dest: container_map_Some)

section \<open>Sample configurations\<close>

text \<open>Small configurations at which the theories evaluate their theorems.\<close>

definition mk_ctr :: "string \<Rightarrow> string \<Rightarrow> string list \<Rightarrow> ContainerConfig" where
  "mk_ctr name host deps = zero_container\<lparr>c_Name := name, c_Host := host, c_TargetPort := ''80'',
     c_StartTimeout := 60 * second, c_RedirectPath := ''/'', c_Icon := ''docker'', c_DependsOn := deps\<rparr>"

lemma mk_ctr_sel [simp]:
  "c_Name (mk_ctr n h d) = n" "c_Host (mk_ctr n h d) = h" "c_DependsOn (mk_ctr n h d) = d"
  "c_TargetPort (mk_ctr n h d) = ''80''" "c_ScheduleStart (mk_ctr n h d) = ''''"
  "c_ScheduleStop (mk_ctr n h d) = ''''" "c_ScheduleTimezone (mk_ctr n h d) = ''''"
  "c_StartTimeout (mk_ctr n h d) = 60 * second" "c_IdleTimeout (mk_ctr n h d) = 0"
  "c_Network (mk_ctr n h d) = ''''" "c_HealthPath (mk_ctr n h d) = ''''"
  by (simp_all add: mk_ctr_def zero_container_def)

definition chain_cs :: "ContainerConfig list" where
  "chain_cs = [mk_ctr ''app'' ''app.localhost'' [''api''], mk_ctr ''api'' '''' [''db''], mk_ctr ''db'' '''' []]"

definition loop_cs :: "ContainerConfig list" where
  "loop_cs = [mk_ctr ''app'' ''app.localhost'' [''api''], mk_ctr ''api'' '''' [''app''] ]"

definition broken_cs :: "ContainerConfig list" where
  "broken_cs = [mk_ctr ''app'' ''app.localhost'' [''api'']]"

lemma sample_deps:
  "deps_of chain_cs = (\<lambda>n. if n = ''app'' then [''api''] else if n = ''api'' then [''db''] else [])"
  "deps_of loop_cs = (\<lambda>n. if n = ''app'' then [''api''] else if n = ''api'' then [''app''] else [])"
  by (auto simp: chain_cs_def loop_cs_def deps_of_def container_map_def fun_eq_iff)

end
