(* ===== verification/Sequences.thy ===== *)
theory Sequences
  imports Prelude "HOL-Library.Sublist"
begin

text \<open>
  Subsequences keep what holds of the elements and of their order. The lists of containers
  an operation starts or stops are subsequences of the order it goes through.
\<close>

lemma subseq_set: "subseq xs ys \<Longrightarrow> x \<in> set xs \<Longrightarrow> x \<in> set ys"
  by (induction rule: list_emb.induct) auto

lemma subseq_sorted_wrt: "subseq xs ys \<Longrightarrow> sorted_wrt P ys \<Longrightarrow> sorted_wrt P xs"
  by (induction rule: list_emb.induct) (auto dest: subseq_set)

lemma distinct_sorted_wrt: "distinct xs \<longleftrightarrow> sorted_wrt (\<lambda>a b. a \<noteq> b) xs"
  by (induction xs) auto

end
