(* ===== verification/Docker.thy ===== *)
theory Docker
  imports Config Sequences
begin

unbundle bit_operations_syntax

text \<open>
  The Docker client of \<^verbatim>\<open>gateway/docker.go\<close> and the metric helpers of
  \<^verbatim>\<open>gateway/metrics.go\<close>.

  The Docker daemon, the network and the clock are outside the program: they are the
  functions of a record \<open>env\<close> over a world of any type \<open>'w\<close>, each of which answers
  and moves the world on. The answer of \<open>select\<close> between a context and a timer is also
  the environment's. Every call the gateway makes is appended to a trace, which is what the
  theorems about starts and stops read; Prometheus counters are library objects, so the
  trace records the increments.
\<close>

section \<open>The environment\<close>

datatype ctx = CtxBackground | CtxRoot | CtxRequest | CtxDeadline time

datatype wake = CtxDone | Tick

record inspect =
  i_Status :: string
  i_Image :: string
  i_StartedAt :: string
  i_FinishedAt :: string
  i_Networks :: "(string \<times> string) list"

record listed =
  l_Names :: "string list"
  l_Labels :: "string \<Rightarrow> string option"

datatype http_result = HttpBadRequest string | HttpErr string | HttpStatus int

record 'w env =
  ContainerInspect :: "ctx \<Rightarrow> string \<Rightarrow> 'w \<Rightarrow> (string + inspect) \<times> 'w"
  ContainerStart :: "ctx \<Rightarrow> string \<Rightarrow> 'w \<Rightarrow> string option \<times> 'w"
  ContainerStop :: "ctx \<Rightarrow> string \<Rightarrow> 'w \<Rightarrow> string option \<times> 'w"
  ContainerList :: "ctx \<Rightarrow> string \<Rightarrow> 'w \<Rightarrow> (string + listed list) \<times> 'w"
  ContainerLogs :: "ctx \<Rightarrow> string \<Rightarrow> string \<Rightarrow> 'w \<Rightarrow> (string + string) \<times> 'w"
  DialTimeout :: "string \<Rightarrow> duration \<Rightarrow> 'w \<Rightarrow> string option \<times> 'w"
  DialContext :: "ctx \<Rightarrow> string \<Rightarrow> 'w \<Rightarrow> string option \<times> 'w"
  HttpGet :: "ctx \<Rightarrow> string \<Rightarrow> 'w \<Rightarrow> http_result \<times> 'w"
  Now :: "'w \<Rightarrow> time \<times> 'w"
  Wait :: "ctx \<Rightarrow> duration \<Rightarrow> 'w \<Rightarrow> wake \<times> 'w"
  RangeOrder :: "string list \<Rightarrow> 'w \<Rightarrow> string list \<times> 'w"

datatype event =
    EvInspect string "string option"
  | EvStart string bool
  | EvStop string bool
  | EvList
  | EvLogs string
  | EvDial string
  | EvGet string
  | MetricStart string string
  | MetricStartDuration string duration
  | MetricIdleStop string
  | MetricRequest string string
  | MetricRequestDuration string duration

record 'w io =
  world :: 'w
  trace :: "event list"

text \<open>
  One call: the environment's answer, the moved world and the recorded event. An inspection
  records the status it saw (\<open>None\<close> when it failed), a start or a stop whether it was accepted.
\<close>

definition call :: "('w \<Rightarrow> 'r \<times> 'w) \<Rightarrow> ('r \<Rightarrow> event list) \<Rightarrow> 'w io \<Rightarrow> 'r \<times> 'w io" where
  "call f ev s = (case f (world s) of (r, w) \<Rightarrow> (r, s\<lparr>world := w, trace := trace s @ ev r\<rparr>))"

definition emit :: "event list \<Rightarrow> 'w io \<Rightarrow> 'w io" where
  "emit evs s = s\<lparr>trace := trace s @ evs\<rparr>"

lemma trace_call: "call f ev s = (r, s') \<Longrightarrow> trace s' = trace s @ ev r"
  by (auto simp: call_def split: prod.splits)

lemma trace_emit [simp]: "trace (emit evs s) = trace s @ evs"
  by (simp add: emit_def)

lemma world_emit [simp]: "world (emit evs s) = world s"
  by (simp add: emit_def)

text \<open>The start calls and the stop calls of a trace, in order.\<close>

fun starts :: "event list \<Rightarrow> string list" where
  "starts [] = []"
| "starts (EvStart n ok # es) = n # starts es"
| "starts (e # es) = starts es"

fun stop_calls :: "event list \<Rightarrow> string list" where
  "stop_calls [] = []"
| "stop_calls (EvStop n ok # es) = n # stop_calls es"
| "stop_calls (e # es) = stop_calls es"

lemma starts_append [simp]: "starts (es @ fs) = starts es @ starts fs"
  by (induction es rule: starts.induct) auto

lemma stop_calls_append [simp]: "stop_calls (es @ fs) = stop_calls es @ stop_calls fs"
  by (induction es rule: stop_calls.induct) auto

text \<open>
  The interface the manager's proofs rest on: how an operation extends the trace. An
  operation that is quiet neither starts nor stops a container.
\<close>

definition quiet :: "'w io \<Rightarrow> 'w io \<Rightarrow> bool" where
  "quiet s s' \<longleftrightarrow> (\<exists>es. trace s' = trace s @ es \<and> starts es = [] \<and> stop_calls es = [])"

lemma quiet_refl [simp]: "quiet s s"
  by (simp add: quiet_def)

lemma quiet_trans: "quiet s s' \<Longrightarrow> quiet s' s'' \<Longrightarrow> quiet s s''"
  unfolding quiet_def by (metis append.assoc append_Nil2 starts_append stop_calls_append)

lemma quietD:
  "quiet s s' \<Longrightarrow> starts (trace s') = starts (trace s) \<and> stop_calls (trace s') = stop_calls (trace s)"
  by (auto simp: quiet_def)

lemma quiet_emit: "starts es = [] \<Longrightarrow> stop_calls es = [] \<Longrightarrow> quiet s (emit es s)"
  by (auto simp: quiet_def)

locale docker_op =
  fixes run :: "'w io \<Rightarrow> 'r \<times> 'w io" and ns ms :: "string list"
  assumes run_trace: "run s = (r, s') \<Longrightarrow>
    \<exists>es. trace s' = trace s @ es \<and> starts es = ns \<and> stop_calls es = ms"
begin

lemma run_starts: "run s = (r, s') \<Longrightarrow> starts (trace s') = starts (trace s) @ ns"
  by (auto dest: run_trace)

lemma run_stops: "run s = (r, s') \<Longrightarrow> stop_calls (trace s') = stop_calls (trace s) @ ms"
  by (auto dest: run_trace)

end

text \<open>A query is an operation whose events neither start nor stop a container.\<close>

locale docker_query = docker_op run "[]" "[]" for run :: "'w io \<Rightarrow> 'r \<times> 'w io"
begin

lemma run_quiet: "run s = (r, s') \<Longrightarrow> quiet s s'"
  by (auto simp: quiet_def dest: run_trace)

end

lemma call_quiet:
  "call f ev s = (r, s') \<Longrightarrow> starts (ev r) = [] \<Longrightarrow> stop_calls (ev r) = [] \<Longrightarrow> quiet s s'"
  using trace_call [of f ev s] by (auto simp: quiet_def)

interpretation call_op: docker_query "call f (\<lambda>_. [])" for f
  by unfold_locales (auto dest: trace_call)

definition status_seen :: "string + inspect \<Rightarrow> string option" where
  "status_seen r = (case r of Inl _ \<Rightarrow> None | Inr info \<Rightarrow> Some (i_Status info))"

section \<open>Inspecting, starting and stopping\<close>

definition GetContainerStatus :: "'w env \<Rightarrow> ctx \<Rightarrow> string \<Rightarrow> 'w io \<Rightarrow> (string + string) \<times> 'w io" where
  "GetContainerStatus E ctx containerName s =
     (case call (ContainerInspect E ctx containerName) (\<lambda>r. [EvInspect containerName (status_seen r)]) s of
        (Inl err, s') \<Rightarrow> (Inl err, s')
      | (Inr info, s') \<Rightarrow> (Inr (i_Status info), s'))"

definition StartContainer :: "'w env \<Rightarrow> ctx \<Rightarrow> string \<Rightarrow> 'w io \<Rightarrow> string option \<times> 'w io" where
  "StartContainer E ctx containerName s = 
     call (ContainerStart E ctx containerName) (\<lambda>r. [EvStart containerName (r = None)]) s"

definition StopContainer :: "'w env \<Rightarrow> ctx \<Rightarrow> string \<Rightarrow> 'w io \<Rightarrow> string option \<times> 'w io" where
  "StopContainer E ctx containerName s =
     call (ContainerStop E ctx containerName) (\<lambda>r. [EvStop containerName (r = None)]) s"

text \<open>
  \<open>InspectContainer\<close> drops a timestamp that does not parse; \<open>parse_time\<close> stands for
  \<^verbatim>\<open>time.Parse(time.RFC3339Nano, ...)\<close>.
\<close>

record ContainerInfo =
  ci_Status :: string
  ci_Image :: string
  ci_StartedAt :: time
  ci_FinishedAt :: time

definition InspectContainer :: "'w env \<Rightarrow> (string \<Rightarrow> time option) \<Rightarrow> ctx \<Rightarrow> string \<Rightarrow> 'w io \<Rightarrow>
    (string + ContainerInfo) \<times> 'w io" where
  "InspectContainer E parse_time ctx containerName s =
     (case call (ContainerInspect E ctx containerName) (\<lambda>r. [EvInspect containerName (status_seen r)]) s of
        (Inl err, s') \<Rightarrow> (Inl err, s')
      | (Inr info, s') \<Rightarrow>
          (Inr \<lparr>ci_Status = i_Status info, ci_Image = i_Image info,
                ci_StartedAt = (case parse_time (i_StartedAt info) of None \<Rightarrow> 0 | Some t \<Rightarrow> t),
                ci_FinishedAt = (case parse_time (i_FinishedAt info) of None \<Rightarrow> 0 | Some t \<Rightarrow> t)\<rparr>,
           s'))"

definition joinNetworkNames :: "(string \<times> string) list \<Rightarrow> string" where
  "joinNetworkNames nets = Join (map fst nets) '', ''"

datatype addr_error =
    AddrInspect string
  | NoInterfaces string
  | NotOnNetwork string string string
  | NoAddress string

text \<open>
  The networks of a container are a Go map: the list is one order of ranging over it, with
  distinct names. Without a requested network the first non-empty address is taken.
\<close>

definition container_address :: "string \<Rightarrow> string \<Rightarrow> (string \<times> string) list \<Rightarrow> addr_error + string" where
  "container_address containerName network nets =
     (if length nets = 0 then Inl (NoInterfaces containerName)
      else if network \<noteq> '''' then
        (case map_of nets network of
           Some ip \<Rightarrow> if ip \<noteq> '''' then Inr ip
                      else Inl (NotOnNetwork containerName network (joinNetworkNames nets))
         | None \<Rightarrow> Inl (NotOnNetwork containerName network (joinNetworkNames nets)))
      else (case find (\<lambda>n. snd n \<noteq> '''') nets of
              Some n \<Rightarrow> Inr (snd n)
            | None \<Rightarrow> Inl (NoAddress containerName)))"

definition GetContainerAddress :: "'w env \<Rightarrow> ctx \<Rightarrow> string \<Rightarrow> string \<Rightarrow> 'w io \<Rightarrow>
    (addr_error + string) \<times> 'w io" where
  "GetContainerAddress E ctx containerName network s =
     (case call (ContainerInspect E ctx containerName) (\<lambda>r. [EvInspect containerName (status_seen r)]) s of
        (Inl err, s') \<Rightarrow> (Inl (AddrInspect err), s')
      | (Inr info, s') \<Rightarrow> (container_address containerName network (i_Networks info), s'))"

lemmas docker_ops = GetContainerStatus_def InspectContainer_def GetContainerAddress_def StartContainer_def StopContainer_def

interpretation status_op: docker_query "GetContainerStatus E ctx n" for E ctx n
  by unfold_locales (auto simp: docker_ops split: prod.splits sum.splits dest!: trace_call)

interpretation inspect_op: docker_query "InspectContainer E pt ctx n" for E pt ctx n
  by unfold_locales (auto simp: docker_ops split: prod.splits sum.splits dest!: trace_call)

interpretation address_op: docker_query "GetContainerAddress E ctx n net" for E ctx n net
  by unfold_locales (auto simp: docker_ops split: prod.splits sum.splits dest!: trace_call)

interpretation start_op: docker_op "StartContainer E ctx n" "[n]" "[]" for E ctx n
  by unfold_locales (auto simp: docker_ops dest!: trace_call)

interpretation stop_op: docker_op "StopContainer E ctx n" "[]" "[n]" for E ctx n
  by unfold_locales (auto simp: docker_ops dest!: trace_call)

text \<open>
  \<^verbatim>\<open>GetContainerAddress\<close>: an address is only returned when it is
  non-empty and belongs to the container, on the requested network when one is requested;
  and whenever such an address exists one is returned.
\<close>

theorem container_address_correct:
  assumes "distinct (map fst nets)"
  shows "(container_address c network nets = Inr ip \<longrightarrow>
      ip \<noteq> '''' \<and> (\<exists>n. (n, ip) \<in> set nets \<and> (network \<noteq> '''' \<longrightarrow> n = network))) \<and>
    ((\<exists>n a. (n, a) \<in> set nets \<and> a \<noteq> '''' \<and> (network \<noteq> '''' \<longrightarrow> n = network)) \<longrightarrow>
      (\<exists>ip. container_address c network nets = Inr ip))"
proof (cases "network = ''''")
  case True
  show ?thesis
  proof (cases "find (\<lambda>n. snd n \<noteq> '''') nets")
    case None
    then have "snd x = ''''" if "x \<in> set nets" for x
      using that by (cases x) (auto simp: find_None_iff)
    then have empty: "a = ''''" if "(n, a) \<in> set nets" for n a
      using that by force
    have "container_address c network nets \<noteq> Inr ip" for ip
      using None True by (simp add: container_address_def)
    with empty True show ?thesis by blast
  next
    case (Some x)
    with find_SomeD [OF Some] True show ?thesis
      by (cases x) (auto simp: container_address_def)
  qed
next
  case False
  have m: "(network, a) \<in> set nets \<longleftrightarrow> map_of nets network = Some a" for a
    using assms by simp
  then have "nets = [] \<Longrightarrow> map_of nets network = None" by simp
  with False show ?thesis
    by (cases "map_of nets network") (auto simp add: container_address_def m simp del: map_of_eq_None_iff)
qed

lemma container_address_correct_witness:
  "container_address ''db'' ''back'' [(''front'', ''10.0.0.2''), (''back'', ''10.1.0.2'')] = Inr ''10.1.0.2''"
  using container_address_correct [of "[(''front'', ''10.0.0.2''), (''back'', ''10.1.0.2'')]" "''db''" "''back''" "''10.1.0.2''"]
  by (auto simp: container_address_def)

section \<open>Probes\<close>

datatype probe_error = TCPTimeout string | HTTPRequest string string | HTTPTimeout string | DialFailed string

partial_function (option) ProbeTCP_loop :: "'w env \<Rightarrow> ctx \<Rightarrow> string \<Rightarrow> 'w io \<Rightarrow>
    (probe_error option \<times> 'w io) option" where
  "ProbeTCP_loop E ctx addr s =
     (case call (DialContext E ctx addr) (\<lambda>_. [EvDial addr]) s of
        (None, s1) \<Rightarrow> Some (None, s1)
      | (Some _, s1) \<Rightarrow>
          (case call (Wait E ctx (300 * 1000000)) (\<lambda>_. []) s1 of
             (CtxDone, s2) \<Rightarrow> Some (Some (TCPTimeout addr), s2)
           | (Tick, s2) \<Rightarrow> ProbeTCP_loop E ctx addr s2))"

definition ProbeTCP :: "'w env \<Rightarrow> ctx \<Rightarrow> string \<Rightarrow> string \<Rightarrow> 'w io \<Rightarrow>
    (probe_error option \<times> 'w io) option" where
  "ProbeTCP E ctx ip port s = ProbeTCP_loop E ctx (JoinHostPort ip port) s"

partial_function (option) ProbeHTTP_loop :: "'w env \<Rightarrow> ctx \<Rightarrow> string \<Rightarrow> 'w io \<Rightarrow>
    (probe_error option \<times> 'w io) option" where
  "ProbeHTTP_loop E ctx probeURL s =
     (case call (HttpGet E ctx probeURL) (\<lambda>_. [EvGet probeURL]) s of
        (r, s1) \<Rightarrow>
          (case r of
             HttpBadRequest err \<Rightarrow> Some (Some (HTTPRequest probeURL err), s1)
           | _ \<Rightarrow>
             if (case r of HttpStatus c \<Rightarrow> 200 \<le> c \<and> c < 300 | _ \<Rightarrow> False) then Some (None, s1)
             else
               (case call (Wait E ctx (500 * 1000000)) (\<lambda>_. []) s1 of
                  (CtxDone, s2) \<Rightarrow> Some (Some (HTTPTimeout probeURL), s2)
                | (Tick, s2) \<Rightarrow> ProbeHTTP_loop E ctx probeURL s2)))"

definition ProbeHTTP :: "'w env \<Rightarrow> ctx \<Rightarrow> string \<Rightarrow> string \<Rightarrow> string \<Rightarrow> 'w io \<Rightarrow>
    (probe_error option \<times> 'w io) option" where
  "ProbeHTTP E ctx ip port path s = ProbeHTTP_loop E ctx (''http://'' @ ip @ '':'' @ port @ path) s"

lemma ProbeHTTP_loop_quiet:
  assumes "ProbeHTTP_loop E ctx url s = Some r"
  shows "quiet s (snd r)"
proof (rule ProbeHTTP_loop.raw_induct [where P = "\<lambda>E ctx url s r. quiet s (snd r)", OF _ assms])
  fix f :: "'a env \<Rightarrow> ctx \<Rightarrow> string \<Rightarrow> 'a io \<Rightarrow> (probe_error option \<times> 'a io) option" and E ctx url s r
  assume IH: "\<And>E ctx url s r. f E ctx url s = Some r \<Longrightarrow> quiet s (snd r)"
    and eq: "(case call (HttpGet E ctx url) (\<lambda>_. [EvGet url]) s of
        (r, s1) \<Rightarrow>
          (case r of
             HttpBadRequest err \<Rightarrow> Some (Some (HTTPRequest url err), s1)
           | _ \<Rightarrow>
             if (case r of HttpStatus c \<Rightarrow> 200 \<le> c \<and> c < 300 | _ \<Rightarrow> False) then Some (None, s1)
             else
               (case call (Wait E ctx (500 * 1000000)) (\<lambda>_. []) s1 of
                  (CtxDone, s2) \<Rightarrow> Some (Some (HTTPTimeout url), s2)
                | (Tick, s2) \<Rightarrow> f E ctx url s2))) = Some r"
  obtain a s1 where c1: "call (HttpGet E ctx url) (\<lambda>_. [EvGet url]) s = (a, s1)" by (meson surj_pair)
  obtain b s2 where c2: "call (Wait E ctx (500 * 1000000)) (\<lambda>_. []) s1 = (b, s2)" by (meson surj_pair)
  from call_quiet [OF c1] have q1: "quiet s s1" by simp
  moreover from call_quiet [OF c2] have "quiet s1 s2" by simp
  ultimately have q2: "quiet s s2" by (rule quiet_trans)
  have "snd r = s1 \<or> snd r = s2 \<or> f E ctx url s2 = Some r"
    using eq c1 c2 by (auto split: http_result.splits wake.splits if_splits)
  with q1 q2 IH [of E ctx url s2 r] show "quiet s (snd r)" by (auto intro: quiet_trans)
qed

text \<open>
  A property of the world that the polling calls keep: inspections, probes, the clock and
  the timers. It holds of what only a start or a stop could change, and of a deadline that
  comes closer.
\<close>

definition polling_keeps :: "'w env \<Rightarrow> ctx \<Rightarrow> ('w \<Rightarrow> bool) \<Rightarrow> bool" where
  "polling_keeps E ctx P \<longleftrightarrow>
     (\<forall>w. P w \<longrightarrow> P (snd (Now E w)) \<and>
       (\<forall>n. P (snd (ContainerInspect E ctx n w))) \<and>
       (\<forall>url. P (snd (HttpGet E ctx url w))) \<and>
       (\<forall>d. P (snd (Wait E ctx d w))) \<and>
       (\<forall>a d. P (snd (DialTimeout E a d w))))"

lemma polling_keepsD:
  assumes "polling_keeps E ctx P" and "P w"
  shows "P (snd (Now E w))" "P (snd (ContainerInspect E ctx n w))" "P (snd (HttpGet E ctx url w))"
    "P (snd (Wait E ctx d w))" "P (snd (DialTimeout E a d w))"
  using assms by (auto simp: polling_keeps_def)

lemma call_world: "call f ev s = (r, s') \<Longrightarrow> world s' = snd (f (world s)) \<and> r = fst (f (world s))"
  by (auto simp: call_def split: prod.splits)

text \<open>One turn of the HTTP probe: it answers, or goes on after a tick.\<close>

lemma ProbeHTTP_loop_turn:
  obtains (answer) e s1 where "ProbeHTTP_loop E ctx url s = Some (e, s1)"
      and "world s1 = snd (HttpGet E ctx url (world s))"
    | (timeout) e s2 where "ProbeHTTP_loop E ctx url s = Some (e, s2)"
      and "world s2 = snd (Wait E ctx (500 * 1000000) (snd (HttpGet E ctx url (world s))))"
    | (again) s2 where "ProbeHTTP_loop E ctx url s = ProbeHTTP_loop E ctx url s2"
      and "Wait E ctx (500 * 1000000) (snd (HttpGet E ctx url (world s))) = (Tick, world s2)"
proof -
  obtain a s1 where c1: "call (HttpGet E ctx url) (\<lambda>_. [EvGet url]) s = (a, s1)" by (meson surj_pair)
  obtain b s2 where c2: "call (Wait E ctx (500 * 1000000)) (\<lambda>_. []) s1 = (b, s2)" by (meson surj_pair)
  have w1: "world s1 = snd (HttpGet E ctx url (world s))" using call_world [OF c1] by simp
  have w2: "world s2 = snd (Wait E ctx (500 * 1000000) (world s1))"
    "b = fst (Wait E ctx (500 * 1000000) (world s1))" using call_world [OF c2] by simp_all
  have "(\<exists>e. ProbeHTTP_loop E ctx url s = Some (e, s1)) \<or>
      (\<exists>e. ProbeHTTP_loop E ctx url s = Some (e, s2)) \<or>
      (b = Tick \<and> ProbeHTTP_loop E ctx url s = ProbeHTTP_loop E ctx url s2)"
    using c1 c2 by (auto simp: ProbeHTTP_loop.simps [of E ctx url s] split: http_result.split wake.split)
  then show thesis
    using answer timeout again w1 w2 by (metis prod.collapse)
qed

lemma ProbeHTTP_loop_keeps:
  assumes "polling_keeps E ctx P" and "P (world s)" and "ProbeHTTP_loop E ctx url s = Some r"
  shows "P (world (snd r))"
proof -
  have "polling_keeps E ctx P \<longrightarrow> P (world s) \<longrightarrow> P (world (snd r))"
  proof (rule ProbeHTTP_loop.raw_induct [where
      P = "\<lambda>E ctx url s r. polling_keeps E ctx P \<longrightarrow> P (world s) \<longrightarrow> P (world (snd r))", OF _ assms(3)])
    fix f :: "'a env \<Rightarrow> ctx \<Rightarrow> string \<Rightarrow> 'a io \<Rightarrow> (probe_error option \<times> 'a io) option" and E ctx url s r
    assume IH: "\<And>E ctx url s r. f E ctx url s = Some r \<Longrightarrow>
        polling_keeps E ctx P \<longrightarrow> P (world s) \<longrightarrow> P (world (snd r))"
      and eq: "(case call (HttpGet E ctx url) (\<lambda>_. [EvGet url]) s of
          (r, s1) \<Rightarrow>
            (case r of
               HttpBadRequest err \<Rightarrow> Some (Some (HTTPRequest url err), s1)
             | _ \<Rightarrow>
               if (case r of HttpStatus c \<Rightarrow> 200 \<le> c \<and> c < 300 | _ \<Rightarrow> False) then Some (None, s1)
               else
                 (case call (Wait E ctx (500 * 1000000)) (\<lambda>_. []) s1 of
                    (CtxDone, s2) \<Rightarrow> Some (Some (HTTPTimeout url), s2)
                  | (Tick, s2) \<Rightarrow> f E ctx url s2))) = Some r"
    obtain a s1 where c1: "call (HttpGet E ctx url) (\<lambda>_. [EvGet url]) s = (a, s1)" by (meson surj_pair)
    obtain b s2 where c2: "call (Wait E ctx (500 * 1000000)) (\<lambda>_. []) s1 = (b, s2)" by (meson surj_pair)
    have c: "snd r = s1 \<or> snd r = s2 \<or> f E ctx url s2 = Some r"
      using eq c1 c2 by (auto split: http_result.splits wake.splits if_splits)
    show "polling_keeps E ctx P \<longrightarrow> P (world s) \<longrightarrow> P (world (snd r))"
    proof (intro impI)
      assume k: "polling_keeps E ctx P" "P (world s)"
      have w1: "P (world s1)" using polling_keepsD(3) [OF k] call_world [OF c1] by simp
      have w2: "P (world s2)" using polling_keepsD(4) [OF k(1) w1] call_world [OF c2] by simp
      show "P (world (snd r))" using c w1 w2 IH [of E ctx url s2 r] k(1) by auto
    qed
  qed
  with assms show ?thesis by blast
qed

text \<open>
  A context with a deadline: every tick of a timer under it brings the deadline closer by
  the measure \<open>mu\<close>, and no other polling call moves it away. Under such a context the
  probe returns.
\<close>

definition ctx_expires :: "'w env \<Rightarrow> ctx \<Rightarrow> ('w \<Rightarrow> nat) \<Rightarrow> bool" where
  "ctx_expires E ctx mu \<longleftrightarrow>
     (\<forall>k. polling_keeps E ctx (\<lambda>w. mu w \<le> k)) \<and>
     (\<forall>d w w'. Wait E ctx d w = (Tick, w') \<longrightarrow> mu w' < mu w)"

lemma ctx_expires_step:
  assumes "ctx_expires E ctx mu"
  shows "mu (snd (Now E w)) \<le> mu w" "mu (snd (ContainerInspect E ctx n w)) \<le> mu w"
    "mu (snd (HttpGet E ctx url w)) \<le> mu w" "mu (snd (Wait E ctx d w)) \<le> mu w"
    "mu (snd (DialTimeout E a d w)) \<le> mu w"
    "Wait E ctx d w = (Tick, w') \<Longrightarrow> mu w' < mu w"
  using assms polling_keepsD [of E ctx "\<lambda>v. mu v \<le> mu w" w] by (auto simp: ctx_expires_def)

lemma ProbeHTTP_loop_returns:
  assumes "ctx_expires E ctx mu"
  shows "\<exists>r. ProbeHTTP_loop E ctx url s = Some r"
proof (induction "mu (world s)" arbitrary: s rule: less_induct)
  case less
  show ?case
  proof (cases rule: ProbeHTTP_loop_turn [of E ctx url s])
    case (again s2)
    have "mu (world s2) < mu (world s)"
      using ctx_expires_step(6) [OF assms again(2)] ctx_expires_step(3) [OF assms, of url "world s"] by linarith
    from less [OF this] again(1) show ?thesis by simp
  qed simp_all
qed

section \<open>Logs\<close>

text \<open>The 32-bit big-endian length of a frame header, as the code computes it.\<close>

definition frame_size :: "string \<Rightarrow> nat" where
  "frame_size b =
     (push_bit 24 (of_char (b ! 4)) OR push_bit 16 (of_char (b ! 5)) OR
      push_bit 8 (of_char (b ! 6)) OR of_char (b ! 7))"

function strip_frames :: "string \<Rightarrow> string \<Rightarrow> string" where
  "strip_frames buf b =
     (if 8 \<le> length b then
        let size0 = frame_size b;
            b1 = drop 8 b;
            size = (if length b1 < size0 then length b1 else size0)
        in strip_frames (buf @ take size b1) (drop size b1)
      else buf)"
  by pat_completeness auto
termination by (relation "measure (\<lambda>(buf, b). length b)") auto

declare strip_frames.simps [simp del]

definition stripDockerLogHeaders :: "string \<Rightarrow> string" where
  "stripDockerLogHeaders b = strip_frames [] b"

datatype logs_result = LogsErr string | LogsOk "string list" | LogsPanic

text \<open>
  The lines of the text, and the last \<open>n\<close> of them. A negative \<open>n\<close> makes the slice
  expression start past the end of the list, which panics.
\<close>

definition log_lines :: "string \<Rightarrow> string list" where
  "log_lines text =
     filter (\<lambda>l. l \<noteq> '''') (map (\<lambda>l. TrimRight l (CHR 0x0D)) (Split text (CHR 0x0A)))"

definition last_lines :: "string list \<Rightarrow> int \<Rightarrow> logs_result" where
  "last_lines lines n =
     (if n < int (length lines) then
        if int (length lines) - n \<le> int (length lines)
        then LogsOk (drop (nat (int (length lines) - n)) lines)
        else LogsPanic
      else LogsOk lines)"

definition GetContainerLogs :: "'w env \<Rightarrow> ctx \<Rightarrow> string \<Rightarrow> int \<Rightarrow> 'w io \<Rightarrow> logs_result \<times> 'w io" where
  "GetContainerLogs E ctx containerName n s =
     (case call (ContainerLogs E ctx containerName (format_d n)) (\<lambda>_. [EvLogs containerName]) s of
        (Inl err, s') \<Rightarrow> (LogsErr err, s')
      | (Inr raw, s') \<Rightarrow> (last_lines (log_lines (stripDockerLogHeaders raw)) n, s'))"

text \<open>The daemon's side of the framing, and the round trip.\<close>

definition be32 :: "nat \<Rightarrow> string" where
  "be32 n = [char_of (n div 2 ^ 24), char_of (n div 2 ^ 16), char_of (n div 2 ^ 8), char_of n]"

definition frame :: "char \<times> string \<Rightarrow> string" where
  "frame p = [fst p, CHR 0x00, CHR 0x00, CHR 0x00] @ be32 (length (snd p)) @ snd p"

lemma or_disjoint: assumes "b < 2 ^ k" shows "push_bit k a OR b = a * 2 ^ k + (b :: nat)"
proof -
  have b: "take_bit k b = b" using assms by (simp add: take_bit_nat_eq_self)
  have "push_bit k a AND take_bit k b = 0" by (rule bit_eqI) (auto simp: bit_simps)
  then show ?thesis using b by (simp add: disjunctive_add_eq_or [symmetric] push_bit_eq_mult)
qed

lemma frame_size_sum:
  "frame_size b = of_char (b ! 4) * 2 ^ 24 + of_char (b ! 5) * 2 ^ 16 + of_char (b ! 6) * 2 ^ 8 + of_char (b ! 7)"
proof -
  have lt: "(of_char c :: nat) < 256" for c by simp
  have pow: "(2::nat) ^ 8 = 256" "(2::nat) ^ 16 = 65536" "(2::nat) ^ 24 = 16777216" by simp_all
  have 1: "push_bit 8 (of_char (b ! 6)) OR of_char (b ! 7) = of_char (b ! 6) * 2 ^ 8 + (of_char (b ! 7) :: nat)"
    using lt [of "b ! 7"] by (intro or_disjoint) simp
  have 2: "push_bit 16 (of_char (b ! 5)) OR (of_char (b ! 6) * 2 ^ 8 + of_char (b ! 7)) =
      of_char (b ! 5) * 2 ^ 16 + (of_char (b ! 6) * 2 ^ 8 + (of_char (b ! 7) :: nat))"
    by (rule or_disjoint) (insert lt [of "b ! 6"] lt [of "b ! 7"], unfold pow, linarith)
  have 3: "push_bit 24 (of_char (b ! 4)) OR (of_char (b ! 5) * 2 ^ 16 + (of_char (b ! 6) * 2 ^ 8 + of_char (b ! 7))) =
      of_char (b ! 4) * 2 ^ 24 + (of_char (b ! 5) * 2 ^ 16 + (of_char (b ! 6) * 2 ^ 8 + (of_char (b ! 7) :: nat)))"
    by (rule or_disjoint) (insert lt [of "b ! 5"] lt [of "b ! 6"] lt [of "b ! 7"], unfold pow, linarith)
  show ?thesis by (simp only: frame_size_def or.assoc 1 2 3 add.assoc)
qed

lemma be32_sum:
  assumes "n < 2 ^ 32"
  shows "n div 2 ^ 24 * 2 ^ 24 + n div 2 ^ 16 mod 256 * 2 ^ 16 + n div 2 ^ 8 mod 256 * 2 ^ 8 + n mod 256 = (n :: nat)"
proof -
  define x y z where "x = n div 256" and "y = x div 256" and "z = y div 256"
  have "n div 2 ^ 8 = x" "n div 2 ^ 16 = y" "n div 2 ^ 24 = z"
    by (simp_all add: x_def y_def z_def div_mult2_eq [symmetric])
  moreover have "n = x * 256 + n mod 256" "x = y * 256 + x mod 256" "y = z * 256 + y mod 256"
    by (simp_all add: x_def y_def z_def)
  ultimately show ?thesis by simp
qed

lemma frame_size_frame:
  assumes "length (snd p) < 2 ^ 32"
  shows "frame_size (frame p @ rest) = length (snd p)"
proof -
  have "length (snd p) div 2 ^ 24 < 256" using assms by (simp add: div_less_iff_less_mult)
  then have "frame_size (frame p @ rest) = length (snd p) div 2 ^ 24 * 2 ^ 24 +
      length (snd p) div 2 ^ 16 mod 256 * 2 ^ 16 + length (snd p) div 2 ^ 8 mod 256 * 2 ^ 8 + length (snd p) mod 256"
    by (simp add: frame_size_sum frame_def be32_def)
  with be32_sum [OF assms] show ?thesis by simp
qed

lemma strip_frames_frame:
  assumes "length (snd p) < 2 ^ 32"
  shows "strip_frames buf (frame p @ rest) = strip_frames (buf @ snd p) rest"
proof -
  have len: "8 \<le> length (frame p @ rest)" by (simp add: frame_def be32_def)
  have d: "drop 8 (frame p @ rest) = snd p @ rest" by (simp add: frame_def be32_def)
  show ?thesis
    unfolding strip_frames.simps [of buf "frame p @ rest"] Let_def d frame_size_frame [OF assms]
    using len by simp
qed

text \<open>
  \<^verbatim>\<open>stripDockerLogHeaders\<close>: stripping the frames of a log stream gives back
  the concatenated payloads, whatever the stream types; a trailing fragment shorter than a
  header is dropped.
\<close>

theorem stripDockerLogHeaders_frames:
  assumes "\<And>p. p \<in> set ps \<Longrightarrow> length (snd p) < 2 ^ 32" and "length rest < 8"
  shows "stripDockerLogHeaders (concat (map frame ps) @ rest) = concat (map snd ps)"
proof -
  have "strip_frames buf (concat (map frame ps) @ rest) = buf @ concat (map snd ps)" for buf
    using assms(1)
  proof (induction ps arbitrary: buf)
    case Nil
    then show ?case using assms(2) by (simp add: strip_frames.simps [of buf rest])
  next
    case (Cons p ps)
    then show ?case by (simp add: strip_frames_frame)
  qed
  then show ?thesis by (simp add: stripDockerLogHeaders_def)
qed

lemma stripDockerLogHeaders_frames_witness:
  "stripDockerLogHeaders (frame (CHR 0x01, ''out'') @ frame (CHR 0x02, ''err'') @ ''x'') = ''outerr''"
proof -
  have "stripDockerLogHeaders (concat (map frame [(CHR 0x01, ''out''), (CHR 0x02, ''err'')]) @ ''x'') =
      concat (map snd [(CHR 0x01, ''out''), (CHR 0x02, ''err'')])"
    by (rule stripDockerLogHeaders_frames) auto
  then show ?thesis by simp
qed

text \<open>
  C40 (error, \<^verbatim>\<open>GetContainerLogs\<close>): with a non-negative line count the logs handed out are
  the last lines of the container's log, at most that many and none empty; with a negative
  count every successful read of the log panics.
\<close>

theorem GetContainerLogs_lines:
  assumes "fst (ContainerLogs E ctx c (format_d n) (world s)) = Inr raw"
  shows "fst (GetContainerLogs E ctx c n s) =
    (if n < 0 then LogsPanic
     else LogsOk (drop (length (log_lines (stripDockerLogHeaders raw)) - nat n)
                   (log_lines (stripDockerLogHeaders raw)))) \<and>
    (\<forall>l \<in> set (log_lines (stripDockerLogHeaders raw)). l \<noteq> '''' \<and> last l \<noteq> CHR 0x0D)"
proof -
  let ?ls = "log_lines (stripDockerLogHeaders raw)"
  have "fst (GetContainerLogs E ctx c n s) = last_lines ?ls n"
    using assms by (cases "ContainerLogs E ctx c (format_d n) (world s)")
      (simp add: GetContainerLogs_def call_def)
  moreover have "last_lines ?ls n = (if n < 0 then LogsPanic else LogsOk (drop (length ?ls - nat n) ?ls))"
    by (auto simp: last_lines_def nat_diff_distrib')
  moreover have "last l \<noteq> CHR 0x0D" if "l = TrimRight x (CHR 0x0D)" "l \<noteq> ''''" for l x
  proof -
    from that(2) have "hd (dropWhile (\<lambda>c. c = CHR 0x0D) (rev x)) \<noteq> CHR 0x0D"
      unfolding that(1) TrimRight_def using hd_dropWhile [of "\<lambda>c. c = CHR 0x0D" "rev x"] by simp
    then show ?thesis by (simp add: that(1) TrimRight_def last_rev)
  qed
  ultimately show ?thesis by (auto simp: log_lines_def)
qed

definition dead_env :: "unit env" where
  "dead_env =
     \<lparr>ContainerInspect = (\<lambda>_ _ w. (Inl ''down'', w)), ContainerStart = (\<lambda>_ _ w. (Some ''down'', w)),
      ContainerStop = (\<lambda>_ _ w. (Some ''down'', w)), ContainerList = (\<lambda>_ _ w. (Inr [], w)),
      ContainerLogs = (\<lambda>_ _ _ w. (Inr [], w)), DialTimeout = (\<lambda>_ _ w. (Some ''down'', w)),
      DialContext = (\<lambda>_ _ w. (Some ''down'', w)), HttpGet = (\<lambda>_ _ w. (HttpErr ''down'', w)),
      Now = (\<lambda>w. (0, w)), Wait = (\<lambda>_ _ w. (CtxDone, w)), RangeOrder = (\<lambda>xs w. (xs, w))\<rparr>"

lemma GetContainerLogs_lines_witness:
  "fst (GetContainerLogs
      (dead_env\<lparr>ContainerLogs := (\<lambda>_ _ _ w. (Inr (frame (CHR 0x01, [CHR ''a'', CHR 0x0A, CHR ''b'', CHR 0x0A])), w))\<rparr>)
      CtxRequest ''app'' 1 \<lparr>world = (), trace = []\<rparr>) = LogsOk [''b'']"
proof -
  let ?p = "(CHR 0x01, [CHR ''a'', CHR 0x0A, CHR ''b'', CHR 0x0A])"
  have "stripDockerLogHeaders (frame ?p) = snd ?p"
    using strip_frames_frame [of ?p "[]" "[]"]
    by (simp add: stripDockerLogHeaders_def strip_frames.simps [of "CHR ''a'' # _"])
  then have l: "log_lines (stripDockerLogHeaders (frame ?p)) = [''a'', ''b'']"
    by (simp add: log_lines_def TrimRight_def)
  let ?E = "dead_env\<lparr>ContainerLogs := (\<lambda>_ _ _ w. (Inr (frame ?p), w))\<rparr>"
  have "fst (ContainerLogs ?E CtxRequest ''app'' (format_d 1) ()) = Inr (frame ?p)" by simp
  from GetContainerLogs_lines [of ?E CtxRequest "''app''" 1 "\<lparr>world = (), trace = []\<rparr>" "frame ?p"] this l
  show ?thesis by simp
qed

section \<open>Label discovery\<close>

definition label_or :: "(string \<Rightarrow> string option) \<Rightarrow> string \<Rightarrow> string \<Rightarrow> string" where
  "label_or labels key dflt =
     (case labels key of Some v \<Rightarrow> if v \<noteq> '''' then v else dflt | None \<Rightarrow> dflt)"

text \<open>
  A duration label keeps the default when it is absent, empty or does not parse;
  \<open>parse_duration\<close> stands for \<^verbatim>\<open>time.ParseDuration\<close>.
\<close>

definition label_duration :: "(string \<Rightarrow> duration option) \<Rightarrow> (string \<Rightarrow> string option) \<Rightarrow> string \<Rightarrow>
    duration \<Rightarrow> duration" where
  "label_duration parse_duration labels key dflt =
     (case labels key of
        Some v \<Rightarrow> if v \<noteq> '''' then (case parse_duration v of Some d \<Rightarrow> d | None \<Rightarrow> dflt) else dflt
      | None \<Rightarrow> dflt)"

text \<open>The body of the loop over the listed containers; \<open>None\<close> is \<open>continue\<close>.\<close>

definition labeled_container :: "(string \<Rightarrow> duration option) \<Rightarrow> listed \<Rightarrow> ContainerConfig option" where
  "labeled_container parse_duration c =
     (case l_Names c of
        [] \<Rightarrow> None
      | n # _ \<Rightarrow>
          (let labels = l_Labels c; host = label_or labels ''dag.host'' '''' in
           if host = '''' then None
           else Some (zero_container
             \<lparr>c_Name := TrimPrefix n ''/'',
              c_Host := host,
              c_TargetPort := label_or labels ''dag.target_port'' ''80'',
              c_StartTimeout := label_duration parse_duration labels ''dag.start_timeout'' (60 * second),
              c_IdleTimeout := label_duration parse_duration labels ''dag.idle_timeout'' 0,
              c_Network := (case labels ''dag.network'' of Some v \<Rightarrow> v | None \<Rightarrow> ''''),
              c_RedirectPath := label_or labels ''dag.redirect_path'' ''/'',
              c_Icon := label_or labels ''dag.icon'' ''docker'',
              c_HealthPath := label_or labels ''dag.health_path'' '''',
              c_DependsOn :=
                (let v = label_or labels ''dag.depends_on'' '''' in
                 if v = '''' then [] else map TrimSpace (Split v (CHR '',''))),
              c_ScheduleStart := label_or labels ''dag.schedule_start'' '''',
              c_ScheduleStop := label_or labels ''dag.schedule_stop'' '''',
              c_ScheduleTimezone := label_or labels ''dag.schedule_timezone'' ''''\<rparr>)))"

definition DiscoverLabeledContainers :: "'w env \<Rightarrow> (string \<Rightarrow> duration option) \<Rightarrow> ctx \<Rightarrow> 'w io \<Rightarrow>
    (string + ContainerConfig list) \<times> 'w io" where
  "DiscoverLabeledContainers E parse_duration ctx s =
     (case call (ContainerList E ctx ''dag.enabled=true'') (\<lambda>_. [EvList]) s of
        (Inl err, s') \<Rightarrow> (Inl err, s')
      | (Inr containers, s') \<Rightarrow>
          (Inr (List.map_filter (labeled_container parse_duration) containers), s'))"

interpretation discover_op: docker_query "DiscoverLabeledContainers E pd ctx" for E pd ctx
  by unfold_locales
    (auto simp: DiscoverLabeledContainers_def split: prod.splits sum.splits dest!: trace_call)

lemma label_or_default: "dflt \<noteq> '''' \<Longrightarrow> label_or labels key dflt \<noteq> ''''"
  by (simp add: label_or_def split: option.split)

lemma label_or_Some: "label_or labels key '''' \<noteq> '''' \<Longrightarrow> labels key = Some (label_or labels key '''')"
  by (auto simp: label_or_def split: option.splits if_splits)

lemma labeled_container_Some:
  assumes "labeled_container pd c = Some cfg"
  shows "c_Host cfg \<noteq> ''''" "c_TargetPort cfg \<noteq> ''''" "c_RedirectPath cfg \<noteq> ''''" "c_Icon cfg \<noteq> ''''"
    "l_Names c \<noteq> []" "c_Name cfg = TrimPrefix (hd (l_Names c)) ''/''"
    "l_Labels c ''dag.host'' = Some (c_Host cfg)"
proof -
  from assms obtain n ns where n: "l_Names c = n # ns"
    by (cases "l_Names c") (simp_all add: labeled_container_def)
  let ?h = "label_or (l_Labels c) ''dag.host'' ''''"
  from assms n have h: "?h \<noteq> ''''" by (auto simp: labeled_container_def Let_def)
  from assms n h have cfg: "c_Host cfg = ?h" "c_Name cfg = TrimPrefix n ''/''"
    "c_TargetPort cfg = label_or (l_Labels c) ''dag.target_port'' ''80''"
    "c_RedirectPath cfg = label_or (l_Labels c) ''dag.redirect_path'' ''/''"
    "c_Icon cfg = label_or (l_Labels c) ''dag.icon'' ''docker''"
    by (simp_all only: labeled_container_def Let_def list.case if_False option.inject) auto
  from n h show "c_Host cfg \<noteq> ''''" "l_Names c \<noteq> []" "c_Name cfg = TrimPrefix (hd (l_Names c)) ''/''"
    by (simp_all add: cfg)
  show "l_Labels c ''dag.host'' = Some (c_Host cfg)" using label_or_Some [OF h] by (simp add: cfg)
  show "c_TargetPort cfg \<noteq> ''''" "c_RedirectPath cfg \<noteq> ''''" "c_Icon cfg \<noteq> ''''"
    unfolding cfg by (rule label_or_default; simp)+
qed

text \<open>
  \<^verbatim>\<open>DiscoverLabeledContainers\<close>: every configuration discovered comes from
  a listed container with a name and a non-empty \<open>dag.host\<close> label, which is its host; its
  port, redirect path and icon are set.
\<close>

theorem DiscoverLabeledContainers_hosts:
  assumes "fst (DiscoverLabeledContainers E pd ctx s) = Inr cfgs" and "cfg \<in> set cfgs"
  shows "c_Host cfg \<noteq> '''' \<and> c_TargetPort cfg \<noteq> '''' \<and> c_RedirectPath cfg \<noteq> '''' \<and> c_Icon cfg \<noteq> '''' \<and>
    (\<exists>cs c. fst (ContainerList E ctx ''dag.enabled=true'' (world s)) = Inr cs \<and> c \<in> set cs \<and>
       l_Names c \<noteq> [] \<and> c_Name cfg = TrimPrefix (hd (l_Names c)) ''/'' \<and>
       l_Labels c ''dag.host'' = Some (c_Host cfg))"
proof -
  from assms obtain cs c where "fst (ContainerList E ctx ''dag.enabled=true'' (world s)) = Inr cs"
    and c: "c \<in> set cs" "labeled_container pd c = Some cfg"
    by (auto simp: DiscoverLabeledContainers_def call_def List.map_filter_def split: prod.splits sum.splits)
  with labeled_container_Some [OF c(2)] show ?thesis by blast
qed

lemma DiscoverLabeledContainers_hosts_witness:
  "\<exists>cfg. fst (DiscoverLabeledContainers
      (dead_env\<lparr>ContainerList := (\<lambda>_ _ w. (Inr [\<lparr>l_Names = [''/web''], l_Labels = [''dag.host'' \<mapsto> ''web.localhost'']\<rparr>], w))\<rparr>)
      (\<lambda>_. None) CtxRequest \<lparr>world = (), trace = []\<rparr>) = Inr [cfg] \<and> c_Host cfg = ''web.localhost''"
proof -
  let ?c = "\<lparr>l_Names = [''/web''], l_Labels = [''dag.host'' \<mapsto> ''web.localhost'']\<rparr>"
  let ?E = "dead_env\<lparr>ContainerList := (\<lambda>_ _ w. (Inr [?c], w))\<rparr>"
  let ?r = "DiscoverLabeledContainers ?E (\<lambda>_. None) CtxRequest \<lparr>world = (), trace = []\<rparr>"
  obtain cfg where l: "labeled_container (\<lambda>_. None) ?c = Some cfg"
    by (simp add: labeled_container_def label_or_def Let_def)
  then have r: "fst ?r = Inr [cfg]"
    by (simp add: DiscoverLabeledContainers_def call_def List.map_filter_def)
  from DiscoverLabeledContainers_hosts [OF r, of cfg] have "c_Host cfg = ''web.localhost''" by auto
  with r show ?thesis by blast
qed

section \<open>A sample daemon\<close>

text \<open>
  A small daemon at which theorems are evaluated: the world is the list of running
  containers and a clock in seconds; every start succeeds, every probe of a running
  container's network answers, and every context ends after sixty ticks.
\<close>

definition sim_env :: "(string list \<times> nat) env" where
  "sim_env =
     \<lparr>ContainerInspect = (\<lambda>_ n w.
        (Inr \<lparr>i_Status = (if n \<in> set (fst w) then ''running'' else ''exited''), i_Image = ''img'',
              i_StartedAt = '''', i_FinishedAt = '''', i_Networks = [(''bridge'', ''10.0.0.2'')]\<rparr>, w)),
      ContainerStart = (\<lambda>_ n w. (None, (n # fst w, snd w))),
      ContainerStop = (\<lambda>_ n w. (None, (removeAll n (fst w), snd w))),
      ContainerList = (\<lambda>_ _ w. (Inr [], w)),
      ContainerLogs = (\<lambda>_ _ _ w. (Inr [], w)),
      DialTimeout = (\<lambda>_ _ w. (None, w)),
      DialContext = (\<lambda>_ _ w. (None, w)),
      HttpGet = (\<lambda>_ _ w. (HttpStatus 200, w)),
      Now = (\<lambda>w. (int (snd w) * second, w)),
      Wait = (\<lambda>_ _ w. (if snd w < 60 then Tick else CtxDone, (fst w, Suc (snd w)))),
      RangeOrder = (\<lambda>xs w. (xs, w))\<rparr>"

lemma sim_env_sel [simp]:
  "ContainerInspect sim_env c n w =
     (Inr \<lparr>i_Status = (if n \<in> set (fst w) then ''running'' else ''exited''), i_Image = ''img'',
           i_StartedAt = '''', i_FinishedAt = '''', i_Networks = [(''bridge'', ''10.0.0.2'')]\<rparr>, w)"
  "ContainerStart sim_env c n w = (None, (n # fst w, snd w))"
  "ContainerStop sim_env c n w = (None, (removeAll n (fst w), snd w))"
  "DialTimeout sim_env a d w = (None, w)"
  "HttpGet sim_env c u w = (HttpStatus 200, w)"
  "Now sim_env w = (int (snd w) * second, w)"
  "Wait sim_env c d w = (if snd w < 60 then Tick else CtxDone, (fst w, Suc (snd w)))"
  "RangeOrder sim_env xs w = (xs, w)"
  by (simp_all add: sim_env_def)

lemma sim_env_expires: "ctx_expires sim_env c (\<lambda>w. 60 - snd w)"
  by (auto simp: ctx_expires_def polling_keeps_def split: if_splits)

section \<open>Metrics\<close>

definition RecordRequest :: "string \<Rightarrow> string \<Rightarrow> duration \<Rightarrow> 'w io \<Rightarrow> 'w io" where
  "RecordRequest containerName statusCode durationNs s =
     emit [MetricRequest containerName statusCode, MetricRequestDuration containerName durationNs] s"

definition RecordStart :: "string \<Rightarrow> bool \<Rightarrow> duration \<Rightarrow> 'w io \<Rightarrow> 'w io" where
  "RecordStart containerName success durationNs s =
     (if success then emit [MetricStartDuration containerName durationNs, MetricStart containerName ''success''] s
      else emit [MetricStart containerName ''error''] s)"

definition RecordIdleStop :: "string \<Rightarrow> 'w io \<Rightarrow> 'w io" where
  "RecordIdleStop containerName s = emit [MetricIdleStop containerName] s"

lemma metrics_quiet [simp]:
  "quiet s (RecordRequest n c d s)" "quiet s (RecordStart n b d s)" "quiet s (RecordIdleStop n s)"
  by (auto simp: RecordRequest_def RecordStart_def RecordIdleStop_def intro: quiet_emit)

end
