(* ===== verification/Topo.thy ===== *)
theory Topo
  imports Config
begin

text \<open>
  The two orderings over \<open>depends_on\<close>: \<^verbatim>\<open>TopologicalSort\<close> of \<^verbatim>\<open>gateway/group.go\<close>,
  which orders what has to be started for a target, and \<^verbatim>\<open>topoMergeStop\<close> with
  \<^verbatim>\<open>BuildReverseDeps\<close> of \<^verbatim>\<open>gateway/manager.go\<close>, which order what is stopped. Both
  sorts provide the contract \<open>dep_sorter\<close>, which the manager's lemmas rest on.
\<close>

section \<open>The contract of a dependency sort\<close>

text \<open>
  A sort takes an input, may fail, and otherwise returns a duplicate-free list in which
  the dependencies of an element (as \<open>adj\<close> of the input) come first.
\<close>

locale dep_sorter =
  fixes sort :: "'i \<Rightarrow> string list option"
    and adj :: "'i \<Rightarrow> string \<Rightarrow> string set"
  assumes sort_distinct: "sort i = Some ord \<Longrightarrow> distinct ord"
    and sort_ordered: "sort i = Some ord \<Longrightarrow> dep_ordered (adj i) ord"
begin

lemma sort_before:
  "sort i = Some ord \<Longrightarrow> m < length ord \<Longrightarrow> n < length ord \<Longrightarrow>
     ord ! n \<in> adj i (ord ! m) \<Longrightarrow> n < m"
proof -
  assume a: "sort i = Some ord" "m < length ord" "n < length ord" "ord ! n \<in> adj i (ord ! m)"
  show "n < m"
    by (rule dep_ordered_before [OF sort_ordered [OF a(1)] a(2,3) sort_distinct [OF a(1)] a(4)])
qed

lemma sort_closed: "sort i = Some ord \<Longrightarrow> x \<in> set ord \<Longrightarrow> adj i x \<subseteq> set ord"
  by (rule dep_ordered_closed [OF sort_ordered])

text \<open>No element stands before one of its dependencies; read backwards, none after.\<close>

lemma sort_start_order: "sort i = Some ord \<Longrightarrow> sorted_wrt (\<lambda>a b. b \<notin> adj i a) ord"
  unfolding sorted_wrt_iff_nth_less by (meson less_asym less_trans sort_before)

lemma sort_stop_order: "sort i = Some ord \<Longrightarrow> sorted_wrt (\<lambda>a b. a \<notin> adj i b) (rev ord)"
  using sort_start_order by (simp add: sorted_wrt_rev)

text \<open>Read backwards, the list has every element before its dependencies.\<close>

lemma rev_sort_after:
  assumes "sort i = Some ord" and "rev ord = us @ d # vs" and "x \<in> set ord" and "d \<in> adj i x"
  shows "x \<in> set us"
proof -
  from assms(2) have ord: "ord = rev vs @ d # rev us"
    by (metis append.assoc append_Cons append_Nil rev.simps(2) rev_append rev_rev_ident)
  have "x \<notin> set vs"
  proof
    assume "x \<in> set vs"
    then obtain p q where "rev vs = p @ x # q" by (metis set_rev split_list)
    with ord have "ord = p @ x # (q @ d # rev us)" by simp
    with sort_ordered [OF assms(1)] assms(4) have "d \<in> set p"
      unfolding dep_ordered_def by blast
    with \<open>rev vs = p @ x # q\<close> ord sort_distinct [OF assms(1)] show False by auto
  qed
  moreover have "x \<noteq> d"
  proof
    assume "x = d"
    with sort_ordered [OF assms(1)] ord assms(4) have "d \<in> set (rev vs)"
      unfolding dep_ordered_def by blast
    with ord sort_distinct [OF assms(1)] show False by auto
  qed
  ultimately show ?thesis using assms(3) ord by auto
qed

end

section \<open>TopologicalSort\<close>

datatype topo_error = TargetNotFound string | DepCycle string | DepNotFound string

record topo_state =
  t_visited :: "string set"
  t_visiting :: "string set"
  t_order :: "string list"

text \<open>
  The closure \<open>visit\<close>, as the loop over a list of names with the body for its head
  written out. \<open>cfgMap\<close> is \<open>container_map\<close>: the last container of a name wins.
\<close>

function topo_visit :: "ContainerConfig list \<Rightarrow> string list \<Rightarrow> topo_state \<Rightarrow>
    topo_error + topo_state" where
  "topo_visit cs [] st = Inr st"
| "topo_visit cs (name # names) st =
     (if name \<in> t_visited st then topo_visit cs names st
      else if name \<in> t_visiting st then Inl (DepCycle name)
      else case container_map cs name of
             None \<Rightarrow> Inl (DepNotFound name)
           | Some cfg \<Rightarrow>
               (case topo_visit cs (c_DependsOn cfg)
                       (st\<lparr>t_visiting := insert name (t_visiting st)\<rparr>) of
                  Inl err \<Rightarrow> Inl err
                | Inr st' \<Rightarrow>
                    topo_visit cs names
                      (st'\<lparr>t_visiting := t_visiting st' - {name},
                           t_visited := insert name (t_visited st'),
                           t_order := t_order st' @ [name]\<rparr>)))"
  by pat_completeness auto

definition topo_fresh :: "ContainerConfig list \<Rightarrow> topo_state \<Rightarrow> string set" where
  "topo_fresh cs st = c_Name ` set cs - (t_visited st \<union> t_visiting st)"

lemma finite_topo_fresh [simp]: "finite (topo_fresh cs st)"
  by (simp add: topo_fresh_def)

lemma topo_visit_fresh:
  "topo_visit_dom (cs, names, st) \<Longrightarrow> topo_visit cs names st = Inr st' \<Longrightarrow>
     topo_fresh cs st' \<subseteq> topo_fresh cs st"
proof (induction cs names st arbitrary: st' rule: topo_visit.pinduct)
  case (1 cs st)
  then show ?case by (simp add: topo_visit.psimps)
next
  case (2 cs name names st)
  show ?case
  proof (cases "name \<in> t_visited st \<or> name \<in> t_visiting st")
    case True
    with 2 show ?thesis by (auto simp: topo_visit.psimps split: if_splits)
  next
    case False
    with 2 obtain cfg st2 where cfg: "container_map cs name = Some cfg"
      and rec: "topo_visit cs (c_DependsOn cfg) (st\<lparr>t_visiting := insert name (t_visiting st)\<rparr>) = Inr st2"
      and rest: "topo_visit cs names
        (st2\<lparr>t_visiting := t_visiting st2 - {name}, t_visited := insert name (t_visited st2),
             t_order := t_order st2 @ [name]\<rparr>) = Inr st'"
      by (auto simp: topo_visit.psimps split: sum.splits option.splits)
    have "topo_fresh cs st2 \<subseteq> topo_fresh cs (st\<lparr>t_visiting := insert name (t_visiting st)\<rparr>)"
      using "2.IH"(2) [OF _ _ cfg rec] False by simp
    moreover have "topo_fresh cs st' \<subseteq> topo_fresh cs (st2\<lparr>t_visiting := t_visiting st2 - {name},
        t_visited := insert name (t_visited st2), t_order := t_order st2 @ [name]\<rparr>)"
      using "2.IH"(3) [OF _ _ cfg rec rest] False by simp
    ultimately show ?thesis by (auto simp: topo_fresh_def)
  qed
qed

termination topo_visit
proof (relation "inv_image (finite_psubset <*lex*> less_than)
    (\<lambda>(cs, names, st). (topo_fresh cs st, length names))", goal_cases)
  case 1
  then show ?case by auto
next
  case (2 cs name names st)
  then show ?case by simp
next
  case (3 cs name names st cfg)
  then have "name \<in> c_Name ` set cs" by (auto dest: container_map_Some)
  with 3 have "topo_fresh cs (st\<lparr>t_visiting := insert name (t_visiting st)\<rparr>) \<subset> topo_fresh cs st"
    by (auto simp: topo_fresh_def)
  then show ?case by simp
next
  case (4 cs name names st cfg st2)
  then have "topo_fresh cs st2 \<subseteq> topo_fresh cs (st\<lparr>t_visiting := insert name (t_visiting st)\<rparr>)"
    by (metis topo_visit_fresh)
  then show ?case by (auto simp: topo_fresh_def psubset_eq)
qed

declare topo_visit.simps(2) [simp del]

lemma topo_visit_skip [simp]:
  "name \<in> t_visited st \<Longrightarrow> topo_visit cs (name # names) st = topo_visit cs names st"
  by (simp add: topo_visit.simps(2))

text \<open>\<open>TopologicalSort\<close>: the target has to be known; the order is the one collected.\<close>

definition TopologicalSort :: "string \<Rightarrow> ContainerConfig list \<Rightarrow> topo_error + string list" where
  "TopologicalSort target allContainers =
     (case container_map allContainers target of
        None \<Rightarrow> Inl (TargetNotFound target)
      | Some _ \<Rightarrow>
          (case topo_visit allContainers [target]
                  \<lparr>t_visited = {}, t_visiting = {}, t_order = []\<rparr> of
             Inl err \<Rightarrow> Inl err
           | Inr st \<Rightarrow> Inr (t_order st)))"

subsection \<open>What a successful search returns\<close>

definition topo_inv :: "ContainerConfig list \<Rightarrow> topo_state \<Rightarrow> bool" where
  "topo_inv cs st \<longleftrightarrow>
     t_visited st = set (t_order st) \<and> distinct (t_order st) \<and>
     set (t_order st) \<inter> t_visiting st = {} \<and>
     dep_ordered (\<lambda>n. set (deps_of cs n)) (t_order st)"

lemma deps_of_Some: "container_map cs n = Some c \<Longrightarrow> deps_of cs n = c_DependsOn c"
  by (simp add: deps_of_def)

lemma dep_rel_Image:
  assumes "\<And>d. d \<in> set ds \<Longrightarrow> (name, d) \<in> dep_rel cs"
  shows "(dep_rel cs)\<^sup>* `` set ds \<subseteq> (dep_rel cs)\<^sup>* `` {name}"
  using assms by (auto simp del: dep_rel_iff intro: converse_rtrancl_into_rtrancl)

lemma topo_visit_step:
  assumes "name \<notin> t_visited st" and "topo_visit cs (name # names) st = Inr st'"
  obtains cfg st2 where "name \<notin> t_visiting st" "container_map cs name = Some cfg"
    "topo_visit cs (c_DependsOn cfg) (st\<lparr>t_visiting := insert name (t_visiting st)\<rparr>) = Inr st2"
    "topo_visit cs names (st2\<lparr>t_visiting := t_visiting st2 - {name},
       t_visited := insert name (t_visited st2), t_order := t_order st2 @ [name]\<rparr>) = Inr st'"
  using assms by (auto simp: topo_visit.simps(2) split: if_splits sum.splits option.splits)

lemma topo_visit_Inr:
  assumes "topo_visit cs names st = Inr st'" and "topo_inv cs st"
  shows "topo_inv cs st' \<and> t_visiting st' = t_visiting st \<and> set names \<subseteq> t_visited st' \<and>
    (\<exists>new. t_order st' = t_order st @ new \<and> set new \<subseteq> (dep_rel cs)\<^sup>* `` set names)"
  using assms
proof (induction cs names st arbitrary: st' rule: topo_visit.induct)
  case (1 cs st)
  then show ?case by simp
next
  case (2 cs name names st)
  show ?case
  proof (cases "name \<in> t_visited st")
    case True
    with "2.prems"(1) have rest: "topo_visit cs names st = Inr st'" by simp
    note IH0 = "2.IH"(1) [OF True rest "2.prems"(2)]
    then obtain new where new: "t_order st' = t_order st @ new"
      "set new \<subseteq> (dep_rel cs)\<^sup>* `` set names" by (elim conjE exE) simp
    have IH: "topo_inv cs st'" "t_visiting st' = t_visiting st" "set names \<subseteq> t_visited st'"
      using IH0 by simp_all
    have "name \<in> t_visited st'" using True IH(1) new(1) "2.prems"(2) by (simp add: topo_inv_def)
    moreover have "set new \<subseteq> (dep_rel cs)\<^sup>* `` set (name # names)" using new(2) by auto
    ultimately show ?thesis using IH new(1) by (simp only: set_simps insert_subset) blast
  next
    case False
    from topo_visit_step [OF False "2.prems"(1)] obtain cfg st2
      where ng: "name \<notin> t_visiting st" and cfg: "container_map cs name = Some cfg"
      and rec: "topo_visit cs (c_DependsOn cfg) (st\<lparr>t_visiting := insert name (t_visiting st)\<rparr>) = Inr st2"
      and rest: "topo_visit cs names (st2\<lparr>t_visiting := t_visiting st2 - {name},
        t_visited := insert name (t_visited st2), t_order := t_order st2 @ [name]\<rparr>) = Inr st'"
      by metis
    let ?st1 = "st\<lparr>t_visiting := insert name (t_visiting st)\<rparr>"
    let ?st3 = "st2\<lparr>t_visiting := t_visiting st2 - {name},
      t_visited := insert name (t_visited st2), t_order := t_order st2 @ [name]\<rparr>"
    have "topo_inv cs ?st1" using "2.prems"(2) False by (auto simp: topo_inv_def)
    from "2.IH"(2) [OF False ng cfg rec this] obtain new2
      where inv2: "topo_inv cs st2" and vis2: "t_visiting st2 = insert name (t_visiting st)"
      and deps2: "set (c_DependsOn cfg) \<subseteq> t_visited st2" and new2: "t_order st2 = t_order st @ new2"
      and reach2: "set new2 \<subseteq> (dep_rel cs)\<^sup>* `` set (c_DependsOn cfg)"
      by auto
    have inv3: "topo_inv cs ?st3"
      using inv2 vis2 deps2 by (auto simp: topo_inv_def deps_of_Some [OF cfg])
    from "2.IH"(3) [OF False ng cfg rec rest inv3] obtain new3
      where fin: "topo_inv cs st'" "t_visiting st' = t_visiting st2 - {name}"
        "set names \<subseteq> t_visited st'" and new3: "t_order st' = t_order st2 @ [name] @ new3"
      and reach3: "set new3 \<subseteq> (dep_rel cs)\<^sup>* `` set names"
      by auto
    have "(dep_rel cs)\<^sup>* `` set (c_DependsOn cfg) \<subseteq> (dep_rel cs)\<^sup>* `` {name}"
      by (rule dep_rel_Image) (simp add: deps_of_Some [OF cfg])
    with reach2 have "set new2 \<subseteq> (dep_rel cs)\<^sup>* `` {name}" by (rule subset_trans)
    with reach3 have "set (new2 @ [name] @ new3) \<subseteq> (dep_rel cs)\<^sup>* `` set (name # names)"
      by auto
    moreover have "t_order st' = t_order st @ (new2 @ [name] @ new3)" using new2 new3 by simp
    moreover have "name \<in> t_visited st'" using fin(1) new3 by (simp add: topo_inv_def)
    moreover have "t_visiting st' = t_visiting st" using fin(2) vis2 ng by auto
    ultimately show ?thesis using fin(1,3) by auto
  qed
qed

subsection \<open>What an error reports\<close>

definition topo_error_ok :: "ContainerConfig list \<Rightarrow> string set \<Rightarrow> topo_error \<Rightarrow> bool" where
  "topo_error_ok cs roots e \<longleftrightarrow>
     (case e of
        TargetNotFound n \<Rightarrow> n \<in> roots \<and> n \<notin> c_Name ` set cs
      | DepCycle n \<Rightarrow> n \<in> (dep_rel cs)\<^sup>* `` roots \<and> (n, n) \<in> (dep_rel cs)\<^sup>+
      | DepNotFound n \<Rightarrow> n \<in> (dep_rel cs)\<^sup>* `` roots \<and> n \<notin> c_Name ` set cs)"

lemma topo_error_ok_step:
  "topo_error_ok cs (set ds) e \<Longrightarrow> (\<And>n. e \<noteq> TargetNotFound n) \<Longrightarrow>
     (\<And>d. d \<in> set ds \<Longrightarrow> (name, d) \<in> dep_rel cs) \<Longrightarrow> topo_error_ok cs {name} e"
  using dep_rel_Image [of ds name cs] unfolding topo_error_ok_def by (cases e) auto

lemma topo_error_ok_mono:
  "topo_error_ok cs A e \<Longrightarrow> A \<subseteq> B \<Longrightarrow> topo_error_ok cs B e"
  unfolding topo_error_ok_def by (cases e) auto

lemma topo_visit_Inl:
  assumes "topo_visit cs names st = Inl e" and "topo_inv cs st"
    and "\<And>g x. g \<in> t_visiting st \<Longrightarrow> x \<in> set names \<Longrightarrow> (g, x) \<in> (dep_rel cs)\<^sup>+"
  shows "topo_error_ok cs (set names) e \<and> (\<forall>n. e \<noteq> TargetNotFound n)"
  using assms
proof (induction cs names st rule: topo_visit.induct)
  case (1 cs st)
  then show ?case by simp
next
  case (2 cs name names st)
  have mono: "topo_error_ok cs (set names) e \<Longrightarrow> topo_error_ok cs (set (name # names)) e"
    "topo_error_ok cs {name} e \<Longrightarrow> topo_error_ok cs (set (name # names)) e"
    by (auto elim: topo_error_ok_mono)
  show ?case
  proof (cases "name \<in> t_visited st \<or> name \<in> t_visiting st")
    case True
    show ?thesis
    proof (cases "name \<in> t_visited st")
      case True
      with "2.IH"(1) "2.prems" mono show ?thesis by simp
    next
      case False
      with True "2.prems"(1) have "e = DepCycle name" by (auto simp: topo_visit.simps(2))
      moreover have "(name, name) \<in> (dep_rel cs)\<^sup>+" using True False "2.prems"(3) by simp
      ultimately show ?thesis by (auto simp: topo_error_ok_def)
    qed
  next
    case False
    show ?thesis
    proof (cases "container_map cs name")
      case None
      with False "2.prems"(1) have "e = DepNotFound name" by (simp add: topo_visit.simps(2))
      with None show ?thesis by (auto simp: topo_error_ok_def container_map_None)
    next
      case (Some cfg)
      let ?st1 = "st\<lparr>t_visiting := insert name (t_visiting st)\<rparr>"
      have edge: "(name, d) \<in> dep_rel cs" if "d \<in> set (c_DependsOn cfg)" for d
        using that by (simp add: deps_of_Some [OF Some])
      have inv1: "topo_inv cs ?st1" using "2.prems"(2) False by (auto simp: topo_inv_def)
      have grey1: "(g, d) \<in> (dep_rel cs)\<^sup>+"
        if "g \<in> t_visiting ?st1" "d \<in> set (c_DependsOn cfg)" for g d
        using that edge "2.prems"(3) [of g name] by (cases "g = name") (auto intro: trancl_into_trancl)
      show ?thesis
      proof (cases "topo_visit cs (c_DependsOn cfg) ?st1")
        case (Inl e')
        with False Some "2.prems"(1) have "topo_visit cs (c_DependsOn cfg) ?st1 = Inl e"
          by (simp add: topo_visit.simps(2))
        from "2.IH"(2) [OF _ _ Some this inv1 grey1] False edge
        have "topo_error_ok cs {name} e \<and> (\<forall>n. e \<noteq> TargetNotFound n)"
          by (auto intro: topo_error_ok_step)
        with mono show ?thesis by blast
      next
        case (Inr st2)
        let ?st3 = "st2\<lparr>t_visiting := t_visiting st2 - {name},
          t_visited := insert name (t_visited st2), t_order := t_order st2 @ [name]\<rparr>"
        from False Some Inr "2.prems"(1) have rest: "topo_visit cs names ?st3 = Inl e"
          by (simp add: topo_visit.simps(2))
        from topo_visit_Inr [OF Inr inv1]
        have inv2: "topo_inv cs st2" "t_visiting st2 = insert name (t_visiting st)"
          "set (c_DependsOn cfg) \<subseteq> t_visited st2" by auto
        then have inv3: "topo_inv cs ?st3"
          by (auto simp: topo_inv_def deps_of_Some [OF Some])
        have "(g, x) \<in> (dep_rel cs)\<^sup>+" if "g \<in> t_visiting ?st3" "x \<in> set names" for g x
          using that inv2(2) "2.prems"(3) by auto
        from "2.IH"(3) [OF _ _ Some Inr rest inv3 this] False mono show ?thesis by auto
      qed
    qed
  qed
qed

definition topo_start :: topo_state where
  "topo_start = \<lparr>t_visited = {}, t_visiting = {}, t_order = []\<rparr>"

lemma topo_inv_start: "topo_inv cs topo_start"
  by (simp add: topo_inv_def topo_start_def)

lemma TopologicalSort_Inr:
  "TopologicalSort target cs = Inr ord \<longleftrightarrow>
     (\<exists>st. target \<in> c_Name ` set cs \<and> topo_visit cs [target] topo_start = Inr st \<and> ord = t_order st)"
  by (cases "container_map cs target"; cases "topo_visit cs [target] topo_start")
    (auto simp: TopologicalSort_def topo_start_def route_simps [symmetric]
       dest: container_map_Some)

lemma TopologicalSort_spec:
  assumes "TopologicalSort target cs = Inr order"
  shows "distinct order \<and> set order = (dep_rel cs)\<^sup>* `` {target} \<and>
    dep_ordered (\<lambda>n. set (deps_of cs n)) order \<and> order \<noteq> [] \<and> last order = target"
proof -
  from assms obtain st where v: "topo_visit cs [target] topo_start = Inr st"
    and o: "order = t_order st" by (auto simp: TopologicalSort_Inr)
  from topo_visit_Inr [OF v topo_inv_start]
  have inv: "topo_inv cs st" and t: "target \<in> set order"
    and sub: "set order \<subseteq> (dep_rel cs)\<^sup>* `` {target}"
    by (auto simp: o topo_inv_def topo_start_def)
  have closed: "b \<in> set order" if "a \<in> set order" "(a, b) \<in> dep_rel cs" for a b
    using that inv dep_ordered_closed [of "\<lambda>n. set (deps_of cs n)" order a]
    by (auto simp: o topo_inv_def)
  have "(dep_rel cs)\<^sup>* `` {target} \<subseteq> set order"
    using closed_rtrancl [of "set order" "dep_rel cs" target] closed t by blast
  moreover have "last order = target"
    using v by (auto simp: o topo_start_def topo_visit.simps(2) split: option.splits sum.splits)
  moreover have "order \<noteq> []" using t by auto
  ultimately show ?thesis using sub inv by (auto simp: o topo_inv_def)
qed

text \<open>
  C10 (functional, \<^verbatim>\<open>TopologicalSort\<close>): a successful sort returns, without duplicates,
  exactly the target and everything it transitively depends on, every container after
  all of its dependencies, and the target last.
\<close>

theorem TopologicalSort_correct:
  assumes "TopologicalSort target cs = Inr order"
  shows "distinct order \<and> set order = (dep_rel cs)\<^sup>* `` {target} \<and>
    dep_ordered (\<lambda>n. set (deps_of cs n)) order \<and> order \<noteq> [] \<and> last order = target"
  using assms by (rule TopologicalSort_spec)

lemma TopologicalSort_Inl:
  assumes "TopologicalSort target cs = Inl e"
  shows "topo_error_ok cs {target} e"
proof (cases "container_map cs target")
  case None
  with assms have "e = TargetNotFound target" by (simp add: TopologicalSort_def)
  with None show ?thesis by (simp add: topo_error_ok_def container_map_None)
next
  case (Some c)
  with assms have "topo_visit cs [target] topo_start = Inl e"
    by (simp add: TopologicalSort_def topo_start_def split: sum.splits)
  from topo_visit_Inl [OF this topo_inv_start] show ?thesis by (simp add: topo_start_def)
qed

text \<open>
  \<^verbatim>\<open>TopologicalSort\<close>: the sort fails only for a reason the configuration
  has: an unknown target, a dependency that is reachable but not defined, or a cycle
  reachable from the target.
\<close>

theorem TopologicalSort_error:
  assumes "TopologicalSort target cs = Inl e"
  shows "topo_error_ok cs {target} e"
  using assms by (rule TopologicalSort_Inl)

lemma TopologicalSort_total:
  assumes "target \<in> c_Name ` set cs" and "acyclic (dep_rel cs)"
    and "\<And>a b. b \<in> set (deps_of cs a) \<Longrightarrow> b \<in> c_Name ` set cs"
  shows "\<exists>order. TopologicalSort target cs = Inr order"
proof (cases "TopologicalSort target cs")
  case (Inl e)
  have known: "b \<in> c_Name ` set cs" if "(target, b) \<in> (dep_rel cs)\<^sup>*" for b
    using that assms(1,3) by (cases rule: rtranclE) auto
  note Inl
  then have "topo_error_ok cs {target} e" by (rule TopologicalSort_Inl)
  with known assms(1,2) show ?thesis
    by (cases e) (auto simp: topo_error_ok_def acyclic_def)
qed blast

lemma TopologicalSort_error_witness:
  "TopologicalSort ''app'' broken_cs = Inl (DepNotFound ''api'') \<and>
   topo_error_ok broken_cs {''app''} (DepNotFound ''api'')"
proof -
  have e: "TopologicalSort ''app'' broken_cs = Inl (DepNotFound ''api'')"
    by (simp add: TopologicalSort_def broken_cs_def container_map_def topo_visit.simps(2))
  with TopologicalSort_error [OF e] show ?thesis by blast
qed

lemma TopologicalSort_correct_witness:
  "TopologicalSort ''app'' chain_cs = Inr [''db'', ''api'', ''app''] \<and>
   (dep_rel chain_cs)\<^sup>* `` {''app''} = {''db'', ''api'', ''app''}"
proof -
  have e: "TopologicalSort ''app'' chain_cs = Inr [''db'', ''api'', ''app'']"
    by (simp add: TopologicalSort_def chain_cs_def container_map_def topo_visit.simps(2))
  with TopologicalSort_correct [OF e] show ?thesis by auto
qed

end
