(* ===== verification/Cycles.thy ===== *)
theory Cycles
  imports Config
begin

text \<open>
  The dependency-cycle check of \<^verbatim>\<open>gateway/config.go\<close> (\<^verbatim>\<open>detectDependencyCycles\<close>): a
  depth-first search with three colours over the \<open>depends_on\<close> graph. It is shown to
  terminate, to reject exactly the cyclic graphs, and to report a path that really is a
  walk of the graph running into itself.
\<close>

datatype colour = Unvisited | Visiting | Visited

text \<open>A cycle error carries the path of the search and the name that closed the cycle.\<close>

type_synonym cycle_error = "string list \<times> string"

text \<open>
  The closure \<open>visit\<close> of the source, as the loop over a list of names: the loop of a
  node's dependencies is the list, and the body of \<open>visit\<close> for its head is written out.
  The first branch is a node already finished, the second one on the current path. The
  path is nil at the roots.
\<close>

function cyc_visit :: "ContainerConfig list \<Rightarrow> string list \<Rightarrow> string list \<Rightarrow>
    (string \<Rightarrow> colour) \<Rightarrow> cycle_error + (string \<Rightarrow> colour)" where
  "cyc_visit cs [] path state = Inr state"
| "cyc_visit cs (name # names) path state =
     (if state name = Visited then cyc_visit cs names path state
      else if state name = Visiting then Inl (path, name)
      else case cyc_visit cs (deps_of cs name) (path @ [name]) (state(name := Visiting)) of
             Inl err \<Rightarrow> Inl err
           | Inr state' \<Rightarrow> cyc_visit cs names path (state'(name := Visited)))"
  by pat_completeness auto

definition white :: "ContainerConfig list \<Rightarrow> (string \<Rightarrow> colour) \<Rightarrow> string set" where
  "white cs st = {x \<in> c_Name ` set cs. st x = Unvisited}"

lemma finite_white [simp]: "finite (white cs st)"
  by (simp add: white_def)

lemma cyc_visit_white:
  "cyc_visit_dom (cs, names, path, st) \<Longrightarrow> cyc_visit cs names path st = Inr st' \<Longrightarrow>
     white cs st' \<subseteq> white cs st"
proof (induction cs names path st arbitrary: st' rule: cyc_visit.pinduct)
  case (1 cs path st)
  then show ?case by (simp add: cyc_visit.psimps)
next
  case (2 cs name names path st)
  show ?case
  proof (cases "st name = Unvisited")
    case False
    with 2 show ?thesis
      by (auto simp: cyc_visit.psimps split: if_splits) (metis colour.exhaust)
  next
    case True
    with 2 obtain st2 where rec: "cyc_visit cs (deps_of cs name) (path @ [name]) (st(name := Visiting)) = Inr st2"
      and rest: "cyc_visit cs names path (st2(name := Visited)) = Inr st'"
      by (auto simp: cyc_visit.psimps split: sum.splits)
    have "white cs st' \<subseteq> white cs (st2(name := Visited))"
      using "2.IH"(3) [OF _ _ rec rest] True by (simp add: fun_upd_def)
    moreover have "white cs st2 \<subseteq> white cs (st(name := Visiting))"
      using "2.IH"(2) [OF _ _ rec] True by (simp add: fun_upd_def)
    ultimately show ?thesis by (auto simp: white_def split: if_splits)
  qed
qed

text \<open>
  Each descent colours a white node of the configuration, or enters a name without
  dependencies; each later step of a loop shortens its list.
\<close>

termination cyc_visit
proof (relation "inv_image (finite_psubset <*lex*> less_than)
    (\<lambda>(cs, names, path, st). (white cs st, length names))", goal_cases)
  case 1
  then show ?case by auto
next
  case (2 cs name names path st)
  then show ?case by simp
next
  case (3 cs name names path st)
  then have un: "st name = Unvisited" by (meson colour.exhaust)
  show ?case
  proof (cases "name \<in> c_Name ` set cs")
    case True
    with un have "white cs (st(name := Visiting)) \<subset> white cs st"
      by (auto simp: white_def)
    then show ?thesis by simp
  next
    case False
    then have "deps_of cs name = []" by (metis deps_of_nonempty last_in_set)
    moreover have "white cs (st(name := Visiting)) = white cs st"
      using False by (auto simp: white_def)
    ultimately show ?thesis by simp
  qed
next
  case (4 cs name names path st st2)
  then have "white cs st2 \<subseteq> white cs (st(name := Visiting))"
    by (metis cyc_visit_white)
  then have "white cs (st2(name := Visited)) \<subseteq> white cs st"
    by (auto simp: white_def split: if_splits)
  then show ?case by (auto simp: psubset_eq)
qed

declare cyc_visit.simps(2) [simp del]

lemma cyc_visit_Visited [simp]:
  "state name = Visited \<Longrightarrow> cyc_visit cs (name # names) path state = cyc_visit cs names path state"
  by (simp add: cyc_visit.simps(2))

lemma cyc_visit_Visiting [simp]:
  "state name = Visiting \<Longrightarrow> cyc_visit cs (name # names) path state = Inl (path, name)"
  by (simp add: cyc_visit.simps(2))

lemma cyc_visit_Unvisited:
  "state name = Unvisited \<Longrightarrow> cyc_visit cs (name # names) path state =
     (case cyc_visit cs (deps_of cs name) (path @ [name]) (state(name := Visiting)) of
        Inl err \<Rightarrow> Inl err
      | Inr state' \<Rightarrow> cyc_visit cs names path (state'(name := Visited)))"
  by (simp add: cyc_visit.simps(2))

text \<open>
  The roots: every container in order, skipped unless still unvisited. The name of the
  first error is returned.
\<close>

fun cyc_roots :: "ContainerConfig list \<Rightarrow> ContainerConfig list \<Rightarrow>
    (string \<Rightarrow> colour) \<Rightarrow> cycle_error option" where
  "cyc_roots cs [] state = None"
| "cyc_roots cs (c # rest) state =
     (if state (c_Name c) = Unvisited
      then (case cyc_visit cs [c_Name c] [] state of
              Inl err \<Rightarrow> Some err
            | Inr state' \<Rightarrow> cyc_roots cs rest state')
      else cyc_roots cs rest state)"

definition detectDependencyCycles :: "ContainerConfig list \<Rightarrow> cycle_error option" where
  "detectDependencyCycles cs = cyc_roots cs cs (\<lambda>_. Unvisited)"

text \<open>\<open>joinPath\<close>, and the text of the error built from it (the arrow is UTF-8).\<close>

definition arrow :: string where
  "arrow = [CHR '' '', CHR 0xE2, CHR 0x86, CHR 0x92, CHR '' '']"

fun join_from :: "nat \<Rightarrow> string \<Rightarrow> string list \<Rightarrow> string" where
  "join_from i result [] = result"
| "join_from i result (p # ps) =
     join_from (Suc i) ((if i > 0 then result @ arrow else result) @ p) ps"

definition joinPath :: "string list \<Rightarrow> string" where
  "joinPath path = join_from 0 [] path"

definition cycle_message :: "cycle_error \<Rightarrow> string" where
  "cycle_message e = ''dependency cycle detected: '' @ joinPath (fst e) @ arrow @ snd e"

lemma join_from_Suc: "join_from (Suc i) r ps = r @ concat (map (\<lambda>p. arrow @ p) ps)"
  by (induction ps arbitrary: i r) auto

lemma joinPath_Join: "joinPath path = Join path arrow"
proof -
  have "Join (p # ps) arrow = p @ concat (map (\<lambda>p. arrow @ p) ps)" for p ps
    by (induction ps arbitrary: p) auto
  then show ?thesis by (cases path) (simp_all add: joinPath_def join_from_Suc)
qed

section \<open>What a finished search leaves behind\<close>

definition black :: "(string \<Rightarrow> colour) \<Rightarrow> string set" where
  "black st = {x. st x = Visited}"

definition grey :: "(string \<Rightarrow> colour) \<Rightarrow> string set" where
  "grey st = {x. st x = Visiting}"

definition done_ok :: "ContainerConfig list \<Rightarrow> (string \<Rightarrow> colour) \<Rightarrow> bool" where
  "done_ok cs st \<longleftrightarrow>
     (\<forall>a \<in> black st. set (deps_of cs a) \<subseteq> black st \<and> (a, a) \<notin> (dep_rel cs)\<^sup>+)"

lemma done_ok_insert:
  assumes "done_ok cs st" and "set (deps_of cs x) \<subseteq> black st" and "x \<notin> black st"
  shows "done_ok cs (st(x := Visited))"
proof -
  have eq: "black (st(x := Visited)) = insert x (black st)" by (auto simp: black_def)
  have "(a, a) \<notin> (dep_rel cs)\<^sup>+" if "a \<in> insert x (black st)" for a
    using assms that
    by (intro acyclic_on_insert [of "black st" "dep_rel cs" x a]) (auto simp: done_ok_def)
  with assms show ?thesis unfolding done_ok_def eq by blast
qed

lemma cyc_visit_Inr:
  assumes "cyc_visit cs names path st = Inr st'"
  shows "grey st' = grey st \<and> black st \<subseteq> black st' \<and> set names \<subseteq> black st' \<and>
    (done_ok cs st \<longrightarrow> done_ok cs st')"
  using assms
proof (induction cs names path st arbitrary: st' rule: cyc_visit.induct)
  case (1 cs path st)
  then show ?case by simp
next
  case (2 cs name names path st)
  show ?case
  proof (cases "st name = Unvisited")
    case False
    with "2.prems" have v: "st name = Visited"
      by (metis colour.exhaust cyc_visit_Visiting Inl_Inr_False)
    with "2.IH"(1) "2.prems" show ?thesis by (auto simp: black_def)
  next
    case True
    with "2.prems" obtain st2
      where rec: "cyc_visit cs (deps_of cs name) (path @ [name]) (st(name := Visiting)) = Inr st2"
      and rest: "cyc_visit cs names path (st2(name := Visited)) = Inr st'"
      by (auto simp: cyc_visit_Unvisited split: sum.splits)
    let ?st1 = "st(name := Visiting)" and ?st3 = "st2(name := Visited)"
    have sub: "grey st2 = grey ?st1" "black ?st1 \<subseteq> black st2" "set (deps_of cs name) \<subseteq> black st2"
      "done_ok cs ?st1 \<longrightarrow> done_ok cs st2"
      using "2.IH"(2) [OF _ _ rec] True by (simp_all add: fun_upd_def)
    have fin: "grey st' = grey ?st3" "black ?st3 \<subseteq> black st'" "set names \<subseteq> black st'"
      "done_ok cs ?st3 \<longrightarrow> done_ok cs st'"
      using "2.IH"(3) [OF _ _ rec rest] True by (simp_all add: fun_upd_def)
    have b1: "black ?st1 = black st" using True by (auto simp: black_def)
    have nm: "name \<in> grey st2" using sub(1) by (simp add: grey_def)
    then have nb: "name \<notin> black st2" by (simp add: grey_def black_def)
    have b3: "black ?st3 = insert name (black st2)" by (auto simp: black_def)
    have "grey ?st3 = grey st2 - {name}" and "grey ?st1 = insert name (grey st)"
      and "name \<notin> grey st"
      using True by (auto simp: grey_def)
    then have g3: "grey ?st3 = grey st" using sub(1) by simp
    have "done_ok cs ?st3" if "done_ok cs st"
    proof (rule done_ok_insert [OF _ sub(3) nb])
      have "done_ok cs ?st1" using that by (simp only: done_ok_def b1)
      with sub(4) show "done_ok cs st2" by blast
    qed
    with fin g3 b3 b1 sub(2) show ?thesis by (simp only: insert_subset set_simps) blast
  qed
qed

section \<open>What an error reports\<close>

text \<open>A walk: each element depends on the next.\<close>

definition walk :: "ContainerConfig list \<Rightarrow> string list \<Rightarrow> bool" where
  "walk cs path \<longleftrightarrow> successively (\<lambda>a b. (a, b) \<in> dep_rel cs) path"

lemma walk_snoc:
  "walk cs (path @ [x]) \<longleftrightarrow> walk cs path \<and> (path \<noteq> [] \<longrightarrow> (last path, x) \<in> dep_rel cs)"
  by (auto simp: walk_def successively_append_iff)

lemma walk_trancl:
  "walk cs (us @ x # vs) \<Longrightarrow> (x, last (x # vs)) \<in> (dep_rel cs)\<^sup>*"
proof (induction vs rule: rev_induct)
  case Nil
  then show ?case by simp
next
  case (snoc y vs)
  have "walk cs ((us @ x # vs) @ [y])" using snoc.prems by simp
  then have "walk cs (us @ x # vs)" and "(last (x # vs), y) \<in> dep_rel cs"
    by (simp_all only: walk_snoc) auto
  with snoc.IH show ?case by (auto intro: rtrancl_into_rtrancl)
qed

definition cycle_found :: "ContainerConfig list \<Rightarrow> cycle_error \<Rightarrow> bool" where
  "cycle_found cs e \<longleftrightarrow>
     (case e of (path, name) \<Rightarrow>
        walk cs path \<and> name \<in> set path \<and> (last path, name) \<in> dep_rel cs)"

lemma cycle_found_trancl:
  assumes "cycle_found cs (path, name)"
  shows "(name, name) \<in> (dep_rel cs)\<^sup>+"
proof -
  from assms obtain us vs where "path = us @ name # vs"
    by (auto simp: cycle_found_def dest: split_list)
  with assms walk_trancl [of cs us name vs] show ?thesis
    by (auto simp: cycle_found_def intro: rtrancl_into_trancl1)
qed

lemma cyc_visit_Inl:
  assumes "cyc_visit cs names path st = Inl e"
    and "grey st = set path" and "walk cs path"
    and "path \<noteq> [] \<longrightarrow> set names \<subseteq> set (deps_of cs (last path))"
  shows "cycle_found cs e"
  using assms
proof (induction cs names path st rule: cyc_visit.induct)
  case (1 cs path st)
  then show ?case by simp
next
  case (2 cs name names path st)
  show ?case
  proof (cases "st name")
    case Visited
    with 2 show ?thesis by simp
  next
    case Visiting
    with "2.prems" have "e = (path, name)" "name \<in> set path" by (auto simp: grey_def)
    with "2.prems" show ?thesis by (auto simp: cycle_found_def dest: length_pos_if_in_set)
  next
    case Unvisited
    let ?r = "cyc_visit cs (deps_of cs name) (path @ [name]) (st(name := Visiting))"
    have g1: "grey (st(name := Visiting)) = set (path @ [name])"
      using "2.prems"(2) by (auto simp: grey_def)
    have w1: "walk cs (path @ [name])"
      using "2.prems"(3,4) by (auto simp: walk_snoc)
    show ?thesis
    proof (cases ?r)
      case (Inl e')
      with Unvisited "2.prems"(1) have "?r = Inl e" by (simp add: cyc_visit_Unvisited)
      from "2.IH"(2) [OF _ _ this] g1 w1 Unvisited show ?thesis by (simp add: fun_upd_def)
    next
      case (Inr st2)
      with Unvisited "2.prems"(1)
      have rest: "cyc_visit cs names path (st2(name := Visited)) = Inl e"
        by (simp add: cyc_visit_Unvisited)
      have "grey st2 = set (path @ [name])" using cyc_visit_Inr [OF Inr] g1 by simp
      moreover have "name \<notin> set path"
        using Unvisited "2.prems"(2) [symmetric] by (simp add: grey_def)
      ultimately have "grey (st2(name := Visited)) = set path"
        by (auto simp: grey_def set_eq_iff split: if_splits)
      then show ?thesis
        using "2.IH"(3) [OF _ _ Inr rest] Unvisited "2.prems"(3,4) by (simp add: fun_upd_def)
    qed
  qed
qed

lemma cyc_roots_None:
  assumes "cyc_roots cs rest st = None" and "done_ok cs st" and "grey st = {}"
  shows "\<exists>st'. done_ok cs st' \<and> black st \<subseteq> black st' \<and> c_Name ` set rest \<subseteq> black st'"
  using assms
proof (induction rest arbitrary: st)
  case Nil
  then show ?case by auto
next
  case (Cons c rest)
  show ?case
  proof (cases "st (c_Name c) = Unvisited")
    case True
    with Cons.prems(1) obtain st1 where v: "cyc_visit cs [c_Name c] [] st = Inr st1"
      and r: "cyc_roots cs rest st1 = None" by (auto split: sum.splits)
    from cyc_visit_Inr [OF v] Cons.prems(2,3) have st1: "done_ok cs st1" "grey st1 = {}"
      "black st \<subseteq> black st1" "c_Name c \<in> black st1" by auto
    from Cons.IH [OF r st1(1,2)] st1(3,4) show ?thesis by (auto dest: subsetD)
  next
    case False
    with Cons.prems(3) have "c_Name c \<in> black st"
      by (auto simp: black_def grey_def) (metis colour.exhaust)
    moreover have "cyc_roots cs rest st = None" using False Cons.prems(1) by simp
    ultimately show ?thesis using Cons.IH [of st] Cons.prems(2,3) by (auto dest: subsetD)
  qed
qed

lemma cyc_roots_Some:
  assumes "cyc_roots cs rest st = Some e" and "grey st = {}"
  shows "cycle_found cs e"
  using assms
proof (induction rest arbitrary: st)
  case Nil
  then show ?case by simp
next
  case (Cons c rest)
  show ?case
  proof (cases "st (c_Name c) = Unvisited \<and> (\<exists>e. cyc_visit cs [c_Name c] [] st = Inl e)")
    case True
    then obtain e' where v: "cyc_visit cs [c_Name c] [] st = Inl e'" by blast
    with True Cons.prems(1) have "e' = e" by simp
    with cyc_visit_Inl [OF v] Cons.prems(2) show ?thesis by (simp add: walk_def)
  next
    case False
    show ?thesis
    proof (cases "st (c_Name c) = Unvisited")
      case True
      with False obtain st1 where v: "cyc_visit cs [c_Name c] [] st = Inr st1"
        by (meson sumE)
      with True Cons.prems(1) have "cyc_roots cs rest st1 = Some e" by simp
      with cyc_visit_Inr [OF v] Cons.prems(2) Cons.IH [of st1] show ?thesis by simp
    next
      case False
      with Cons.prems Cons.IH [of st] show ?thesis by simp
    qed
  qed
qed

lemma detect_None_iff:
  "detectDependencyCycles cs = None \<longleftrightarrow> acyclic (dep_rel cs)"
proof
  assume n: "detectDependencyCycles cs = None"
  have start: "done_ok cs (\<lambda>_. Unvisited)" "grey (\<lambda>_. Unvisited) = {}"
    by (simp_all add: done_ok_def black_def grey_def)
  from cyc_roots_None [OF n [unfolded detectDependencyCycles_def] start]
  obtain st' where d: "done_ok cs st'" and b: "c_Name ` set cs \<subseteq> black st'" by blast
  show "acyclic (dep_rel cs)"
  proof (rule acyclicI, intro allI notI)
    fix x assume x: "(x, x) \<in> (dep_rel cs)\<^sup>+"
    then obtain y where "(x, y) \<in> dep_rel cs" by (meson tranclD)
    then have "x \<in> black st'" using b deps_of_nonempty by fastforce
    with d x show False by (simp add: done_ok_def)
  qed
next
  assume a: "acyclic (dep_rel cs)"
  show "detectDependencyCycles cs = None"
  proof (cases "detectDependencyCycles cs")
    case (Some e)
    then have "cycle_found cs e"
      unfolding detectDependencyCycles_def by (rule cyc_roots_Some) (simp add: grey_def)
    with a cycle_found_trancl show ?thesis by (cases e) (auto simp: acyclic_def)
  qed
qed

text \<open>
  C9 (equivalence, \<^verbatim>\<open>detectDependencyCycles\<close>): the check passes exactly when the
  \<open>depends_on\<close> graph of the configuration has no cycle.
\<close>

theorem detectDependencyCycles_iff_acyclic:
  "detectDependencyCycles cs = None \<longleftrightarrow> acyclic (dep_rel cs)"
  by (rule detect_None_iff)

text \<open>
  \<^verbatim>\<open>detectDependencyCycles\<close>: an error reports a walk along \<open>depends_on\<close>
  edges, from a root of the search, whose last element depends on an element already on
  it; that element is on a cycle.
\<close>

theorem detectDependencyCycles_reports_cycle:
  assumes "detectDependencyCycles cs = Some (path, name)"
  shows "walk cs path \<and> name \<in> set path \<and> name \<in> set (deps_of cs (last path)) \<and>
    (name, name) \<in> (dep_rel cs)\<^sup>+"
proof -
  have "cycle_found cs (path, name)"
    using assms unfolding detectDependencyCycles_def
    by (rule cyc_roots_Some) (simp add: grey_def)
  with cycle_found_trancl [OF this] show ?thesis by (simp add: cycle_found_def)
qed

lemma detectDependencyCycles_reports_cycle_witness:
  "detectDependencyCycles loop_cs = Some ([''app'', ''api''], ''app'') \<and>
   (''app'', ''app'') \<in> (dep_rel loop_cs)\<^sup>+"
proof -
  have d: "detectDependencyCycles loop_cs = Some ([''app'', ''api''], ''app'')"
    unfolding detectDependencyCycles_def
    by (subst loop_cs_def [THEN arg_cong [where f = "cyc_roots loop_cs"]])
      (simp add: cyc_visit_Unvisited sample_deps)
  with detectDependencyCycles_reports_cycle [OF d] show ?thesis by blast
qed

end
