(* ===== verification/StopOrder.thy ===== *)
theory StopOrder
  imports Topo Cycles
begin

text \<open>
  The order in which a cascade stops containers: \<^verbatim>\<open>topoMergeStop\<close> and
  \<^verbatim>\<open>BuildReverseDeps\<close> of \<^verbatim>\<open>gateway/manager.go\<close>. A Go map is ranged over in no fixed
  order, so the roots come as a list \<open>iter\<close>, the order the run happened to take.
\<close>

definition BuildReverseDeps :: "ContainerConfig list \<Rightarrow> string \<Rightarrow> string list" where
  "BuildReverseDeps cfgs =
     foldl (\<lambda>rev cfg. foldl (\<lambda>rev dep. rev(dep := rev dep @ [c_Name cfg])) rev (c_DependsOn cfg))
       (\<lambda>_. []) cfgs"

lemma rev_deps_inner:
  "foldl (\<lambda>rev dep. rev(dep := rev dep @ [n])) r ds d = r d @ map (\<lambda>_. n) (filter (\<lambda>x. x = d) ds)"
  by (induction ds arbitrary: r) auto

lemma BuildReverseDeps_concat:
  "BuildReverseDeps cfgs d =
     concat (map (\<lambda>c. map (\<lambda>_. c_Name c) (filter (\<lambda>x. x = d) (c_DependsOn c))) cfgs)"
proof -
  have "foldl (\<lambda>rev cfg. foldl (\<lambda>rev dep. rev(dep := rev dep @ [c_Name cfg])) rev (c_DependsOn cfg))
          r cfgs d =
        r d @ concat (map (\<lambda>c. map (\<lambda>_. c_Name c) (filter (\<lambda>x. x = d) (c_DependsOn c))) cfgs)" for r
    by (induction cfgs arbitrary: r) (auto simp: rev_deps_inner)
  then show ?thesis by (simp add: BuildReverseDeps_def)
qed

text \<open>
  \<^verbatim>\<open>BuildReverseDeps\<close>: the dependents recorded for a container are
  exactly the containers that name it in \<open>depends_on\<close>.
\<close>

theorem BuildReverseDeps_dependents:
  "n \<in> set (BuildReverseDeps cfgs d) \<longleftrightarrow> (\<exists>c \<in> set cfgs. c_Name c = n \<and> d \<in> set (c_DependsOn c))"
  by (auto simp: BuildReverseDeps_concat)

section \<open>The search\<close>

record merge_state =
  m_visited :: "string set"
  m_order :: "string list"

text \<open>
  The closure \<open>visit\<close>, as the loop over a list of names with the body for its head
  written out. A node is marked when it is entered, and only dependencies inside
  \<open>toStop\<close> are followed.
\<close>

function merge_visit :: "ContainerConfig list \<Rightarrow> string set \<Rightarrow> string list \<Rightarrow> merge_state \<Rightarrow>
    merge_state" where
  "merge_visit cfgs toStop [] st = st"
| "merge_visit cfgs toStop (name # names) st =
     (if name \<in> m_visited st then merge_visit cfgs toStop names st
      else
        let st1 = st\<lparr>m_visited := insert name (m_visited st)\<rparr>;
            st2 = (case container_map cfgs name of
                     None \<Rightarrow> st1
                   | Some cfg \<Rightarrow>
                       merge_visit cfgs toStop (filter (\<lambda>dep. dep \<in> toStop) (c_DependsOn cfg)) st1)
        in merge_visit cfgs toStop names (st2\<lparr>m_order := m_order st2 @ [name]\<rparr>))"
  by pat_completeness auto

lemma merge_visit_grows:
  "merge_visit_dom (cfgs, S, names, st) \<Longrightarrow> m_visited st \<subseteq> m_visited (merge_visit cfgs S names st)"
proof (induction cfgs S names st rule: merge_visit.pinduct)
  case (1 cfgs S st)
  then show ?case by (simp add: merge_visit.psimps)
next
  case (2 cfgs S name names st)
  show ?case
  proof (cases "name \<in> m_visited st")
    case True
    with 2 show ?thesis by (simp add: merge_visit.psimps)
  next
    case False
    with "2.IH"(3) [OF False refl refl] "2.IH"(2) [OF False refl] show ?thesis
      by (auto simp: merge_visit.psimps(2) [OF "2.hyps"] Let_def split: option.splits)
  qed
qed

termination merge_visit
proof (relation "inv_image (finite_psubset <*lex*> less_than)
    (\<lambda>(cfgs, S, names, st). (c_Name ` set cfgs - m_visited st, length names))", goal_cases)
  case 1
  then show ?case by auto
next
  case (2 cfgs S name names st)
  then show ?case by simp
next
  case (3 cfgs S name names st st1 cfg)
  then have "name \<in> c_Name ` set cfgs" by (auto dest: container_map_Some)
  with 3 have "c_Name ` set cfgs - m_visited st1 \<subset> c_Name ` set cfgs - m_visited st" by auto
  then show ?case by simp
next
  case (4 cfgs S name names st st1 st2)
  have "m_visited st \<subseteq> m_visited st2"
  proof (cases "container_map cfgs name")
    case None
    with 4 show ?thesis by auto
  next
    case (Some cfg)
    with 4 merge_visit_grows [of cfgs S "filter (\<lambda>dep. dep \<in> S) (c_DependsOn cfg)" st1]
    show ?thesis by auto
  qed
  then have "c_Name ` set cfgs - m_visited st2 \<subseteq> c_Name ` set cfgs - m_visited st" by blast
  then show ?case by (auto simp: psubset_eq)
qed

declare merge_visit.simps(2) [simp del]

definition topoMergeStop :: "string set \<Rightarrow> string list \<Rightarrow> ContainerConfig list \<Rightarrow> string list" where
  "topoMergeStop toStop iter cfgs =
     m_order (merge_visit cfgs toStop iter \<lparr>m_visited = {}, m_order = []\<rparr>)"

section \<open>Correctness on acyclic configurations\<close>

text \<open>The dependencies of a name that the search follows.\<close>

definition stop_deps :: "ContainerConfig list \<Rightarrow> string set \<Rightarrow> string \<Rightarrow> string set" where
  "stop_deps cfgs S n = set (deps_of cfgs n) \<inter> S"

definition merge_inv :: "ContainerConfig list \<Rightarrow> string set \<Rightarrow> merge_state \<Rightarrow> bool" where
  "merge_inv cfgs S st \<longleftrightarrow>
     set (m_order st) \<subseteq> m_visited st \<and> distinct (m_order st) \<and>
     dep_ordered (stop_deps cfgs S) (m_order st)"

definition pending :: "merge_state \<Rightarrow> string set" where
  "pending st = m_visited st - set (m_order st)"

lemma merge_visit_skip:
  "name \<in> m_visited st \<Longrightarrow> merge_visit cfgs S (name # names) st = merge_visit cfgs S names st"
  by (simp add: merge_visit.simps(2))

text \<open>
  Between entering a node and appending it, the node is pending. Everything pending is
  an ancestor of what is visited next, so on an acyclic graph a visited name that is met
  again has already been appended.
\<close>

lemma merge_visit_correct:
  assumes "acyclic (dep_rel cfgs)" and "merge_inv cfgs S st"
    and "\<And>g x. g \<in> pending st \<Longrightarrow> x \<in> set names \<Longrightarrow> (g, x) \<in> (dep_rel cfgs)\<^sup>+"
    and "set names \<subseteq> S"
  shows "merge_inv cfgs S (merge_visit cfgs S names st) \<and>
    pending (merge_visit cfgs S names st) = pending st \<and>
    set names \<subseteq> set (m_order (merge_visit cfgs S names st)) \<and>
    set (m_order st) \<subseteq> set (m_order (merge_visit cfgs S names st)) \<and>
    set (m_order (merge_visit cfgs S names st)) \<subseteq> set (m_order st) \<union> S"
  using assms
proof (induction cfgs S names st rule: merge_visit.induct)
  case (1 cfgs S st)
  then show ?case by simp
next
  case (2 cfgs S name names st)
  show ?case
  proof (cases "name \<in> m_visited st")
    case True
    have "name \<notin> pending st"
      using "2.prems"(3) [of name name] "2.prems"(1) by (auto simp: acyclic_def)
    with True have o: "name \<in> set (m_order st)" by (simp add: pending_def)
    show ?thesis
      using "2.IH"(1) [OF True] "2.prems" o unfolding merge_visit_skip [OF True] by auto
  next
    case False
    let ?st1 = "st\<lparr>m_visited := insert name (m_visited st)\<rparr>"
    define ds where "ds = (case container_map cfgs name of None \<Rightarrow> []
      | Some cfg \<Rightarrow> filter (\<lambda>dep. dep \<in> S) (c_DependsOn cfg))"
    have ds: "set ds = stop_deps cfgs S name"
      by (auto simp: ds_def stop_deps_def deps_of_def split: option.splits)
    define st2 where "st2 = merge_visit cfgs S ds ?st1"
    let ?st3 = "st2\<lparr>m_order := m_order st2 @ [name]\<rparr>"
    have st2: "(case container_map cfgs name of None \<Rightarrow> ?st1
      | Some cfg \<Rightarrow> merge_visit cfgs S (filter (\<lambda>dep. dep \<in> S) (c_DependsOn cfg)) ?st1) = st2"
      by (simp add: st2_def ds_def split: option.splits)
    have step: "merge_visit cfgs S (name # names) st = merge_visit cfgs S names ?st3"
      using False st2 by (simp add: merge_visit.simps(2) Let_def)
    have name: "name \<in> S" and nm: "name \<notin> set (m_order st)"
      using "2.prems"(2,4) False by (auto simp: merge_inv_def)
    have inv1: "merge_inv cfgs S ?st1" using "2.prems"(2) by (auto simp: merge_inv_def)
    have pend1: "pending ?st1 = insert name (pending st)" using nm by (auto simp: pending_def)
    have anc: "(g, x) \<in> (dep_rel cfgs)\<^sup>+" if "g \<in> pending ?st1" "x \<in> set ds" for g x
      using that ds "2.prems"(3) [of g name] pend1
      by (cases "g = name") (auto simp: stop_deps_def intro: trancl_into_trancl)
    have "merge_inv cfgs S st2 \<and> pending st2 = pending ?st1 \<and> set ds \<subseteq> set (m_order st2) \<and>
      set (m_order ?st1) \<subseteq> set (m_order st2) \<and> set (m_order st2) \<subseteq> set (m_order ?st1) \<union> S"
    proof (cases "container_map cfgs name")
      case None
      then show ?thesis using inv1 by (simp add: st2_def ds_def)
    next
      case (Some cfg)
      have dsS: "set ds \<subseteq> S" using ds by (auto simp: stop_deps_def)
      have eq: "filter (\<lambda>dep. dep \<in> S) (c_DependsOn cfg) = ds" by (simp add: ds_def Some)
      from "2.IH"(2) [OF False refl Some "2.prems"(1), unfolded eq] inv1 anc dsS
      show ?thesis by (simp only: st2_def)
    qed
    then have inv2: "merge_inv cfgs S st2" and pend2: "pending st2 = insert name (pending st)"
      and ds2: "set ds \<subseteq> set (m_order st2)" and o2: "set (m_order st) \<subseteq> set (m_order st2)"
      "set (m_order st2) \<subseteq> set (m_order st) \<union> S"
      using pend1 by simp_all
    have fresh2: "name \<notin> set (m_order st2)" "name \<in> m_visited st2"
      using pend2 by (auto simp: pending_def)
    have inv3: "merge_inv cfgs S ?st3"
      using inv2 fresh2 ds2 ds by (auto simp: merge_inv_def)
    have "name \<notin> pending st" using False by (simp add: pending_def)
    moreover have "pending ?st3 = pending st2 - {name}" by (auto simp: pending_def)
    ultimately have pend3: "pending ?st3 = pending st" using pend2 by simp
    have "merge_inv cfgs S (merge_visit cfgs S names ?st3) \<and>
      pending (merge_visit cfgs S names ?st3) = pending ?st3 \<and>
      set names \<subseteq> set (m_order (merge_visit cfgs S names ?st3)) \<and>
      set (m_order ?st3) \<subseteq> set (m_order (merge_visit cfgs S names ?st3)) \<and>
      set (m_order (merge_visit cfgs S names ?st3)) \<subseteq> set (m_order ?st3) \<union> S"
      using "2.IH"(3) [OF False refl refl "2.prems"(1), unfolded st2] inv3 "2.prems"(3,4) pend3 by simp
    with pend3 o2 name show ?thesis unfolding step by auto
  qed
qed

lemma topoMergeStop_spec:
  assumes "acyclic (dep_rel cfgs)" and "set iter = toStop"
  shows "distinct (topoMergeStop toStop iter cfgs) \<and>
    set (topoMergeStop toStop iter cfgs) = toStop \<and>
    dep_ordered (stop_deps cfgs toStop) (topoMergeStop toStop iter cfgs)"
proof -
  let ?st = "\<lparr>m_visited = {}, m_order = []\<rparr>"
  have "merge_inv cfgs toStop ?st" by (simp add: merge_inv_def)
  from merge_visit_correct [OF assms(1) this, of iter] assms(2)
  show ?thesis by (auto simp: topoMergeStop_def pending_def merge_inv_def)
qed

text \<open>
  \<^verbatim>\<open>topoMergeStop\<close>: on an acyclic configuration, in whatever order the
  map is ranged over, the result lists exactly the containers to stop, once each, every
  one after those of its dependencies that are stopped too.
\<close>

theorem topoMergeStop_correct:
  assumes "acyclic (dep_rel cfgs)" and "set iter = toStop"
  shows "distinct (topoMergeStop toStop iter cfgs) \<and>
    set (topoMergeStop toStop iter cfgs) = toStop \<and>
    dep_ordered (stop_deps cfgs toStop) (topoMergeStop toStop iter cfgs)"
  using assms by (rule topoMergeStop_spec)

lemma topoMergeStop_correct_witness:
  "set (topoMergeStop {''app'', ''db''} [''app'', ''db''] chain_cs) = {''app'', ''db''}"
proof -
  have "acyclic (dep_rel chain_cs)"
    by (rule acyclicI_order [of _ "\<lambda>n. if n = ''app'' then (2::nat) else if n = ''api'' then 1 else 0"])
      (auto simp: sample_deps split: if_splits)
  from topoMergeStop_correct [OF this, of "[''app'', ''db'']" "{''app'', ''db''}"] show ?thesis by simp
qed

section \<open>The two sorts provide the contract\<close>

definition topo_sort_opt :: "string \<times> ContainerConfig list \<Rightarrow> string list option" where
  "topo_sort_opt i = (case TopologicalSort (fst i) (snd i) of Inl _ \<Rightarrow> None | Inr ord \<Rightarrow> Some ord)"

interpretation start_sort: dep_sorter topo_sort_opt "\<lambda>i n. set (deps_of (snd i) n)"
proof
  fix i ord
  assume "topo_sort_opt i = Some ord"
  then have "TopologicalSort (fst i) (snd i) = Inr ord"
    by (simp add: topo_sort_opt_def split: sum.splits)
  from TopologicalSort_spec [OF this] show "distinct ord"
    and "dep_ordered (\<lambda>n. set (deps_of (snd i) n)) ord" by blast+
qed

text \<open>
  The stop order is a sort of the configurations that pass the cycle check, which is
  what validation guarantees before a configuration is used.
\<close>

definition stop_sort_opt :: "string list \<times> ContainerConfig list \<Rightarrow> string list option" where
  "stop_sort_opt i =
     (if detectDependencyCycles (snd i) = None
      then Some (topoMergeStop (set (fst i)) (fst i) (snd i)) else None)"

interpretation stop_sort: dep_sorter stop_sort_opt "\<lambda>i. stop_deps (snd i) (set (fst i))"
  by unfold_locales
    (auto simp: stop_sort_opt_def detect_None_iff topoMergeStop_spec split: if_splits)

end
