(* ===== verification/Manager.thy ===== *)
theory Manager
  imports Docker StopOrder
begin

text \<open>
  The container manager of \<^verbatim>\<open>gateway/manager.go\<close>: starting containers and their
  dependencies on demand, activity records, and the idle watcher with its cascade of stops.

  The manager's state is the record \<open>mgr\<close>: the names that have a mutex, the last activity
  and the start state of each container, and the world with the trace of the calls made so
  far. An operation is a state transformer. Operations that poll return an option: \<open>None\<close>
  is the run that never returns. The mutexes and the interleaving of callers are the theory
  \<open>Locking\<close>.
\<close>

section \<open>State\<close>

record startState =
  ss_Status :: string
  ss_Err :: string

definition statusStarting :: string where
  "statusStarting = ''starting''"

definition statusRunning :: string where
  "statusRunning = ''running''"

definition statusFailed :: string where
  "statusFailed = ''failed''"

lemmas status_defs = statusStarting_def statusRunning_def statusFailed_def

record 'w mgr =
  locks :: "string set"
  lastSeen :: "string \<Rightarrow> time option"
  startStates :: "string \<Rightarrow> startState option"
  mg_io :: "'w io"

datatype mgr_error =
    StartFailed string string
  | AddrFailed string addr_error
  | StartTimedOut string string
  | Crashed string
  | DepResolution string topo_error
  | DepMissing string
  | DepFailed string mgr_error
  | GroupDeps string mgr_error
  | MemberMissing string string
  | MemberFailed string string mgr_error

definition on_io :: "('w io \<Rightarrow> 'r \<times> 'w io) \<Rightarrow> 'w mgr \<Rightarrow> 'r \<times> 'w mgr" where
  "on_io f m = (case f (mg_io m) of (r, s) \<Rightarrow> (r, m\<lparr>mg_io := s\<rparr>))"

definition NewContainerManager :: "'w \<Rightarrow> 'w mgr" where
  "NewContainerManager w =
     \<lparr>locks = {}, lastSeen = Map.empty, startStates = Map.empty, mg_io = \<lparr>world = w, trace = []\<rparr>\<rparr>"

definition getLock :: "string \<Rightarrow> 'w mgr \<Rightarrow> 'w mgr" where
  "getLock containerName m = m\<lparr>locks := insert containerName (locks m)\<rparr>"

definition setStartState :: "string \<Rightarrow> string \<Rightarrow> string \<Rightarrow> 'w mgr \<Rightarrow> 'w mgr" where
  "setStartState name status errMsg m =
     m\<lparr>startStates := (startStates m)(name \<mapsto> \<lparr>ss_Status = status, ss_Err = errMsg\<rparr>)\<rparr>"

definition GetStartState :: "string \<Rightarrow> 'w mgr \<Rightarrow> string \<times> string" where
  "GetStartState name m =
     (case startStates m name of
        None \<Rightarrow> (''unknown'', '''')
      | Some s \<Rightarrow> (ss_Status s, ss_Err s))"

definition InitStartState :: "string \<Rightarrow> 'w mgr \<Rightarrow> 'w mgr" where
  "InitStartState name m = setStartState name statusStarting '''' m"

definition time_Now :: "'w env \<Rightarrow> 'w mgr \<Rightarrow> time \<times> 'w mgr" where
  "time_Now E = on_io (call (Now E) (\<lambda>_. []))"

definition RecordActivity :: "'w env \<Rightarrow> string \<Rightarrow> 'w mgr \<Rightarrow> 'w mgr" where
  "RecordActivity E containerName m =
     (case time_Now E m of (t, m') \<Rightarrow> m'\<lparr>lastSeen := (lastSeen m')(containerName \<mapsto> t)\<rparr>)"

definition GetLastSeen :: "string \<Rightarrow> 'w mgr \<Rightarrow> time option" where
  "GetLastSeen containerName m = lastSeen m containerName"

text \<open>
  The loop over the roots collects the names to refresh; a root that cannot be sorted is
  recorded alone. All names collected get the instant read first, so the order in which the
  set is ranged over does not matter.
\<close>

fun chain_roots :: "'w env \<Rightarrow> ContainerConfig list \<Rightarrow> string list \<Rightarrow> string list \<Rightarrow> 'w mgr \<Rightarrow>
    string list \<times> 'w mgr" where
  "chain_roots E allContainers [] toUpdate m = (toUpdate, m)"
| "chain_roots E allContainers (root # roots) toUpdate m =
     (case TopologicalSort root allContainers of
        Inl err \<Rightarrow> chain_roots E allContainers roots toUpdate (RecordActivity E root m)
      | Inr chain \<Rightarrow> chain_roots E allContainers roots (toUpdate @ chain) m)"

definition RecordActivityChain :: "'w env \<Rightarrow> string list \<Rightarrow> ContainerConfig list \<Rightarrow> 'w mgr \<Rightarrow> 'w mgr" where
  "RecordActivityChain E roots allContainers m =
     (case time_Now E m of (now, m1) \<Rightarrow>
        (case chain_roots E allContainers roots [] m1 of (toUpdate, m2) \<Rightarrow>
           if toUpdate = [] then m2
           else m2\<lparr>lastSeen := foldl (\<lambda>seen name. seen(name \<mapsto> now)) (lastSeen m2) toUpdate\<rparr>))"

section \<open>Starting a container\<close>

text \<open>What every failing branch of \<open>EnsureRunning\<close> does.\<close>

definition start_failed :: "string \<Rightarrow> string \<Rightarrow> 'w mgr \<Rightarrow> 'w mgr" where
  "start_failed name msg m =
     snd (on_io (\<lambda>s. ((), RecordStart name False 0 s)) (setStartState name statusFailed msg m))"

definition start_ready :: "'w env \<Rightarrow> string \<Rightarrow> time \<Rightarrow> 'w mgr \<Rightarrow> 'w mgr" where
  "start_ready E name start m =
     (case time_Now E (setStartState name statusRunning '''' (RecordActivity E name m)) of
        (now, m') \<Rightarrow> snd (on_io (\<lambda>s. ((), RecordStart name True (time_Sub now start) s)) m'))"

text \<open>
  The readiness probe: HTTP when a health path is set, otherwise one TCP connection with a
  timeout of 500 ms. \<open>True\<close> is a nil error.
\<close>

definition readiness :: "'w env \<Rightarrow> ctx \<Rightarrow> ContainerConfig \<Rightarrow> string \<Rightarrow> 'w mgr \<Rightarrow> (bool \<times> 'w mgr) option" where
  "readiness E ctx cfg ip m =
     (if c_HealthPath cfg \<noteq> '''' then
        (case ProbeHTTP E ctx ip (c_TargetPort cfg) (c_HealthPath cfg) (mg_io m) of
           None \<Rightarrow> None
         | Some (err, s) \<Rightarrow> Some (err = None, m\<lparr>mg_io := s\<rparr>))
      else
        (let addr = ip @ '':'' @ c_TargetPort cfg in
         case on_io (call (DialTimeout E addr (500 * 1000000)) (\<lambda>_. [EvDial addr])) m of
           (err, m') \<Rightarrow> Some (err = None, m')))"

text \<open>The polling loop; \<open>Wait\<close> is the \<open>select\<close> between the context and the ticker.\<close>

partial_function (option) await_ready :: "'w env \<Rightarrow> ctx \<Rightarrow> ContainerConfig \<Rightarrow> string \<Rightarrow> time \<Rightarrow>
    'w mgr \<Rightarrow> (mgr_error option \<times> 'w mgr) option" where
  "await_ready E ctx cfg ip start m =
     (case on_io (call (Wait E ctx (500 * 1000000)) (\<lambda>_. [])) m of
        (CtxDone, m1) \<Rightarrow>
          Some (Some (StartTimedOut (c_Name cfg) (ip @ '':'' @ c_TargetPort cfg)),
                start_failed (c_Name cfg) ''startup timeout exceeded'' m1)
      | (Tick, m1) \<Rightarrow>
          (case on_io (GetContainerStatus E ctx (c_Name cfg)) m1 of
             (status, m2) \<Rightarrow>
               if status = Inr ''exited'' \<or> status = Inr ''dead'' then
                 Some (Some (Crashed (c_Name cfg)),
                       start_failed (c_Name cfg) ''container crashed on boot (see docker logs)'' m2)
               else
                 (case readiness E ctx cfg ip m2 of
                    None \<Rightarrow> None
                  | Some (ready, m3) \<Rightarrow>
                      if ready then Some (None, start_ready E (c_Name cfg) start m3)
                      else await_ready E ctx cfg ip start m3)))"

definition EnsureRunning :: "'w env \<Rightarrow> ctx \<Rightarrow> ContainerConfig \<Rightarrow> 'w mgr \<Rightarrow>
    (mgr_error option \<times> 'w mgr) option" where
  "EnsureRunning E ctx cfg m =
     (case on_io (GetContainerStatus E ctx (c_Name cfg)) (getLock (c_Name cfg) m) of
        (status, m1) \<Rightarrow>
          if status = Inr ''running'' then Some (None, RecordActivity E (c_Name cfg) m1)
          else
            (case time_Now E m1 of (start, m2) \<Rightarrow>
               (case on_io (StartContainer E ctx (c_Name cfg))
                       (setStartState (c_Name cfg) statusStarting '''' m2) of
                  (Some err, m3) \<Rightarrow>
                    Some (Some (StartFailed (c_Name cfg) err),
                          start_failed (c_Name cfg) ''docker start failed'' m3)
                | (None, m3) \<Rightarrow>
                    (case on_io (GetContainerAddress E ctx (c_Name cfg) (c_Network cfg)) m3 of
                       (Inl err, m4) \<Rightarrow>
                         Some (Some (AddrFailed (c_Name cfg) err),
                               start_failed (c_Name cfg) ''cannot find container IP'' m4)
                     | (Inr ip, m4) \<Rightarrow> await_ready E ctx cfg ip start m4))))"

section \<open>What an operation may do\<close>

text \<open>
  \<open>effect A ns ms\<close>: the calls made start exactly \<open>ns\<close> and stop exactly \<open>ms\<close>, in order, and
  outside the names \<open>A\<close> no activity and no start state changes. The set bounds the recorded
  state only; which names \<open>ns\<close> and \<open>ms\<close> may hold is stated separately where it matters. It
  is the contract every operation of the manager is stated with.
\<close>

definition effect :: "string set \<Rightarrow> string list \<Rightarrow> string list \<Rightarrow> 'w mgr \<Rightarrow> 'w mgr \<Rightarrow> bool" where
  "effect A ns ms m m' \<longleftrightarrow>
     (\<exists>es. trace (mg_io m') = trace (mg_io m) @ es \<and> starts es = ns \<and> stop_calls es = ms) \<and>
     (\<forall>n. n \<notin> A \<longrightarrow> lastSeen m' n = lastSeen m n \<and> startStates m' n = startStates m n)"

lemma effect_refl [intro, simp]: "effect A [] [] m m"
  by (simp add: effect_def)

lemma effect_trans:
  assumes "effect A ns ms m m'" and "effect B ns' ms' m' m''"
  shows "effect (A \<union> B) (ns @ ns') (ms @ ms') m m''"
proof -
  from assms obtain es es' where
    "trace (mg_io m') = trace (mg_io m) @ es" "starts es = ns" "stop_calls es = ms"
    "trace (mg_io m'') = trace (mg_io m') @ es'" "starts es' = ns'" "stop_calls es' = ms'"
    by (auto simp: effect_def)
  then have "trace (mg_io m'') = trace (mg_io m) @ (es @ es') \<and>
      starts (es @ es') = ns @ ns' \<and> stop_calls (es @ es') = ms @ ms'" by simp
  then show ?thesis using assms unfolding effect_def by (metis UnCI)
qed

lemma effect_mono: "effect A ns ms m m' \<Longrightarrow> A \<subseteq> B \<Longrightarrow> effect B ns ms m m'"
  by (auto simp: effect_def)

text \<open>The rule that chains the steps of an operation on one set of names.\<close>

lemma effect_seq:
  "effect A ns ms m m' \<Longrightarrow> effect A ns' ms' m' m'' \<Longrightarrow> effect A (ns @ ns') (ms @ ms') m m''"
  using effect_trans [of A ns ms m m' A] by simp

lemma effect_then_silent: "effect A ns ms m m' \<Longrightarrow> effect A [] [] m' m'' \<Longrightarrow> effect A ns ms m m''"
  using effect_seq by fastforce

lemma effect_silent_then: "effect A [] [] m m' \<Longrightarrow> effect A ns ms m' m'' \<Longrightarrow> effect A ns ms m m''"
  using effect_seq by fastforce

lemma on_io_cases:
  assumes "on_io f m = (r, m')"
  obtains s' where "f (mg_io m) = (r, s')" and "m' = m\<lparr>mg_io := s'\<rparr>"
  using assms by (auto simp: on_io_def split: prod.splits)

lemma on_io_frame:
  assumes "on_io f m = (r, m')"
  shows "lastSeen m' = lastSeen m" "startStates m' = startStates m" "locks m' = locks m"
  using assms by (auto elim: on_io_cases)

lemma on_io_snd [simp, frame_simps]:
  "lastSeen (snd (on_io f m)) = lastSeen m" "startStates (snd (on_io f m)) = startStates m"
  "locks (snd (on_io f m)) = locks m"
  by (simp_all add: on_io_def split: prod.split)

text \<open>A call of the Docker client has its contract as a step of the manager.\<close>

lemma effect_quiet:
  assumes "on_io f m = (r, m')" and "quiet (mg_io m) (mg_io m')"
  shows "effect A [] [] m m'"
  using assms on_io_frame [OF assms(1)] by (auto simp: effect_def quiet_def)

lemma effect_status: "on_io (GetContainerStatus E ctx n) m = (r, m') \<Longrightarrow> effect A [] [] m m'"
  by (erule on_io_cases) (auto simp: effect_def dest!: status_op.run_trace)

lemma effect_address: "on_io (GetContainerAddress E ctx n net) m = (r, m') \<Longrightarrow> effect A [] [] m m'"
  by (erule on_io_cases) (auto simp: effect_def dest!: address_op.run_trace)

lemma effect_start: "on_io (StartContainer E ctx n) m = (r, m') \<Longrightarrow> effect A [n] [] m m'"
  by (erule on_io_cases) (auto simp: effect_def dest!: start_op.run_trace)

lemma effect_stop: "on_io (StopContainer E ctx n) m = (r, m') \<Longrightarrow> effect A [] [n] m m'"
  by (erule on_io_cases) (auto simp: effect_def dest!: stop_op.run_trace)

lemma effect_call:
  "on_io (call f ev) m = (r, m') \<Longrightarrow> starts (ev r) = [] \<Longrightarrow> stop_calls (ev r) = [] \<Longrightarrow> effect A [] [] m m'"
  by (erule on_io_cases) (auto simp: effect_def dest!: trace_call)

lemma effect_setStartState: "n \<in> A \<Longrightarrow> effect A [] [] m (setStartState n st msg m)"
  by (auto simp: effect_def setStartState_def)

lemma effect_InitStartState: "n \<in> A \<Longrightarrow> effect A [] [] m (InitStartState n m)"
  by (simp add: InitStartState_def effect_setStartState)

lemma effect_getLock: "effect A [] [] m (getLock n m)"
  by (simp add: effect_def getLock_def)

lemma effect_time_Now: "time_Now E m = (t, m') \<Longrightarrow> effect A [] [] m m'"
  unfolding time_Now_def by (erule effect_call) simp_all

lemma effect_RecordActivity: "n \<in> A \<Longrightarrow> effect A [] [] m (RecordActivity E n m)"
  using effect_time_Now [of E m "fst (time_Now E m)" "snd (time_Now E m)" A]
  by (auto simp: RecordActivity_def effect_def split_beta)

lemma effect_start_failed: "n \<in> A \<Longrightarrow> effect A [] [] m (start_failed n msg m)"
  by (auto simp: effect_def start_failed_def on_io_def setStartState_def RecordStart_def)

lemma effect_start_ready: "n \<in> A \<Longrightarrow> effect A [] [] m (start_ready E n start m)"
proof -
  assume n: "n \<in> A"
  obtain now m1 where t: "time_Now E (setStartState n statusRunning '''' (RecordActivity E n m)) = (now, m1)"
    by (meson surj_pair)
  have "effect A [] [] m1 (snd (on_io (\<lambda>s. ((), RecordStart n True (time_Sub now start) s)) m1))"
    by (auto simp: effect_def on_io_def RecordStart_def)
  then have "effect A [] [] (setStartState n statusRunning '''' (RecordActivity E n m)) (start_ready E n start m)"
    using effect_then_silent [OF effect_time_Now [OF t]] by (simp add: start_ready_def t)
  with effect_RecordActivity [OF n, of m E]
    effect_setStartState [OF n, of "RecordActivity E n m" statusRunning "''''"]
  show ?thesis by (blast intro: effect_then_silent)
qed

lemma effect_readiness: "readiness E ctx cfg ip m = Some (b, m') \<Longrightarrow> effect A [] [] m m'"
proof (cases "c_HealthPath cfg = ''''")
  case True
  assume "readiness E ctx cfg ip m = Some (b, m')"
  with True obtain err where
    "on_io (call (DialTimeout E (ip @ '':'' @ c_TargetPort cfg) (500 * 1000000))
       (\<lambda>_. [EvDial (ip @ '':'' @ c_TargetPort cfg)])) m = (err, m')"
    by (auto simp: readiness_def Let_def split: prod.splits)
  then show ?thesis by (rule effect_call) simp_all
next
  case False
  assume "readiness E ctx cfg ip m = Some (b, m')"
  with False obtain err s where
    p: "ProbeHTTP E ctx ip (c_TargetPort cfg) (c_HealthPath cfg) (mg_io m) = Some (err, s)"
    and m': "m' = m\<lparr>mg_io := s\<rparr>"
    by (auto simp: readiness_def split: option.splits)
  have "quiet (mg_io m) s" using ProbeHTTP_loop_quiet p by (fastforce simp: ProbeHTTP_def)
  then show ?thesis by (auto simp: m' effect_def quiet_def)
qed

lemmas silent_effects = effect_status effect_address effect_call effect_setStartState
  effect_getLock effect_time_Now effect_RecordActivity effect_start_failed effect_start_ready
  effect_readiness effect_InitStartState

lemma effect_then_failed: "effect A ns ms m k \<Longrightarrow> n \<in> A \<Longrightarrow> effect A ns ms m (start_failed n msg k)"
  by (rule effect_then_silent [OF _ effect_start_failed])

lemma effect_then_ready: "effect A ns ms m k \<Longrightarrow> n \<in> A \<Longrightarrow> effect A ns ms m (start_ready E n start k)"
  by (rule effect_then_silent [OF _ effect_start_ready])

text \<open>The fields the bookkeeping leaves or sets.\<close>

lemma setStartState_fields [simp]:
  "lastSeen (setStartState n st msg m) = lastSeen m" "mg_io (setStartState n st msg m) = mg_io m"
  "startStates (setStartState n st msg m) = (startStates m)(n \<mapsto> \<lparr>ss_Status = st, ss_Err = msg\<rparr>)"
  by (simp_all add: setStartState_def)

lemma time_Now_fields:
  assumes "time_Now E m = (t, m')"
  shows "lastSeen m' = lastSeen m" "startStates m' = startStates m"
  using assms by (auto simp: time_Now_def dest: on_io_frame)

lemma RecordActivity_fields [simp]:
  "startStates (RecordActivity E n m) = startStates m"
  "lastSeen (RecordActivity E n m) = (lastSeen m)(n \<mapsto> fst (Now E (world (mg_io m))))"
  by (auto simp: RecordActivity_def time_Now_def on_io_def call_def split: prod.splits)

lemma start_failed_fields [simp]:
  "lastSeen (start_failed n msg m) = lastSeen m"
  "startStates (start_failed n msg m) = (startStates m)(n \<mapsto> \<lparr>ss_Status = statusFailed, ss_Err = msg\<rparr>)"
  by (simp_all add: start_failed_def on_io_def)

lemma start_ready_fields [simp]:
  "startStates (start_ready E n start m) = (startStates m)(n \<mapsto> \<lparr>ss_Status = statusRunning, ss_Err = ''''\<rparr>)"
  "lastSeen (start_ready E n start m) = (lastSeen m)(n \<mapsto> fst (Now E (world (mg_io m))))"
  by (auto simp: start_ready_def time_Now_def split_beta)

section \<open>EnsureRunning\<close>

text \<open>
  The outcome of an attempt: nil with the activity recorded and the state running, or an
  error with the state failed and a message, the activity untouched.
\<close>

definition attempt_ok :: "string \<Rightarrow> 'w mgr \<Rightarrow> mgr_error option \<Rightarrow> 'w mgr \<Rightarrow> bool" where
  "attempt_ok name m r m' \<longleftrightarrow>
     (case r of
        None \<Rightarrow> (\<exists>t. lastSeen m' name = Some t) \<and>
          startStates m' name = Some \<lparr>ss_Status = statusRunning, ss_Err = ''''\<rparr>
      | Some _ \<Rightarrow> lastSeen m' name = lastSeen m name \<and>
          (\<exists>msg. msg \<noteq> '''' \<and> startStates m' name = Some \<lparr>ss_Status = statusFailed, ss_Err = msg\<rparr>))"

lemma on_io_world: "on_io f m = (r, m') \<Longrightarrow> r = fst (f (mg_io m)) \<and> mg_io m' = snd (f (mg_io m))"
  by (auto elim!: on_io_cases)

lemma status_world:
  "on_io (GetContainerStatus E ctx n) m = (r, m') \<Longrightarrow>
     world (mg_io m') = snd (ContainerInspect E ctx n (world (mg_io m)))"
  by (auto simp: GetContainerStatus_def call_def elim!: on_io_cases split: prod.splits sum.splits)

lemma address_world:
  "on_io (GetContainerAddress E ctx n net) m = (r, m') \<Longrightarrow>
     world (mg_io m') = snd (ContainerInspect E ctx n (world (mg_io m)))"
  by (auto simp: GetContainerAddress_def call_def elim!: on_io_cases split: prod.splits sum.splits)

lemma call_mgr_world:
  "on_io (call f ev) m = (r, m') \<Longrightarrow> world (mg_io m') = snd (f (world (mg_io m))) \<and> r = fst (f (world (mg_io m)))"
  by (erule on_io_cases) (auto dest: call_world)

lemma readiness_keeps:
  assumes "polling_keeps E ctx P" and "P (world (mg_io m))" and "readiness E ctx cfg ip m = Some (b, m')"
  shows "P (world (mg_io m'))"
proof (cases "c_HealthPath cfg = ''''")
  case True
  with assms(3) obtain err where
    "on_io (call (DialTimeout E (ip @ '':'' @ c_TargetPort cfg) (500 * 1000000))
       (\<lambda>_. [EvDial (ip @ '':'' @ c_TargetPort cfg)])) m = (err, m')"
    by (auto simp: readiness_def Let_def split: prod.splits)
  from call_mgr_world [OF this] polling_keepsD(5) [OF assms(1,2)] show ?thesis by simp
next
  case False
  with assms(3) obtain err s where
    "ProbeHTTP E ctx ip (c_TargetPort cfg) (c_HealthPath cfg) (mg_io m) = Some (err, s)"
    and m': "m' = m\<lparr>mg_io := s\<rparr>"
    by (auto simp: readiness_def split: option.splits)
  with ProbeHTTP_loop_keeps [OF assms(1,2)] show ?thesis by (fastforce simp: ProbeHTTP_def)
qed

lemma start_failed_world [simp]: "world (mg_io (start_failed n msg m)) = world (mg_io m)"
  by (simp add: start_failed_def on_io_def RecordStart_def)

lemma start_ready_keeps:
  assumes "polling_keeps E ctx P" and "P (world (mg_io m))"
  shows "P (world (mg_io (start_ready E n start m)))"
proof -
  have w: "world (mg_io (snd (time_Now E k))) = snd (Now E (world (mg_io k)))" for k :: "'a mgr"
    by (auto simp: time_Now_def on_io_def call_def split: prod.splits)
  have r: "world (mg_io (RecordActivity E n k)) = snd (Now E (world (mg_io k)))" for k :: "'a mgr"
    using w [of k] by (simp add: RecordActivity_def split_beta)
  show ?thesis
    using polling_keepsD(1) [OF assms(1)] assms(2) w r
    by (simp add: start_ready_def split_beta on_io_def RecordStart_def)
qed

lemma await_ready_spec:
  assumes "await_ready E ctx cfg ip start m = Some r"
  shows "effect {c_Name cfg} [] [] m (snd r) \<and> attempt_ok (c_Name cfg) m (fst r) (snd r) \<and>
    (\<forall>P. polling_keeps E ctx P \<longrightarrow> P (world (mg_io m)) \<longrightarrow> P (world (mg_io (snd r))))"
proof (rule await_ready.raw_induct [where P = "\<lambda>E ctx cfg ip start m r.
    effect {c_Name cfg} [] [] m (snd r) \<and> attempt_ok (c_Name cfg) m (fst r) (snd r) \<and>
    (\<forall>P. polling_keeps E ctx P \<longrightarrow> P (world (mg_io m)) \<longrightarrow> P (world (mg_io (snd r))))", OF _ assms])
  fix f :: "'a env \<Rightarrow> ctx \<Rightarrow> ContainerConfig \<Rightarrow> string \<Rightarrow> time \<Rightarrow> 'a mgr \<Rightarrow> (mgr_error option \<times> 'a mgr) option"
    and E ctx and cfg :: ContainerConfig and ip start m r
  let ?n = "c_Name cfg"
  assume IH: "\<And>E ctx cfg ip start m r. f E ctx cfg ip start m = Some r \<Longrightarrow>
      effect {c_Name cfg} [] [] m (snd r) \<and> attempt_ok (c_Name cfg) m (fst r) (snd r) \<and>
      (\<forall>P. polling_keeps E ctx P \<longrightarrow> P (world (mg_io m)) \<longrightarrow> P (world (mg_io (snd r))))"
    and eq: "(case on_io (call (Wait E ctx (500 * 1000000)) (\<lambda>_. [])) m of
        (CtxDone, m1) \<Rightarrow>
          Some (Some (StartTimedOut ?n (ip @ '':'' @ c_TargetPort cfg)),
                start_failed ?n ''startup timeout exceeded'' m1)
      | (Tick, m1) \<Rightarrow>
          (case on_io (GetContainerStatus E ctx ?n) m1 of
             (status, m2) \<Rightarrow>
               if status = Inr ''exited'' \<or> status = Inr ''dead'' then
                 Some (Some (Crashed ?n),
                       start_failed ?n ''container crashed on boot (see docker logs)'' m2)
               else
                 (case readiness E ctx cfg ip m2 of
                    None \<Rightarrow> None
                  | Some (ready, m3) \<Rightarrow>
                      if ready then Some (None, start_ready E ?n start m3)
                      else f E ctx cfg ip start m3))) = Some r"
  obtain w m1 where w: "on_io (call (Wait E ctx (500 * 1000000)) (\<lambda>_. [])) m = (w, m1)" by (meson surj_pair)
  have e1: "effect {?n} [] [] m m1" by (rule effect_call [OF w]) simp_all
  obtain st m2 where st: "on_io (GetContainerStatus E ctx ?n) m1 = (st, m2)" by (meson surj_pair)
  have e2: "effect {?n} [] [] m m2" by (rule effect_then_silent [OF e1 effect_status [OF st]])
  have f2: "lastSeen m1 = lastSeen m" "lastSeen m2 = lastSeen m"
    using w st by (metis on_io_frame(1))+
  have k2: "P (world (mg_io m1)) \<and> P (world (mg_io m2))"
    if "polling_keeps E ctx P" "P (world (mg_io m))" for P
    using polling_keepsD(4) [OF that] polling_keepsD(2) [OF that(1)] call_mgr_world [OF w] status_world [OF st]
    by simp
  show "effect {?n} [] [] m (snd r) \<and> attempt_ok ?n m (fst r) (snd r) \<and>
    (\<forall>P. polling_keeps E ctx P \<longrightarrow> P (world (mg_io m)) \<longrightarrow> P (world (mg_io (snd r))))"
  proof (cases "w = CtxDone \<or> st = Inr ''exited'' \<or> st = Inr ''dead''")
    case True
    have "\<exists>k msg mm. (k = m1 \<or> k = m2) \<and> msg \<noteq> '''' \<and> r = (Some mm, start_failed ?n msg k)"
      using eq w st True by (cases w) (auto split: if_splits)
    then obtain k msg mm where k: "k = m1 \<or> k = m2" and r: "msg \<noteq> ''''" "r = (Some mm, start_failed ?n msg k)"
      by blast
    have "P (world (mg_io (snd r)))" if "polling_keeps E ctx P" "P (world (mg_io m))" for P
      using k2 [OF that] k r(2) by auto
    moreover have "effect {?n} [] [] m (snd r) \<and> attempt_ok ?n m (fst r) (snd r)"
      using e1 e2 f2 k r by (auto simp: attempt_ok_def intro: effect_then_failed)
    ultimately show ?thesis by blast
  next
    case False
    then have go: "w = Tick" by (cases w) auto
    with eq w st False obtain ready m3 where rd: "readiness E ctx cfg ip m2 = Some (ready, m3)"
      by (auto split: option.splits)
    have e3: "effect {?n} [] [] m m3" "lastSeen m3 = lastSeen m"
      using effect_then_silent [OF e2 effect_readiness [OF rd]] effect_readiness [OF rd, of "{}"] f2
      by (auto simp: effect_def fun_eq_iff)
    have k3: "P (world (mg_io m3))" if "polling_keeps E ctx P" "P (world (mg_io m))" for P
      using readiness_keeps [OF that(1) _ rd] k2 [OF that] by blast
    show ?thesis
    proof (cases ready)
      case True
      with eq w st rd go False have r: "r = (None, start_ready E ?n start m3)" by auto
      have "P (world (mg_io (start_ready E ?n start m3)))"
        if "polling_keeps E ctx P" "P (world (mg_io m))" for P
        using start_ready_keeps [OF that(1) k3 [OF that]] .
      moreover have "effect {?n} [] [] m (snd r) \<and> attempt_ok ?n m (fst r) (snd r)"
        using e3 r by (simp add: attempt_ok_def effect_then_ready)
      ultimately show ?thesis unfolding r snd_conv fst_conv by blast
    next
      case nr: False
      with eq w st rd go False have "f E ctx cfg ip start m3 = Some r" by auto
      note ih = IH [OF this]
      have "P (world (mg_io (snd r)))" if "polling_keeps E ctx P" "P (world (mg_io m))" for P
        using ih that(1) k3 [OF that] by blast
      moreover have "effect {?n} [] [] m (snd r) \<and> attempt_ok ?n m (fst r) (snd r)"
        using ih e3 by (auto simp: attempt_ok_def split: option.splits intro: effect_then_silent)
      ultimately show ?thesis by blast
    qed
  qed
qed

lemma getLock_fields [simp]:
  "lastSeen (getLock n m) = lastSeen m" "startStates (getLock n m) = startStates m" "mg_io (getLock n m) = mg_io m"
  by (simp_all add: getLock_def)

text \<open>An inspection made on the way from one state to another found the container running.\<close>

definition seen_running :: "string \<Rightarrow> 'w mgr \<Rightarrow> 'w mgr \<Rightarrow> bool" where
  "seen_running n m m' \<longleftrightarrow>
     (\<exists>es. trace (mg_io m') = trace (mg_io m) @ es \<and> EvInspect n (Some ''running'') \<in> set es)"

lemma seen_running_later: "seen_running n m m' \<Longrightarrow> effect A ns ms m' m'' \<Longrightarrow> seen_running n m m''"
  by (fastforce simp: seen_running_def effect_def)

lemma seen_running_earlier: "effect A ns ms m m' \<Longrightarrow> seen_running n m' m'' \<Longrightarrow> seen_running n m m''"
  by (fastforce simp: seen_running_def effect_def)

lemma status_seen_running:
  assumes "on_io (GetContainerStatus E ctx n) m = (Inr ''running'', m')"
  shows "seen_running n m m'"
proof -
  from assms obtain r s' where c: "call (ContainerInspect E ctx n) (\<lambda>r. [EvInspect n (status_seen r)]) (mg_io m) = (r, s')"
    and "case r of Inl err \<Rightarrow> False | Inr info \<Rightarrow> i_Status info = ''running''" and "mg_io m' = s'"
    by (auto simp: GetContainerStatus_def elim!: on_io_cases split: prod.splits sum.splits)
  with trace_call [OF c] show ?thesis
    by (auto simp: seen_running_def status_seen_def split: sum.splits)
qed

text \<open>The status the attempt finds when it begins.\<close>

definition first_status :: "'w env \<Rightarrow> ctx \<Rightarrow> string \<Rightarrow> 'w mgr \<Rightarrow> string + string" where
  "first_status E ctx name m = fst (GetContainerStatus E ctx name (mg_io m))"

lemma EnsureRunning_spec:
  assumes "EnsureRunning E ctx cfg m = Some (r, m')"
  shows "if first_status E ctx (c_Name cfg) m = Inr ''running''
    then r = None \<and> effect {c_Name cfg} [] [] m m' \<and> seen_running (c_Name cfg) m m' \<and>
      startStates m' = startStates m \<and> (\<exists>t. lastSeen m' = (lastSeen m)(c_Name cfg \<mapsto> t))
    else effect {c_Name cfg} [c_Name cfg] [] m m' \<and> attempt_ok (c_Name cfg) m r m'"
proof -
  let ?n = "c_Name cfg"
  obtain st m1 where st: "on_io (GetContainerStatus E ctx ?n) (getLock ?n m) = (st, m1)" by (meson surj_pair)
  have fs: "first_status E ctx ?n m = st"
    using st by (auto simp: first_status_def on_io_def split: prod.splits)
  have e1: "effect {?n} [] [] m m1" by (rule effect_then_silent [OF effect_getLock effect_status [OF st]])
  have f1: "lastSeen m1 = lastSeen m" "startStates m1 = startStates m" using on_io_frame [OF st] by simp_all
  show ?thesis
  proof (cases "st = Inr ''running''")
    case True
    with assms st have "r = None" "m' = RecordActivity E ?n m1" by (auto simp: EnsureRunning_def)
    moreover have "seen_running ?n m m1"
      using status_seen_running [of E ctx ?n "getLock ?n m" m1] st True by (simp add: seen_running_def)
    moreover have "effect {?n} [] [] m1 (RecordActivity E ?n m1)" by (rule effect_RecordActivity) simp
    ultimately show ?thesis
      using True fs e1 f1 by (auto intro: effect_then_silent seen_running_later)
  next
    case False
    obtain start m2 where t: "time_Now E m1 = (start, m2)" by (meson surj_pair)
    let ?m2 = "setStartState ?n statusStarting '''' m2"
    have e2: "effect {?n} [] [] m ?m2"
      by (rule effect_then_silent [OF effect_then_silent [OF e1 effect_time_Now [OF t]] effect_setStartState]) simp
    obtain a m3 where a: "on_io (StartContainer E ctx ?n) ?m2 = (a, m3)" by (meson surj_pair)
    have e3: "effect {?n} [?n] [] m m3" by (rule effect_silent_then [OF e2 effect_start [OF a]])
    obtain b m4 where b: "on_io (GetContainerAddress E ctx ?n (c_Network cfg)) m3 = (b, m4)" by (meson surj_pair)
    have e4: "effect {?n} [?n] [] m m4" by (rule effect_then_silent [OF e3 effect_address [OF b]])
    have f: "lastSeen m3 = lastSeen m" "lastSeen m4 = lastSeen m"
      using f1 on_io_frame [OF a] on_io_frame [OF b] time_Now_fields [OF t] by simp_all
    show ?thesis
    proof (cases "\<exists>ip. a = None \<and> b = Inr ip")
      case True
      then obtain ip where ip: "a = None" "b = Inr ip" by blast
      with assms st t a b False have "await_ready E ctx cfg ip start m4 = Some (r, m')"
        by (simp add: EnsureRunning_def)
      from await_ready_spec [OF this] e4 f False fs show ?thesis
        by (auto simp: attempt_ok_def split: option.splits intro: effect_then_silent)
    next
      case fail: False
      have "\<exists>k msg mm. (k = m3 \<or> k = m4) \<and> msg \<noteq> '''' \<and> r = Some mm \<and> m' = start_failed ?n msg k"
        using assms st t a b False fail
        by (cases a; cases b) (auto simp: EnsureRunning_def)
      with e3 e4 f False fs show ?thesis
        by (auto simp: attempt_ok_def intro: effect_then_failed)
    qed
  qed
qed

text \<open>
  C4 (functional, \<^verbatim>\<open>EnsureRunning\<close>): a container found running is not started and its
  start state is left alone, only its activity is recorded; otherwise exactly one docker
  start of this container is issued, and the call returns either nil with the activity
  recorded and the state running, or an error with the state failed, a message for the
  loading page and the activity untouched. It never stops a container and changes nothing
  recorded of another one.
\<close>

theorem EnsureRunning_outcome:
  assumes "EnsureRunning E ctx cfg m = Some (r, m')"
  shows "if first_status E ctx (c_Name cfg) m = Inr ''running''
    then r = None \<and> effect {c_Name cfg} [] [] m m' \<and> seen_running (c_Name cfg) m m' \<and>
      startStates m' = startStates m \<and> (\<exists>t. lastSeen m' = (lastSeen m)(c_Name cfg \<mapsto> t))
    else effect {c_Name cfg} [c_Name cfg] [] m m' \<and> attempt_ok (c_Name cfg) m r m'"
  using assms by (rule EnsureRunning_spec)

lemma EnsureRunning_outcome_witness:
  "\<exists>m'. EnsureRunning sim_env CtxRoot (mk_ctr ''db'' '''' []) (NewContainerManager ([], 0)) = Some (None, m') \<and>
     effect {''db''} [''db''] [] (NewContainerManager ([], 0)) m' \<and>
     startStates m' ''db'' = Some \<lparr>ss_Status = ''running'', ss_Err = ''''\<rparr>"
proof -
  let ?m = "NewContainerManager ([], 0) :: (string list \<times> nat) mgr"
  obtain r m' where e: "EnsureRunning sim_env CtxRoot (mk_ctr ''db'' '''' []) ?m = Some (r, m')"
    and r: "r = None"
    by (simp add: EnsureRunning_def docker_ops on_io_def call_def getLock_def setStartState_def
        NewContainerManager_def time_Now_def container_address_def await_ready.simps readiness_def)
  from EnsureRunning_outcome [OF e]
  have "effect {''db''} [''db''] [] ?m m' \<and> attempt_ok ''db'' ?m r m'"
    by (simp add: first_status_def docker_ops call_def NewContainerManager_def)
  with e r show ?thesis by (auto simp: attempt_ok_def status_defs)
qed

section \<open>When an attempt returns\<close>

lemma readiness_returns: "ctx_expires E ctx mu \<Longrightarrow> \<exists>b m'. readiness E ctx cfg ip m = Some (b, m')"
  using ProbeHTTP_loop_returns [of E ctx mu "''http://'' @ ip @ '':'' @ c_TargetPort cfg @ c_HealthPath cfg" "mg_io m"]
  by (auto simp: readiness_def ProbeHTTP_def Let_def split: prod.splits option.splits)

text \<open>One turn of the polling loop: it ends, or goes on from a state nearer the deadline.\<close>

lemma await_ready_turn:
  fixes m :: "'w mgr"
  obtains (ends) r where "await_ready E ctx cfg ip start m = Some r"
    | (hangs) m2 :: "'w mgr" where "await_ready E ctx cfg ip start m = None" and "readiness E ctx cfg ip m2 = None"
    | (again) m1 m2 m3 :: "'w mgr" where "await_ready E ctx cfg ip start m = await_ready E ctx cfg ip start m3"
        and "Wait E ctx (500 * 1000000) (world (mg_io m)) = (Tick, world (mg_io m1))"
        and "world (mg_io m2) = snd (ContainerInspect E ctx (c_Name cfg) (world (mg_io m1)))"
        and "readiness E ctx cfg ip m2 = Some (False, m3)"
proof -
  let ?n = "c_Name cfg"
  obtain w m1 where w: "on_io (call (Wait E ctx (500 * 1000000)) (\<lambda>_. [])) m = (w, m1)" by (meson surj_pair)
  obtain st m2 where st: "on_io (GetContainerStatus E ctx ?n) m1 = (st, m2)" by (meson surj_pair)
  have step: "w = Tick \<Longrightarrow> Wait E ctx (500 * 1000000) (world (mg_io m)) = (Tick, world (mg_io m1))"
    using call_mgr_world [OF w] by (metis prod.collapse)
  show thesis
  proof (cases "await_ready E ctx cfg ip start m")
    case None
    with w st have "w = Tick" "\<not> (st = Inr ''exited'' \<or> st = Inr ''dead'')"
      by (auto simp: await_ready.simps [of E ctx cfg ip start m] split: wake.splits if_splits)
    with w st None show thesis
      using hangs [of m2] again [of _ m1 m2] step status_world [OF st]
      by (auto simp: await_ready.simps [of E ctx cfg ip start m] split: option.splits if_splits)
  qed (rule ends)
qed

lemma await_ready_returns:
  assumes "ctx_expires E ctx mu"
  shows "\<exists>r. await_ready E ctx cfg ip start m = Some r"
proof (induction "mu (world (mg_io m))" arbitrary: m rule: less_induct)
  case less
  show ?case
  proof (cases rule: await_ready_turn [of E ctx cfg ip start m])
    case (hangs m2)
    with readiness_returns [OF assms, of cfg ip m2] show ?thesis by auto
  next
    case (again m1 m2 m3)
    let ?k = "mu (world (mg_io m2))"
    have "mu (world (mg_io m3)) \<le> ?k"
      using assms by (intro readiness_keeps [of E ctx "\<lambda>w. mu w \<le> ?k", OF _ _ again(4)]) (auto simp: ctx_expires_def)
    moreover have "?k \<le> mu (world (mg_io m1))" using again(3) ctx_expires_step(2) [OF assms] by simp
    moreover have "mu (world (mg_io m1)) < mu (world (mg_io m))"
      using ctx_expires_step(6) [OF assms again(2)] .
    ultimately have "mu (world (mg_io m3)) < mu (world (mg_io m))" by linarith
    from less [OF this] again(1) show ?thesis by simp
  qed simp
qed

lemma EnsureRunning_returns:
  assumes "ctx_expires E ctx mu"
  shows "\<exists>r. EnsureRunning E ctx cfg m = Some r"
  using await_ready_returns [OF assms]
  by (auto simp: EnsureRunning_def split: prod.split sum.split option.split)

text \<open>
  What an attempt that returned nil means: the container was started and is recorded as
  running, or it was not started because an inspection found it running.
\<close>

definition ensured :: "string list \<Rightarrow> string \<Rightarrow> 'w mgr \<Rightarrow> 'w mgr \<Rightarrow> bool" where
  "ensured ns n m m' \<longleftrightarrow>
     (if n \<in> set ns then startStates m' n = Some \<lparr>ss_Status = statusRunning, ss_Err = ''''\<rparr>
      else seen_running n m m')"

lemma ensured_later: "ensured ns n m m' \<Longrightarrow> effect A ks ms m' m'' \<Longrightarrow> n \<notin> A \<Longrightarrow> ensured ns n m m''"
  by (auto simp: ensured_def intro: seen_running_later split: if_splits) (simp add: effect_def)

lemma ensured_earlier: "effect A ks ms m m' \<Longrightarrow> ensured ns n m' m'' \<Longrightarrow> ensured ns n m m''"
  by (auto simp: ensured_def intro: seen_running_earlier split: if_splits)

lemma effect_EnsureRunning:
  assumes "EnsureRunning E ctx cfg m = Some (r, m')"
  shows "\<exists>ns. (ns = [] \<or> ns = [c_Name cfg]) \<and> effect {c_Name cfg} ns [] m m' \<and>
    (r = None \<longrightarrow> ensured ns (c_Name cfg) m m')"
proof (cases "first_status E ctx (c_Name cfg) m = Inr ''running''")
  case True
  with EnsureRunning_spec [OF assms] show ?thesis by (auto simp: ensured_def)
next
  case False
  with EnsureRunning_spec [OF assms] show ?thesis
    by (intro exI [of _ "[c_Name cfg]"]) (auto simp: ensured_def attempt_ok_def)
qed

section \<open>Callers that queue on the mutex\<close>

text \<open>
  The mutex of a container admits one caller of \<open>EnsureRunning\<close> after the other: the
  callers run in the order they get it, each under its own context.
\<close>

fun run_callers :: "'w env \<Rightarrow> ContainerConfig \<Rightarrow> ctx list \<Rightarrow> 'w mgr \<Rightarrow>
    (mgr_error option list \<times> 'w mgr) option" where
  "run_callers E cfg [] m = Some ([], m)"
| "run_callers E cfg (ctx # ctxs) m =
     (case EnsureRunning E ctx cfg m of
        None \<Rightarrow> None
      | Some (r, m1) \<Rightarrow>
          (case run_callers E cfg ctxs m1 of
             None \<Rightarrow> None
           | Some (rs, m2) \<Rightarrow> Some (r # rs, m2)))"

text \<open>
  What the daemon promises of a container that stays up: \<open>up\<close> holds once a start was
  accepted, an inspection then reports it running, and polling does not bring it down.
\<close>

definition daemon_keeps_up :: "'w env \<Rightarrow> ctx \<Rightarrow> string \<Rightarrow> ('w \<Rightarrow> bool) \<Rightarrow> bool" where
  "daemon_keeps_up E ctx name up \<longleftrightarrow>
     polling_keeps E ctx up \<and>
     (\<forall>w w'. ContainerStart E ctx name w = (None, w') \<longrightarrow> up w') \<and>
     (\<forall>w. up w \<longrightarrow> (\<exists>info. fst (ContainerInspect E ctx name w) = Inr info \<and> i_Status info = ''running''))"

lemma EnsureRunning_up:
  assumes d: "daemon_keeps_up E ctx (c_Name cfg) up" and e: "EnsureRunning E ctx cfg m = Some (r, m')"
  shows "\<exists>ns. effect {c_Name cfg} ns [] m m' \<and> (ns = [] \<or> ns = [c_Name cfg]) \<and>
    (up (world (mg_io m)) \<longrightarrow> ns = [] \<and> up (world (mg_io m'))) \<and>
    (ns = [c_Name cfg] \<longrightarrow> up (world (mg_io m')) \<or> (\<exists>err. r = Some (StartFailed (c_Name cfg) err)))"
proof -
  let ?n = "c_Name cfg"
  have keeps: "polling_keeps E ctx up" using d by (simp add: daemon_keeps_up_def)
  obtain st m1 where st: "on_io (GetContainerStatus E ctx ?n) (getLock ?n m) = (st, m1)" by (meson surj_pair)
  have fs: "first_status E ctx ?n m = st"
    using st by (auto simp: first_status_def on_io_def split: prod.splits)
  have w1: "world (mg_io m1) = snd (ContainerInspect E ctx ?n (world (mg_io m)))"
    using status_world [OF st] by simp
  have up_running: "st = Inr ''running''" if "up (world (mg_io m))"
    using d that st by (fastforce simp: daemon_keeps_up_def GetContainerStatus_def on_io_def call_def split: prod.splits)
  show ?thesis
  proof (cases "st = Inr ''running''")
    case True
    with e st have m': "m' = RecordActivity E ?n m1" by (auto simp: EnsureRunning_def)
    have "up (world (mg_io m'))" if "up (world (mg_io m))"
    proof -
      have "up (world (mg_io m1))" unfolding w1 by (rule polling_keepsD(2) [OF keeps that])
      from polling_keepsD(1) [OF keeps this] show ?thesis
        by (auto simp: m' RecordActivity_def time_Now_def on_io_def call_def split: prod.splits)
    qed
    with EnsureRunning_spec [OF e] True fs show ?thesis by (intro exI [of _ "[]"]) auto
  next
    case False
    have eff: "effect {?n} [?n] [] m m'" using EnsureRunning_spec [OF e] False fs by simp
    obtain start m2 where t: "time_Now E m1 = (start, m2)" by (meson surj_pair)
    let ?m2 = "setStartState ?n statusStarting '''' m2"
    obtain a m3 where a: "on_io (StartContainer E ctx ?n) ?m2 = (a, m3)" by (meson surj_pair)
    obtain b m4 where b: "on_io (GetContainerAddress E ctx ?n (c_Network cfg)) m3 = (b, m4)" by (meson surj_pair)
    have "up (world (mg_io m'))" if "a = None"
    proof -
      from a that d have "up (world (mg_io m3))"
        by (auto simp: StartContainer_def on_io_def call_def daemon_keeps_up_def split: prod.splits)
      then have u4: "up (world (mg_io m4))"
        using polling_keepsD(2) [OF keeps] address_world [OF b] by simp
      show ?thesis
      proof (cases b)
        case (Inl err)
        with e st t a b False that have "m' = start_failed ?n ''cannot find container IP'' m4"
          by (simp add: EnsureRunning_def)
        with u4 show ?thesis by simp
      next
        case (Inr ip)
        with e st t a b False that have "await_ready E ctx cfg ip start m4 = Some (r, m')"
          by (simp add: EnsureRunning_def)
        from await_ready_spec [OF this] keeps u4 show ?thesis by auto
      qed
    qed
    moreover have "\<exists>err. r = Some (StartFailed ?n err)" if "a = Some err" for err
      using e st t a False that by (auto simp: EnsureRunning_def)
    ultimately show ?thesis
      using eff False up_running by (intro exI [of _ "[?n]"]) (cases a; auto)
  qed
qed

lemma run_callers_spec:
  assumes "\<And>ctx. ctx \<in> set ctxs \<Longrightarrow> daemon_keeps_up E ctx (c_Name cfg) up"
    and "run_callers E cfg ctxs m = Some (rs, m')"
  shows "\<exists>k. effect {c_Name cfg} (replicate k (c_Name cfg)) [] m m' \<and>
    k \<le> (if up (world (mg_io m)) then 0
         else Suc (length (filter (\<lambda>r. \<exists>err. r = Some (StartFailed (c_Name cfg) err)) rs)))"
  using assms
proof (induction ctxs arbitrary: m rs)
  case Nil
  then show ?case by (intro exI [of _ 0]) auto
next
  case (Cons ctx ctxs)
  let ?n = "c_Name cfg" and ?bad = "\<lambda>r. \<exists>err. r = Some (StartFailed (c_Name cfg) err)"
  from Cons.prems(2) obtain r m1 rs1 where e: "EnsureRunning E ctx cfg m = Some (r, m1)"
    and rest: "run_callers E cfg ctxs m1 = Some (rs1, m')" and rs: "rs = r # rs1"
    by (auto split: option.splits)
  from EnsureRunning_up [OF Cons.prems(1) e] obtain ns where e1: "effect {?n} ns [] m m1"
    and ns: "ns = [] \<or> ns = [?n]" and up: "up (world (mg_io m)) \<longrightarrow> ns = [] \<and> up (world (mg_io m1))"
    and bad: "ns = [?n] \<longrightarrow> up (world (mg_io m1)) \<or> ?bad r" by auto
  from Cons.IH [OF _ rest] Cons.prems(1) obtain k where e2: "effect {?n} (replicate k ?n) [] m1 m'"
    and k: "k \<le> (if up (world (mg_io m1)) then 0 else Suc (length (filter ?bad rs1)))" by auto
  have "ns @ replicate k ?n = replicate (length ns + k) ?n" using ns by auto
  with effect_seq [OF e1 e2] have "effect {?n} (replicate (length ns + k) ?n) [] m m'" by simp
  moreover have "length ns + k \<le> (if up (world (mg_io m)) then 0 else Suc (length (filter ?bad rs)))"
    using k ns up bad by (auto simp: rs split: if_splits)
  ultimately show ?case by blast
qed

text \<open>
  \<^verbatim>\<open>EnsureRunning\<close>: however many callers ask for the same container, once the
  daemon has accepted a start no later caller issues another one: the docker starts are at
  most one more than the starts the daemon refused, and none when the container is up.
\<close>

theorem callers_start_once:
  assumes "\<And>ctx. ctx \<in> set ctxs \<Longrightarrow> daemon_keeps_up E ctx (c_Name cfg) up"
    and "run_callers E cfg ctxs m = Some (rs, m')"
  shows "\<exists>k. effect {c_Name cfg} (replicate k (c_Name cfg)) [] m m' \<and>
    k \<le> (if up (world (mg_io m)) then 0
         else Suc (length (filter (\<lambda>r. \<exists>err. r = Some (StartFailed (c_Name cfg) err)) rs)))"
  using assms by (rule run_callers_spec)

lemma callers_start_once_witness:
  "\<exists>rs m' k. run_callers sim_env (mk_ctr ''db'' '''' []) [CtxRoot, CtxRequest] (NewContainerManager ([], 0)) = Some (rs, m') \<and>
     effect {''db''} (replicate k ''db'') [] (NewContainerManager ([], 0)) m' \<and> k \<le> 1"
proof -
  let ?m = "NewContainerManager ([], 0) :: (string list \<times> nat) mgr"
  obtain m1 where e1: "EnsureRunning sim_env CtxRoot (mk_ctr ''db'' '''' []) ?m = Some (None, m1)"
    and m1: "\<exists>k. m1 = start_ready sim_env ''db'' 0 k \<and> world (mg_io k) = ([''db''], 1)"
    by (force simp add: EnsureRunning_def docker_ops on_io_def call_def getLock_def setStartState_def
        NewContainerManager_def time_Now_def container_address_def await_ready.simps readiness_def)
  from m1 have w: "world (mg_io m1) = ([''db''], 1)"
    by (auto simp: start_ready_def time_Now_def on_io_def call_def RecordStart_def RecordActivity_def split_beta)
  obtain m2 where e2: "EnsureRunning sim_env CtxRequest (mk_ctr ''db'' '''' []) m1 = Some (None, m2)"
    by (simp add: EnsureRunning_def docker_ops on_io_def call_def w)
  define rs m' where "rs = [None, None :: mgr_error option]" and "m' = m2"
  then have e: "run_callers sim_env (mk_ctr ''db'' '''' []) [CtxRoot, CtxRequest] ?m = Some (rs, m')"
    and rs: "rs = [None, None]" using e1 e2 by simp_all
  have "daemon_keeps_up sim_env c ''db'' (\<lambda>w. ''db'' \<in> set (fst w))" for c
    by (auto simp: daemon_keeps_up_def polling_keeps_def)
  with callers_start_once [of "[CtxRoot, CtxRequest]" sim_env "mk_ctr ''db'' '''' []" "\<lambda>w. ''db'' \<in> set (fst w)", OF _ e]
  show ?thesis using e by (auto simp: rs NewContainerManager_def)
qed

section \<open>Activity\<close>

text \<open>The roots whose chain can be computed.\<close>

definition sortable :: "ContainerConfig list \<Rightarrow> string list \<Rightarrow> string set" where
  "sortable cs roots = {r \<in> set roots. case TopologicalSort r cs of Inl _ \<Rightarrow> False | Inr _ \<Rightarrow> True}"

lemma sortable_Nil [simp]: "sortable cs [] = {}"
  by (simp add: sortable_def)

lemma sortable_Inl [simp]: "TopologicalSort r cs = Inl e \<Longrightarrow> sortable cs (r # rs) = sortable cs rs"
  by (auto simp: sortable_def split: sum.splits)

lemma sortable_Inr [simp]: "TopologicalSort r cs = Inr ord \<Longrightarrow> sortable cs (r # rs) = insert r (sortable cs rs)"
  by (auto simp: sortable_def split: sum.splits)

lemma TopologicalSort_set: "TopologicalSort r cs = Inr ord \<Longrightarrow> set ord = (dep_rel cs)\<^sup>* `` {r}"
  using TopologicalSort_spec by blast

lemma chain_roots_set:
  assumes "chain_roots E cs roots acc m = (upd, m')"
  shows "set upd = set acc \<union> (dep_rel cs)\<^sup>* `` sortable cs roots"
  using assms
proof (induction E cs roots acc m arbitrary: upd m' rule: chain_roots.induct)
  case (1 E cs acc m)
  then show ?case by simp
next
  case (2 E cs root roots acc m)
  show ?case
  proof (cases "TopologicalSort root cs")
    case (Inl err)
    with 2(3) 2(1) [OF Inl] show ?thesis by simp
  next
    case (Inr chain)
    with 2(3) have "chain_roots E cs roots (acc @ chain) m = (upd, m')" by simp
    from 2(2) [OF Inr this] show ?thesis
      using TopologicalSort_set [OF Inr] by (simp add: Inr Image_Un [symmetric] Un_assoc)
  qed
qed

lemma chain_roots_effect:
  assumes "chain_roots E cs roots acc m = (upd, m')"
  shows "effect (set roots) [] [] m m' \<and> startStates m' = startStates m"
  using assms
proof (induction E cs roots acc m arbitrary: upd m' rule: chain_roots.induct)
  case (1 E cs acc m)
  then show ?case by simp
next
  case (2 E cs root roots acc m)
  show ?case
  proof (cases "TopologicalSort root cs")
    case (Inl err)
    let ?m1 = "RecordActivity E root m"
    from 2(3) Inl have "chain_roots E cs roots acc ?m1 = (upd, m')" by simp
    note ih = 2(1) [OF Inl this]
    have "effect {root} [] [] m ?m1" by (rule effect_RecordActivity) simp
    with ih effect_trans [of "{root}" "[]" "[]" m ?m1 "set roots"] show ?thesis by simp
  next
    case (Inr chain)
    with 2(3) have "chain_roots E cs roots (acc @ chain) m = (upd, m')" by simp
    from 2(2) [OF Inr this] show ?thesis by (auto elim: effect_mono)
  qed
qed

lemma chain_roots_seen:
  assumes "chain_roots E cs roots acc m = (upd, m')" and "r \<in> set roots" and "r \<notin> sortable cs roots"
  shows "\<exists>t. lastSeen m' r = Some t"
  using assms
proof (induction E cs roots acc m arbitrary: upd m' rule: chain_roots.induct)
  case (1 E cs acc m)
  then show ?case by simp
next
  case (2 E cs root roots acc m)
  show ?case
  proof (cases "TopologicalSort root cs")
    case (Inl err)
    with 2(3) have c: "chain_roots E cs roots acc (RecordActivity E root m) = (upd, m')" by simp
    show ?thesis
    proof (cases "r \<in> set roots")
      case True
      with 2(1) [OF Inl c] 2(5) Inl show ?thesis by simp
    next
      case False
      with chain_roots_effect [OF c] 2(4) show ?thesis by (simp add: effect_def)
    qed
  next
    case (Inr chain)
    with 2(3) have "chain_roots E cs roots (acc @ chain) m = (upd, m')" by simp
    from 2(2) [OF Inr this] 2(4,5) Inr show ?thesis by simp
  qed
qed

lemma foldl_upd: "foldl (\<lambda>seen name. seen(name \<mapsto> t)) f xs n = (if n \<in> set xs then Some t else f n)"
  by (induction xs arbitrary: f) auto

lemma RecordActivityChain_spec:
  fixes m :: "'w mgr"
  shows "effect ((dep_rel cs)\<^sup>* `` sortable cs roots \<union> set roots) [] [] m (RecordActivityChain E roots cs m) \<and>
    startStates (RecordActivityChain E roots cs m) = startStates m \<and>
    (\<forall>n \<in> (dep_rel cs)\<^sup>* `` sortable cs roots.
       lastSeen (RecordActivityChain E roots cs m) n = Some (fst (Now E (world (mg_io m))))) \<and>
    (\<forall>r \<in> set roots. \<exists>t. lastSeen (RecordActivityChain E roots cs m) r = Some t)"
proof -
  let ?now = "fst (Now E (world (mg_io m)))"
  obtain m1 where t: "time_Now E m = (?now, m1)"
    by (simp add: time_Now_def on_io_def call_def split_beta)
  obtain upd m2 where c: "chain_roots E cs roots [] m1 = (upd, m2)" by (meson surj_pair)
  let ?m' = "RecordActivityChain E roots cs m"
  have m': "?m' = m2\<lparr>lastSeen := foldl (\<lambda>seen name. seen(name \<mapsto> ?now)) (lastSeen m2) upd\<rparr>"
    using t c by (auto simp: RecordActivityChain_def)
  note spec = chain_roots_effect [OF c]
  have upd: "set upd = (dep_rel cs)\<^sup>* `` sortable cs roots" using chain_roots_set [OF c] by simp
  have "effect (set roots) [] [] m m2"
    using effect_then_silent [OF effect_time_Now [OF t]] spec by blast
  then have "effect ((dep_rel cs)\<^sup>* `` sortable cs roots \<union> set roots) [] [] m ?m'"
    using upd by (auto simp: m' effect_def foldl_upd)
  moreover have "\<exists>t. lastSeen ?m' r = Some t" if "r \<in> set roots" for r
  proof (cases "r \<in> sortable cs roots")
    case True
    then have "r \<in> (dep_rel cs)\<^sup>* `` sortable cs roots" by blast
    then show ?thesis by (simp add: m' foldl_upd upd)
  next
    case False
    with chain_roots_seen [OF c that] show ?thesis by (auto simp: m' foldl_upd)
  qed
  moreover have "startStates ?m' = startStates m"
    using spec time_Now_fields [OF t] by (simp add: m')
  ultimately show ?thesis by (simp add: m' foldl_upd upd)
qed

text \<open>
  \<^verbatim>\<open>RecordActivityChain\<close>: the instant read is recorded for every root that
  can be sorted and for all it transitively depends on; a root that cannot be sorted is
  still recorded; nothing else is, and no container is started or stopped.
\<close>

theorem RecordActivityChain_refreshes:
  fixes m :: "'w mgr"
  shows "effect ((dep_rel cs)\<^sup>* `` sortable cs roots \<union> set roots) [] [] m (RecordActivityChain E roots cs m) \<and>
    startStates (RecordActivityChain E roots cs m) = startStates m \<and>
    (\<forall>n \<in> (dep_rel cs)\<^sup>* `` sortable cs roots.
       lastSeen (RecordActivityChain E roots cs m) n = Some (fst (Now E (world (mg_io m))))) \<and>
    (\<forall>r \<in> set roots. \<exists>t. lastSeen (RecordActivityChain E roots cs m) r = Some t)"
  by (rule RecordActivityChain_spec)

lemma RecordActivityChain_refreshes_witness:
  "lastSeen (RecordActivityChain sim_env [''app''] chain_cs (NewContainerManager ([], 7))) ''db'' = Some (7 * second)"
proof -
  let ?m = "NewContainerManager ([], 7) :: (string list \<times> nat) mgr"
  have t: "TopologicalSort ''app'' chain_cs = Inr [''db'', ''api'', ''app'']"
    by (simp add: TopologicalSort_def chain_cs_def container_map_def topo_visit.simps(2))
  note all = TopologicalSort_spec [OF t, THEN conjunct2, THEN conjunct1]
  have "''db'' \<in> (dep_rel chain_cs)\<^sup>* `` {''app''}" unfolding all [symmetric] by simp
  moreover have "sortable chain_cs [''app''] = {''app''}" using t by (auto simp: sortable_def)
  ultimately have "''db'' \<in> (dep_rel chain_cs)\<^sup>* `` sortable chain_cs [''app'']" by simp
  with RecordActivityChain_refreshes [of chain_cs "[''app'']" ?m sim_env]
  show ?thesis by (simp add: NewContainerManager_def)
qed

end
