(* ===== verification/Awakening.thy ===== *)
theory Awakening
  imports Manager
begin

text \<open>
  Starting a container's dependencies and a group's members: \<^verbatim>\<open>EnsureDepsRunning\<close> and
  \<^verbatim>\<open>EnsureGroupRunning\<close> of \<^verbatim>\<open>gateway/manager.go\<close>, when an awakening returns, and what
  callers that queue on a container's mutex do.
\<close>

section \<open>Starting dependencies and groups\<close>

fun ensure_deps :: "'w env \<Rightarrow> ctx \<Rightarrow> string \<Rightarrow> ContainerConfig list \<Rightarrow> string list \<Rightarrow> 'w mgr \<Rightarrow>
    (mgr_error option \<times> 'w mgr) option" where
  "ensure_deps E ctx target allContainers [] m = Some (None, m)"
| "ensure_deps E ctx target allContainers (name # order) m =
     (if name = target then ensure_deps E ctx target allContainers order m
      else case container_map allContainers name of
             None \<Rightarrow> Some (Some (DepMissing name), m)
           | Some depCfg \<Rightarrow>
               (case EnsureRunning E ctx depCfg (InitStartState name m) of
                  None \<Rightarrow> None
                | Some (Some err, m') \<Rightarrow> Some (Some (DepFailed name err), m')
                | Some (None, m') \<Rightarrow> ensure_deps E ctx target allContainers order m'))"

definition EnsureDepsRunning :: "'w env \<Rightarrow> ctx \<Rightarrow> string \<Rightarrow> ContainerConfig list \<Rightarrow> 'w mgr \<Rightarrow>
    (mgr_error option \<times> 'w mgr) option" where
  "EnsureDepsRunning E ctx target allContainers m =
     (case TopologicalSort target allContainers of
        Inl err \<Rightarrow> Some (Some (DepResolution target err), m)
      | Inr order \<Rightarrow> ensure_deps E ctx target allContainers order m)"

fun group_deps :: "'w env \<Rightarrow> ctx \<Rightarrow> string \<Rightarrow> ContainerConfig list \<Rightarrow> string list \<Rightarrow> 'w mgr \<Rightarrow>
    (mgr_error option \<times> 'w mgr) option" where
  "group_deps E ctx gname allContainers [] m = Some (None, m)"
| "group_deps E ctx gname allContainers (memberName # members) m =
     (case EnsureDepsRunning E ctx memberName allContainers m of
        None \<Rightarrow> None
      | Some (Some err, m') \<Rightarrow> Some (Some (GroupDeps gname err), m')
      | Some (None, m') \<Rightarrow> group_deps E ctx gname allContainers members m')"

fun group_members :: "'w env \<Rightarrow> ctx \<Rightarrow> string \<Rightarrow> ContainerConfig list \<Rightarrow> string list \<Rightarrow> 'w mgr \<Rightarrow>
    (mgr_error option \<times> 'w mgr) option" where
  "group_members E ctx gname allContainers [] m = Some (None, m)"
| "group_members E ctx gname allContainers (memberName # members) m =
     (case container_map allContainers memberName of
        None \<Rightarrow> Some (Some (MemberMissing gname memberName), m)
      | Some memberCfg \<Rightarrow>
          (case EnsureRunning E ctx memberCfg (InitStartState memberName m) of
             None \<Rightarrow> None
           | Some (Some err, m') \<Rightarrow> Some (Some (MemberFailed gname memberName err), m')
           | Some (None, m') \<Rightarrow> group_members E ctx gname allContainers members m'))"

definition EnsureGroupRunning :: "'w env \<Rightarrow> ctx \<Rightarrow> GroupConfig \<Rightarrow> ContainerConfig list \<Rightarrow> 'w mgr \<Rightarrow>
    (mgr_error option \<times> 'w mgr) option" where
  "EnsureGroupRunning E ctx grp allContainers m =
     (case group_deps E ctx (g_Name grp) allContainers (g_Containers grp) m of
        None \<Rightarrow> None
      | Some (Some err, m') \<Rightarrow> Some (Some err, m')
      | Some (None, m') \<Rightarrow> group_members E ctx (g_Name grp) allContainers (g_Containers grp) m')"

section \<open>EnsureDepsRunning\<close>

text \<open>The names an ordered list of dependencies starts: a prefix of it when one fails.\<close>

lemma ensure_deps_spec:
  assumes "ensure_deps E ctx target cs order m = Some (r, m')" and "distinct order"
  shows "\<exists>done rest ns. order = done @ rest \<and> effect (set done - {target}) ns [] m m' \<and>
    subseq ns (filter (\<lambda>n. n \<noteq> target) done) \<and>
    (r = None \<longrightarrow> rest = [] \<and> (\<forall>n \<in> set order - {target}. ensured ns n m m'))"
  using assms
proof (induction order arbitrary: m)
  case Nil
  then show ?case by auto
next
  case (Cons n order)
  show ?case
  proof (cases "n = target")
    case True
    with Cons.prems have "ensure_deps E ctx target cs order m = Some (r, m')" "distinct order" by auto
    from Cons.IH [OF this] obtain ds rest ns where d: "order = ds @ rest"
      "effect (set ds - {target}) ns [] m m'" "subseq ns (filter (\<lambda>n. n \<noteq> target) ds)"
      "r = None \<longrightarrow> rest = [] \<and> (\<forall>n \<in> set order - {target}. ensured ns n m m')" by blast
    with True show ?thesis by (intro exI [of _ "n # ds"] exI [of _ rest] exI [of _ ns]) auto
  next
    case False
    show ?thesis
    proof (cases "container_map cs n")
      case None
      with Cons.prems False have "m' = m" "r \<noteq> None" by auto
      then show ?thesis by (intro exI [of _ "[]"] exI [of _ "n # order"] exI [of _ "[]"]) auto
    next
      case (Some cfg)
      then have cn: "c_Name cfg = n" by (auto dest: container_map_Some)
      from Cons.prems False Some obtain r1 m1 where er: "EnsureRunning E ctx cfg (InitStartState n m) = Some (r1, m1)"
        by (auto split: option.splits)
      have init: "effect {n} [] [] m (InitStartState n m)" by (rule effect_InitStartState) simp
      from effect_EnsureRunning [OF er] cn obtain ns1 where ns1: "ns1 = [] \<or> ns1 = [n]"
        and "effect {n} ns1 [] (InitStartState n m) m1"
        and "r1 = None \<longrightarrow> ensured ns1 n (InitStartState n m) m1" by auto
      then have e1: "effect {n} ns1 [] m m1" and en: "r1 = None \<Longrightarrow> ensured ns1 n m m1"
        using effect_silent_then [OF init] ensured_earlier [OF init] by blast+
      show ?thesis
      proof (cases r1)
        case (Some err)
        with Cons.prems False \<open>container_map cs n = Some cfg\<close> er have "m' = m1" "r \<noteq> None" by auto
        with e1 ns1 False show ?thesis
          by (intro exI [of _ "[n]"] exI [of _ order] exI [of _ ns1]) auto
      next
        case None
        with Cons.prems False \<open>container_map cs n = Some cfg\<close> er
        have "ensure_deps E ctx target cs order m1 = Some (r, m')" "distinct order" by auto
        from Cons.IH [OF this] obtain ds rest ns where d: "order = ds @ rest"
          "effect (set ds - {target}) ns [] m1 m'" "subseq ns (filter (\<lambda>n. n \<noteq> target) ds)"
          "r = None \<longrightarrow> rest = [] \<and> (\<forall>n \<in> set order - {target}. ensured ns n m1 m')" by blast
        have nds: "n \<notin> set ds" "n \<notin> set ns" using d(1,3) Cons.prems(2) by (auto dest: subseq_set)
        have e: "effect (set (n # ds) - {target}) (ns1 @ ns) [] m m'"
          using effect_trans [OF e1 d(2)] False by (auto elim: effect_mono)
        have en1: "ensured (ns1 @ ns) n m m'"
          using ensured_later [OF en [OF None] d(2)] nds by (simp add: ensured_def)
        have "ensured (ns1 @ ns) k m m'" if "r = None" "k \<in> set order - {target}" for k
        proof -
          have "k \<noteq> n" using that(2) Cons.prems(2) by auto
          with that d(4) ns1 ensured_earlier [OF e1, of ns k m'] show ?thesis by (auto simp: ensured_def)
        qed
        with en1 e d ns1 False show ?thesis
          by (intro exI [of _ "n # ds"] exI [of _ rest] exI [of _ "ns1 @ ns"]) auto
      qed
    qed
  qed
qed

lemma EnsureDepsRunning_spec:
  assumes "EnsureDepsRunning E ctx target cs m = Some (r, m')"
  shows "\<exists>ns. effect ((dep_rel cs)\<^sup>+ `` {target} - {target}) ns [] m m' \<and>
    set ns \<subseteq> (dep_rel cs)\<^sup>+ `` {target} - {target} \<and> distinct ns \<and> target \<notin> set ns \<and>
    sorted_wrt (\<lambda>a b. b \<notin> set (deps_of cs a)) ns \<and>
    (r = None \<longrightarrow> (\<forall>d \<in> (dep_rel cs)\<^sup>+ `` {target} - {target}. ensured ns d m m'))"
proof (cases "TopologicalSort target cs")
  case (Inl err)
  with assms have "m' = m" "r \<noteq> None" by (auto simp: EnsureDepsRunning_def)
  then show ?thesis by (intro exI [of _ "[]"]) auto
next
  case (Inr order)
  with assms have ed: "ensure_deps E ctx target cs order m = Some (r, m')" by (simp add: EnsureDepsRunning_def)
  note spec = TopologicalSort_spec [OF Inr]
  then have dist: "distinct order" and all: "set order = (dep_rel cs)\<^sup>* `` {target}" by blast+
  have chain: "set order - {target} = (dep_rel cs)\<^sup>+ `` {target} - {target}"
    unfolding all by (auto simp: rtrancl_eq_or_trancl)
  have ord: "sorted_wrt (\<lambda>a b. b \<notin> set (deps_of cs a)) order"
    using start_sort.sort_start_order [of "(target, cs)" order] Inr by (simp add: topo_sort_opt_def)
  from ensure_deps_spec [OF ed dist] obtain ds rest ns where d: "order = ds @ rest"
    "effect (set ds - {target}) ns [] m m'" "subseq ns (filter (\<lambda>n. n \<noteq> target) ds)"
    "r = None \<longrightarrow> rest = [] \<and> (\<forall>n \<in> set order - {target}. ensured ns n m m')" by blast
  have "subseq ns ds" using d(3) subseq_filter_left by (rule subseq_order.order_trans)
  then have sub: "subseq ns order" using d(1) by (simp add: subseq_rev_drop_many)
  have e: "effect ((dep_rel cs)\<^sup>+ `` {target} - {target}) ns [] m m'"
    using d(2) by (rule effect_mono) (use d(1) chain in auto)
  have "set ns \<subseteq> set ds - {target}" using d(3) by (auto dest: subseq_set)
  then have "set ns \<subseteq> (dep_rel cs)\<^sup>+ `` {target} - {target}" "target \<notin> set ns" using d(1) chain by auto
  moreover have "distinct ns" using subseq_sorted_wrt [OF sub] dist by (simp add: distinct_sorted_wrt)
  moreover note subseq_sorted_wrt [OF sub ord]
  moreover have "ensured ns d m m'" if "r = None" "d \<in> (dep_rel cs)\<^sup>+ `` {target} - {target}" for d
    using d(4) that chain by blast
  moreover note e
  ultimately show ?thesis by (intro exI [of _ ns] conjI ballI impI)
qed

text \<open>
  C6 (functional, \<^verbatim>\<open>EnsureDepsRunning\<close>): only dependencies of the target are started,
  directly or through other dependencies, in an order in which each comes after its own dependencies and at most once each;
  the target itself is never started here, no container is stopped, nothing recorded of the
  target or of a container outside its chain changes; and when nil is returned every
  dependency was started and is recorded as running, or was found running.
\<close>

theorem EnsureDepsRunning_order:
  assumes "EnsureDepsRunning E ctx target cs m = Some (r, m')"
  shows "\<exists>ns. effect ((dep_rel cs)\<^sup>+ `` {target} - {target}) ns [] m m' \<and>
    set ns \<subseteq> (dep_rel cs)\<^sup>+ `` {target} - {target} \<and> distinct ns \<and> target \<notin> set ns \<and>
    sorted_wrt (\<lambda>a b. b \<notin> set (deps_of cs a)) ns \<and>
    (r = None \<longrightarrow> (\<forall>d \<in> (dep_rel cs)\<^sup>+ `` {target} - {target}. ensured ns d m m'))"
  using assms by (rule EnsureDepsRunning_spec)

section \<open>EnsureGroupRunning\<close>

text \<open>Started on the way, or found running.\<close>

definition reached :: "string list \<Rightarrow> string \<Rightarrow> 'w mgr \<Rightarrow> 'w mgr \<Rightarrow> bool" where
  "reached ns n m m' \<longleftrightarrow> n \<in> set ns \<or> seen_running n m m'"

lemma ensured_reached: "ensured ns n m m' \<Longrightarrow> reached ns n m m'"
  by (auto simp: ensured_def reached_def split: if_splits)

lemma reached_later: "reached ns n m m' \<Longrightarrow> effect A ks ms m' m'' \<Longrightarrow> reached (ns @ ks) n m m''"
  by (auto simp: reached_def intro: seen_running_later)

lemma reached_earlier: "effect A ks ms m m' \<Longrightarrow> reached ns n m' m'' \<Longrightarrow> reached (ks @ ns) n m m''"
  by (auto simp: reached_def intro: seen_running_earlier)

text \<open>What may be started for one member: its dependencies, each once, dependencies first.\<close>

definition dep_starts :: "ContainerConfig list \<Rightarrow> string \<Rightarrow> string list \<Rightarrow> bool" where
  "dep_starts cs t ds \<longleftrightarrow> set ds \<subseteq> (dep_rel cs)\<^sup>+ `` {t} - {t} \<and> distinct ds \<and>
     sorted_wrt (\<lambda>a b. b \<notin> set (deps_of cs a)) ds"

lemma group_deps_spec:
  assumes "group_deps E ctx g cs members m = Some (r, m')"
  shows "\<exists>dss. list_all2 (dep_starts cs) (take (length dss) members) dss \<and>
    effect ((dep_rel cs)\<^sup>+ `` set members) (concat dss) [] m m' \<and>
    (r = None \<longrightarrow> length dss = length members \<and>
       (\<forall>t \<in> set members. \<forall>d \<in> (dep_rel cs)\<^sup>+ `` {t} - {t}. reached (concat dss) d m m'))"
  using assms
proof (induction members arbitrary: m)
  case Nil
  then show ?case by (intro exI [of _ "[]"]) auto
next
  case (Cons t members)
  from Cons.prems obtain r1 m1 where e: "EnsureDepsRunning E ctx t cs m = Some (r1, m1)"
    by (auto split: option.splits)
  from EnsureDepsRunning_spec [OF e] obtain ns1 where
    e1: "effect ((dep_rel cs)\<^sup>+ `` {t} - {t}) ns1 [] m m1" and ds1: "dep_starts cs t ns1"
    and r1: "r1 = None \<longrightarrow> (\<forall>d \<in> (dep_rel cs)\<^sup>+ `` {t} - {t}. ensured ns1 d m m1)"
    unfolding dep_starts_def by blast
  have e1': "effect ((dep_rel cs)\<^sup>+ `` set (t # members)) ns1 [] m m1" using e1 by (rule effect_mono) auto
  show ?case
  proof (cases r1)
    case (Some err)
    with Cons.prems e have "r \<noteq> None" "m' = m1" by auto
    with e1' ds1 show ?thesis by (intro exI [of _ "[ns1]"]) auto
  next
    case None
    with Cons.prems e have "group_deps E ctx g cs members m1 = Some (r, m')" by simp
    from Cons.IH [OF this] obtain dss where
      all: "list_all2 (dep_starts cs) (take (length dss) members) dss"
      and e2: "effect ((dep_rel cs)\<^sup>+ `` set members) (concat dss) [] m1 m'"
      and ns: "r = None \<longrightarrow> length dss = length members \<and>
        (\<forall>t \<in> set members. \<forall>d \<in> (dep_rel cs)\<^sup>+ `` {t} - {t}. reached (concat dss) d m1 m')" by blast
    have "effect ((dep_rel cs)\<^sup>+ `` set (t # members)) (concat dss) [] m1 m'" using e2 by (rule effect_mono) auto
    with effect_seq [OF e1'] have e: "effect ((dep_rel cs)\<^sup>+ `` set (t # members)) (concat (ns1 # dss)) [] m m'" by simp
    have "reached (concat (ns1 # dss)) d m m'"
      if "r = None" "k \<in> set (t # members)" "d \<in> (dep_rel cs)\<^sup>+ `` {k} - {k}" for k d
    proof (cases "k = t")
      case True
      with r1 None that(3) have "reached ns1 d m m1" by (blast intro: ensured_reached)
      from reached_later [OF this e2] show ?thesis by simp
    next
      case False
      with ns that have "reached (concat dss) d m1 m'" by auto
      from reached_earlier [OF e1 this] show ?thesis by simp
    qed
    with e all ds1 ns show ?thesis by (intro exI [of _ "ns1 # dss"]) auto
  qed
qed

lemma group_members_spec:
  assumes "group_members E ctx g cs members m = Some (r, m')"
  shows "\<exists>ns. effect (set members) ns [] m m' \<and> subseq ns members \<and>
    (r = None \<longrightarrow> (\<forall>t \<in> set members. reached ns t m m' \<and> t \<in> c_Name ` set cs))"
  using assms
proof (induction members arbitrary: m)
  case Nil
  then show ?case by (intro exI [of _ "[]"]) auto
next
  case (Cons n members)
  show ?case
  proof (cases "container_map cs n")
    case None
    with Cons.prems have "m' = m" "r \<noteq> None" by auto
    then show ?thesis by (intro exI [of _ "[]"]) auto
  next
    case (Some cfg)
    then have cn: "c_Name cfg = n" "n \<in> c_Name ` set cs" by (auto dest: container_map_Some)
    from Cons.prems Some obtain r1 m1 where er: "EnsureRunning E ctx cfg (InitStartState n m) = Some (r1, m1)"
      by (auto split: option.splits)
    have init: "effect {n} [] [] m (InitStartState n m)" by (rule effect_InitStartState) simp
    from effect_EnsureRunning [OF er] cn obtain ns1 where ns1: "ns1 = [] \<or> ns1 = [n]"
      and "effect {n} ns1 [] (InitStartState n m) m1"
      and "r1 = None \<longrightarrow> ensured ns1 n (InitStartState n m) m1" by auto
    then have e1: "effect {n} ns1 [] m m1" and en: "r1 = None \<Longrightarrow> reached ns1 n m m1"
      using effect_silent_then [OF init] ensured_reached [OF ensured_earlier [OF init]] by blast+
    have e1': "effect (set (n # members)) ns1 [] m m1" using e1 by (rule effect_mono) simp
    show ?thesis
    proof (cases r1)
      case (Some err)
      with Cons.prems \<open>container_map cs n = Some cfg\<close> er have "m' = m1" "r \<noteq> None" by auto
      with e1' ns1 show ?thesis by (intro exI [of _ ns1]) auto
    next
      case None
      with Cons.prems \<open>container_map cs n = Some cfg\<close> er
      have "group_members E ctx g cs members m1 = Some (r, m')" by auto
      from Cons.IH [OF this] obtain ns where e2: "effect (set members) ns [] m1 m'"
        and sub: "subseq ns members"
        and ns: "r = None \<longrightarrow> (\<forall>t \<in> set members. reached ns t m1 m' \<and> t \<in> c_Name ` set cs)" by blast
      have "effect (set (n # members)) ns [] m1 m'" using e2 by (rule effect_mono) auto
      with effect_seq [OF e1'] have "effect (set (n # members)) (ns1 @ ns) [] m m'" by simp
      moreover have "subseq (ns1 @ ns) (n # members)" using ns1 sub by auto
      moreover have "reached (ns1 @ ns) n m m'" by (rule reached_later [OF en [OF None] e2])
      moreover have "reached (ns1 @ ns) t m m'" if "r = None" "t \<in> set members" for t
        using ns that reached_earlier [OF e1] by blast
      ultimately show ?thesis using ns cn(2) by (intro exI [of _ "ns1 @ ns"]) auto
    qed
  qed
qed

lemma EnsureGroupRunning_phases:
  assumes "EnsureGroupRunning E ctx grp cs m = Some (r, m')"
  shows "\<exists>dss ms m1. list_all2 (dep_starts cs) (take (length dss) (g_Containers grp)) dss \<and>
    effect ((dep_rel cs)\<^sup>+ `` set (g_Containers grp)) (concat dss) [] m m1 \<and>
    effect (set (g_Containers grp)) ms [] m1 m' \<and> subseq ms (g_Containers grp) \<and>
    (ms \<noteq> [] \<or> r = None \<longrightarrow> (\<forall>t \<in> set (g_Containers grp). \<forall>d \<in> (dep_rel cs)\<^sup>+ `` {t} - {t}.
       reached (concat dss) d m m1)) \<and>
    (r = None \<longrightarrow> (\<forall>t \<in> set (g_Containers grp). reached ms t m1 m'))"
proof -
  from assms obtain r1 m1 where g: "group_deps E ctx (g_Name grp) cs (g_Containers grp) m = Some (r1, m1)"
    by (auto simp: EnsureGroupRunning_def split: option.splits)
  from group_deps_spec [OF g] obtain dss where d: "list_all2 (dep_starts cs) (take (length dss) (g_Containers grp)) dss"
    "effect ((dep_rel cs)\<^sup>+ `` set (g_Containers grp)) (concat dss) [] m m1"
    "r1 = None \<longrightarrow> (\<forall>t \<in> set (g_Containers grp). \<forall>d \<in> (dep_rel cs)\<^sup>+ `` {t} - {t}. reached (concat dss) d m m1)"
    by blast
  show ?thesis
  proof (cases r1)
    case (Some err)
    with assms g have "r \<noteq> None" "m' = m1" by (auto simp: EnsureGroupRunning_def)
    with d(1,2) show ?thesis by (intro exI [of _ dss] exI [of _ "[]"] exI [of _ m1]) auto
  next
    case None
    with assms g have "group_members E ctx (g_Name grp) cs (g_Containers grp) m1 = Some (r, m')"
      by (simp add: EnsureGroupRunning_def)
    from group_members_spec [OF this] obtain ms where "effect (set (g_Containers grp)) ms [] m1 m'"
      "subseq ms (g_Containers grp)" "r = None \<longrightarrow> (\<forall>t \<in> set (g_Containers grp). reached ms t m1 m')" by blast
    with d None show ?thesis by blast
  qed
qed


lemma EnsureGroupRunning_spec:
  assumes "EnsureGroupRunning E ctx grp cs m = Some (r, m')"
  shows "\<exists>ns. effect ((dep_rel cs)\<^sup>* `` set (g_Containers grp)) ns [] m m' \<and>
    set ns \<subseteq> (dep_rel cs)\<^sup>* `` set (g_Containers grp)"
proof -
  let ?M = "set (g_Containers grp)"
  obtain dss ms m1 where d: "list_all2 (dep_starts cs) (take (length dss) (g_Containers grp)) dss"
    and e: "effect ((dep_rel cs)\<^sup>+ `` ?M) (concat dss) [] m m1" "effect ?M ms [] m1 m'" "subseq ms (g_Containers grp)"
    using EnsureGroupRunning_phases [OF assms] by blast
  have sub: "(dep_rel cs)\<^sup>+ `` ?M \<subseteq> (dep_rel cs)\<^sup>* `` ?M" "?M \<subseteq> (dep_rel cs)\<^sup>* `` ?M"
    by (auto simp: rtrancl_eq_or_trancl)
  have "set ds \<subseteq> (dep_rel cs)\<^sup>+ `` ?M" if "ds \<in> set dss" for ds
  proof -
    from that d obtain t where "t \<in> set (take (length dss) (g_Containers grp))" "dep_starts cs t ds"
      by (metis in_set_conv_nth list_all2_conv_all_nth)
    then show ?thesis by (auto simp: dep_starts_def dest: in_set_takeD)
  qed
  then have "set (concat dss) \<subseteq> (dep_rel cs)\<^sup>+ `` ?M" by (simp add: UN_least)
  then have "set (concat dss) \<subseteq> (dep_rel cs)\<^sup>* `` ?M" using sub(1) by (rule subset_trans)
  moreover have "set ms \<subseteq> (dep_rel cs)\<^sup>* `` ?M" using e(3) sub(2) by (auto dest: subseq_set)
  ultimately have "set (concat dss @ ms) \<subseteq> (dep_rel cs)\<^sup>* `` ?M" by simp
  moreover have "effect ((dep_rel cs)\<^sup>* `` ?M) (concat dss @ ms) [] m m'"
    using effect_seq [OF effect_mono [OF e(1) sub(1)] effect_mono [OF e(2) sub(2)]] by simp
  ultimately show ?thesis by blast
qed


section \<open>Awakenings return\<close>

lemma ensure_deps_returns:
  assumes "ctx_expires E ctx mu"
  shows "\<exists>r m'. ensure_deps E ctx target cs order m = Some (r, m')"
proof (induction order arbitrary: m)
  case (Cons n order)
  show ?case
  proof (cases "container_map cs n")
    case (Some cfg)
    obtain r m1 where "EnsureRunning E ctx cfg (InitStartState n m) = Some (r, m1)"
      using EnsureRunning_returns [OF assms] by fast
    with Cons.IH Some show ?thesis by (cases r) auto
  qed (use Cons.IH in auto)
qed simp

lemma EnsureDepsRunning_returns:
  "ctx_expires E ctx mu \<Longrightarrow> \<exists>r m'. EnsureDepsRunning E ctx target cs m = Some (r, m')"
  using ensure_deps_returns by (fastforce simp: EnsureDepsRunning_def split: sum.split)

lemma group_deps_returns:
  assumes "ctx_expires E ctx mu"
  shows "\<exists>r m'. group_deps E ctx g cs members m = Some (r, m')"
proof (induction members arbitrary: m)
  case (Cons n members)
  obtain r m1 where "EnsureDepsRunning E ctx n cs m = Some (r, m1)"
    using EnsureDepsRunning_returns [OF assms] by fast
  with Cons.IH show ?case by (cases r) auto
qed simp

lemma group_members_returns:
  assumes "ctx_expires E ctx mu"
  shows "\<exists>r m'. group_members E ctx g cs members m = Some (r, m')"
proof (induction members arbitrary: m)
  case (Cons n members)
  show ?case
  proof (cases "container_map cs n")
    case (Some cfg)
    obtain r m1 where "EnsureRunning E ctx cfg (InitStartState n m) = Some (r, m1)"
      using EnsureRunning_returns [OF assms] by fast
    with Cons.IH Some show ?thesis by (cases r) auto
  qed (use Cons.IH in auto)
qed simp

text \<open>
  C33 (termination): under a context with a deadline the polling loops end, so an
  awakening of a container, of its dependencies or of a group always returns.
\<close>

theorem awakening_returns:
  assumes "ctx_expires E ctx mu"
  shows "(\<exists>r m'. EnsureRunning E ctx cfg m = Some (r, m')) \<and>
    (\<exists>r m'. EnsureDepsRunning E ctx target cs m = Some (r, m')) \<and>
    (\<exists>r m'. EnsureGroupRunning E ctx grp cs m = Some (r, m'))"
proof -
  obtain r m1 where g: "group_deps E ctx (g_Name grp) cs (g_Containers grp) m = Some (r, m1)"
    using group_deps_returns [OF assms] by blast
  then have "\<exists>r m'. EnsureGroupRunning E ctx grp cs m = Some (r, m')"
    using group_members_returns [OF assms, of "g_Name grp" cs "g_Containers grp" m1]
    by (cases r) (auto simp: EnsureGroupRunning_def)
  with EnsureRunning_returns [OF assms, of cfg m] EnsureDepsRunning_returns [OF assms] show ?thesis by auto
qed

lemma awakening_returns_witness:
  "\<exists>r m'. EnsureDepsRunning sim_env CtxRoot ''app'' chain_cs (NewContainerManager ([], 0)) = Some (r, m')"
  using awakening_returns [OF sim_env_expires] by blast

section \<open>Evaluation on the sample daemon\<close>

lemma sim_EnsureRunning:
  fixes m :: "(string list \<times> nat) mgr"
  assumes "snd (world (mg_io m)) < 60" and "c_HealthPath cfg = ''''" and "c_Network cfg = ''''"
  obtains m' where "EnsureRunning sim_env ctx cfg m = Some (None, m')"
    and "snd (world (mg_io m')) \<le> Suc (snd (world (mg_io m)))"
proof (cases "c_Name cfg \<in> set (fst (world (mg_io m)))")
  case True
  then have "\<exists>m'. EnsureRunning sim_env ctx cfg m = Some (None, m') \<and>
      snd (world (mg_io m')) \<le> Suc (snd (world (mg_io m)))"
    by (simp add: EnsureRunning_def docker_ops on_io_def call_def RecordActivity_def time_Now_def)
  with that show ?thesis by blast
next
  case False
  with assms have "\<exists>k m'. EnsureRunning sim_env ctx cfg m = Some (None, m') \<and>
      m' = start_ready sim_env (c_Name cfg) (int (snd (world (mg_io m))) * second) k \<and>
      snd (world (mg_io k)) = Suc (snd (world (mg_io m)))"
    by (force simp add: EnsureRunning_def docker_ops on_io_def call_def
        time_Now_def container_address_def await_ready.simps readiness_def)
  then obtain k m' where "EnsureRunning sim_env ctx cfg m = Some (None, m')"
    and m': "m' = start_ready sim_env (c_Name cfg) (int (snd (world (mg_io m))) * second) k"
    and k: "snd (world (mg_io k)) = Suc (snd (world (mg_io m)))" by blast
  moreover have "world (mg_io m') = world (mg_io k)"
    by (simp add: m' start_ready_def time_Now_def on_io_def call_def RecordStart_def RecordActivity_def split_beta)
  ultimately show ?thesis using that by simp
qed

lemma InitStartState_io [simp]: "mg_io (InitStartState n m) = mg_io m"
  by (simp add: InitStartState_def)

lemma EnsureDepsRunning_order_witness:
  "\<exists>m' ns. EnsureDepsRunning sim_env CtxRoot ''app'' chain_cs (NewContainerManager ([], 0)) = Some (None, m') \<and>
     set ns \<subseteq> {''api'', ''db''} \<and> effect {''api'', ''db''} ns [] (NewContainerManager ([], 0)) m' \<and>
     ensured ns ''db'' (NewContainerManager ([], 0)) m'"
proof -
  let ?m = "NewContainerManager ([], 0) :: (string list \<times> nat) mgr"
  have t: "TopologicalSort ''app'' chain_cs = Inr [''db'', ''api'', ''app'']"
    by (simp add: TopologicalSort_def chain_cs_def container_map_def topo_visit.simps(2))
  have w0: "world (mg_io ?m) = ([], 0)" by (simp add: NewContainerManager_def)
  obtain m1 where m1: "EnsureRunning sim_env CtxRoot (mk_ctr ''db'' '''' []) (InitStartState ''db'' ?m) = Some (None, m1)"
    and w1: "snd (world (mg_io m1)) \<le> 1"
    by (rule sim_EnsureRunning [of "InitStartState ''db'' ?m" "mk_ctr ''db'' '''' []" CtxRoot]) (auto simp: w0)
  obtain m2 where m2: "EnsureRunning sim_env CtxRoot (mk_ctr ''api'' '''' [''db'']) (InitStartState ''api'' m1) = Some (None, m2)"
    by (rule sim_EnsureRunning [of "InitStartState ''api'' m1" "mk_ctr ''api'' '''' [''db'']" CtxRoot]) (use w1 in auto)
  have "container_map chain_cs ''db'' = Some (mk_ctr ''db'' '''' [])"
    "container_map chain_cs ''api'' = Some (mk_ctr ''api'' '''' [''db''])"
    by (simp_all add: chain_cs_def container_map_def)
  then have e: "EnsureDepsRunning sim_env CtxRoot ''app'' chain_cs ?m = Some (None, m2)"
    using m1 m2 by (simp add: EnsureDepsRunning_def t)
  have "(dep_rel chain_cs)\<^sup>* `` {''app''} = {''db'', ''api'', ''app''}"
    using TopologicalSort_set [OF t] by simp
  moreover have "(dep_rel chain_cs)\<^sup>+ `` {''app''} - {''app''} = (dep_rel chain_cs)\<^sup>* `` {''app''} - {''app''}"
    by (auto simp: rtrancl_eq_or_trancl)
  ultimately have c: "(dep_rel chain_cs)\<^sup>+ `` {''app''} - {''app''} = {''api'', ''db''}" by auto
  from EnsureDepsRunning_order [OF e] obtain ns where "effect {''api'', ''db''} ns [] ?m m2" "set ns \<subseteq> {''api'', ''db''}"
    "\<forall>d \<in> {''api'', ''db''}. ensured ns d ?m m2" unfolding c by blast
  with e show ?thesis by blast
qed


end
