(* ===== verification/Schedule.thy ===== *)
theory Schedule
  imports Config
begin

text \<open>
  The cron helpers of \<^verbatim>\<open>gateway/scheduler.go\<close>: time-zone prefixes, the compatibility check
  of a start and a stop expression, and the schedule window that gates requests.

  The cron library (\<^verbatim>\<open>robfig/cron\<close>) is not part of the program: \<open>parse\<close> stands for
  \<open>cron.ParseStandard\<close>, which gives an error text or a schedule, and a schedule is its
  \<open>Next\<close> method. The loops over \<open>Next\<close> are \<open>partial_function\<close>s: \<open>None\<close> is a loop
  that does not return. What the code relies on is the documented behaviour of \<open>Next\<close>,
  \<open>cron_contract\<close> below: it returns the earliest activation later than its argument, or
  the zero time when it finds none (it searches years ahead, of which the contract needs
  one week). The weaker \<open>advances\<close> is enough for the loops to return.
\<close>

type_synonym schedule = "time \<Rightarrow> time"
type_synonym cron_parser = "string \<Rightarrow> string + schedule"

definition week :: duration where "week = 7 * 24 * hour"

lemma week_pos [simp]: "0 < week"
  by (simp add: week_def duration_defs)

definition advances :: "schedule \<Rightarrow> bool" where
  "advances nxt \<longleftrightarrow> (\<forall>t. nxt t = 0 \<or> t < nxt t)"

definition cron_contract :: "schedule \<Rightarrow> time set \<Rightarrow> bool" where
  "cron_contract nxt F \<longleftrightarrow>
     (\<forall>t. (nxt t \<noteq> 0 \<longrightarrow> nxt t \<in> F \<and> t < nxt t \<and> (\<forall>f \<in> F. t < f \<longrightarrow> nxt t \<le> f)) \<and>
          (nxt t = 0 \<longrightarrow> (\<forall>f \<in> F. t < f \<longrightarrow> t + week < f)))"

lemma cron_contract_advances: "cron_contract nxt F \<Longrightarrow> advances nxt"
  by (auto simp: cron_contract_def advances_def)

section \<open>Expressions\<close>

definition cronExpr :: "string \<Rightarrow> string \<Rightarrow> string" where
  "cronExpr expr tzName =
     (if tzName = '''' \<or> expr = '''' then expr else ''CRON_TZ='' @ tzName @ '' '' @ expr)"

definition cronExprFromLoc :: "string \<Rightarrow> location option \<Rightarrow> string" where
  "cronExprFromLoc expr loc =
     (case loc of
        None \<Rightarrow> expr
      | Some l \<Rightarrow>
          if expr = '''' \<or> l = LocLocal then expr
          else ''CRON_TZ='' @ loc_String l @ '' '' @ expr)"

section \<open>Compatibility of two expressions\<close>

datatype sched_error =
    StartInvalid string string
  | StopInvalid string string
  | SameTime time

datatype 'e verdict = Pass | Fail 'e

text \<open>The two loops: the minutes of the start schedule, then the search for a clash.\<close>

partial_function (option) start_minutes ::
  "schedule \<Rightarrow> time \<Rightarrow> time set \<Rightarrow> time \<Rightarrow> time set option" where
  "start_minutes nxt window seen t =
     (let t' = nxt t in
      if t' = 0 \<or> window < t' then Some seen
      else start_minutes nxt window (insert (time_Truncate t' minute) seen) t')"

partial_function (option) find_clash ::
  "schedule \<Rightarrow> time \<Rightarrow> time set \<Rightarrow> time \<Rightarrow> time option option" where
  "find_clash nxt window seen t =
     (let t' = nxt t in
      if t' = 0 \<or> window < t' then Some None
      else
        let key = time_Truncate t' minute in
        if key \<in> seen then Some (Some key) else find_clash nxt window seen t')"

definition validateScheduleCompatibility ::
  "cron_parser \<Rightarrow> time \<Rightarrow> string \<Rightarrow> string \<Rightarrow> location option \<Rightarrow> sched_error verdict option" where
  "validateScheduleCompatibility parse now0 startExpr stopExpr loc =
     (let start = (if startExpr = '''' then Inr None
                   else map_sum id Some (parse (cronExprFromLoc startExpr loc)));
          stop = (if stopExpr = '''' then Inr None
                  else map_sum id Some (parse (cronExprFromLoc stopExpr loc)))
      in case start of
           Inl err \<Rightarrow> Some (Fail (StartInvalid startExpr err))
         | Inr startSched \<Rightarrow>
             (case stop of
                Inl err \<Rightarrow> Some (Fail (StopInvalid stopExpr err))
              | Inr stopSched \<Rightarrow>
                  (case (startSched, stopSched) of
                     (Some s, Some p) \<Rightarrow>
                       (let now = time_Truncate now0 minute;
                            window = now + 7 * 24 * hour
                        in Option.bind (start_minutes s window {} now) (\<lambda>startMinutes.
                           Option.bind (find_clash p window startMinutes now) (\<lambda>clash.
                           Some (case clash of None \<Rightarrow> Pass | Some key \<Rightarrow> Fail (SameTime key)))))
                   | _ \<Rightarrow> Some Pass)))"

text \<open>Both loops return when \<open>Next\<close> advances: the distance to the window shrinks.\<close>

lemma start_minutes_total:
  assumes "advances nxt"
  shows "\<exists>S. start_minutes nxt w seen t = Some S"
proof (induction "nat (w - t)" arbitrary: seen t rule: less_induct)
  case less
  have n: "nxt t = 0 \<or> t < nxt t" using assms by (simp add: advances_def)
  show ?case
  proof (cases "nxt t = 0 \<or> w < nxt t")
    case True
    then show ?thesis by (simp add: start_minutes.simps [of nxt w seen t])
  next
    case False
    with n have "nat (w - nxt t) < nat (w - t)" by linarith
    from less [OF this] False show ?thesis
      by (simp add: start_minutes.simps [of nxt w seen t] Let_def)
  qed
qed

lemma find_clash_total:
  assumes "advances nxt"
  shows "\<exists>c. find_clash nxt w seen t = Some c"
proof (induction "nat (w - t)" arbitrary: t rule: less_induct)
  case less
  have n: "nxt t = 0 \<or> t < nxt t" using assms by (simp add: advances_def)
  show ?case
  proof (cases "nxt t = 0 \<or> w < nxt t \<or> time_Truncate (nxt t) minute \<in> seen")
    case True
    then show ?thesis by (auto simp: find_clash.simps [of nxt w seen t] Let_def)
  next
    case False
    with n have "nat (w - nxt t) < nat (w - t)" by linarith
    from less [OF this] False show ?thesis
      by (simp add: find_clash.simps [of nxt w seen t] Let_def)
  qed
qed

text \<open>The activations of a schedule in a half-open interval.\<close>

definition firings :: "time set \<Rightarrow> time \<Rightarrow> time \<Rightarrow> time set" where
  "firings F a b = {f \<in> F. a < f \<and> f \<le> b}"

lemma firings_step:
  assumes "cron_contract nxt F" and "nxt t \<noteq> 0" and "nxt t \<le> w"
  shows "firings F t w = insert (nxt t) (firings F (nxt t) w)"
proof -
  have "nxt t \<in> F" "t < nxt t" and least: "\<And>f. f \<in> F \<Longrightarrow> t < f \<Longrightarrow> nxt t \<le> f"
    using assms by (auto simp: cron_contract_def)
  with assms(3) show ?thesis by (force simp: firings_def)
qed

lemma firings_stop:
  assumes "cron_contract nxt F" and "nxt t = 0 \<or> w < nxt t" and "w \<le> t + week"
  shows "firings F t w = {}"
proof (cases "nxt t = 0")
  case True
  with assms(1,3) show ?thesis by (fastforce simp: cron_contract_def firings_def)
next
  case False
  with assms show ?thesis by (fastforce simp: cron_contract_def firings_def)
qed

lemma start_minutes_eq:
  assumes "cron_contract nxt F"
  shows "w \<le> t + week \<Longrightarrow> start_minutes nxt w seen t =
    Some (seen \<union> (\<lambda>f. time_Truncate f minute) ` firings F t w)"
proof (induction "nat (w - t)" arbitrary: seen t rule: less_induct)
  case less
  have n: "nxt t = 0 \<or> t < nxt t"
    using cron_contract_advances [OF assms] by (simp add: advances_def)
  show ?case
  proof (cases "nxt t = 0 \<or> w < nxt t")
    case True
    with firings_stop [OF assms True less.prems] show ?thesis
      by (simp add: start_minutes.simps [of nxt w seen t])
  next
    case False
    with n have "nat (w - nxt t) < nat (w - t)" "w \<le> nxt t + week" using less.prems by linarith+
    from less.hyps [OF this] False firings_step [OF assms, of t w] show ?thesis
      by (simp add: start_minutes.simps [of nxt w seen t] Let_def)
  qed
qed

lemma find_clash_eq:
  assumes "cron_contract nxt F"
  shows "w \<le> t + week \<Longrightarrow> find_clash nxt w seen t = Some c \<Longrightarrow>
    (case c of
       None \<Rightarrow> (\<forall>f \<in> firings F t w. time_Truncate f minute \<notin> seen)
     | Some k \<Rightarrow> k \<in> seen \<and> (\<exists>f \<in> firings F t w. time_Truncate f minute = k))"
proof (induction "nat (w - t)" arbitrary: t rule: less_induct)
  case less
  have n: "nxt t = 0 \<or> t < nxt t"
    using cron_contract_advances [OF assms] by (simp add: advances_def)
  show ?case
  proof (cases "nxt t = 0 \<or> w < nxt t")
    case True
    with firings_stop [OF assms True less.prems(1)] less.prems(2) show ?thesis
      by (auto simp: find_clash.simps [of nxt w seen t])
  next
    case False
    have step: "firings F t w = insert (nxt t) (firings F (nxt t) w)"
      using False by (intro firings_step [OF assms]) auto
    show ?thesis
    proof (cases "time_Truncate (nxt t) minute \<in> seen")
      case True
      with False less.prems(2) have "c = Some (time_Truncate (nxt t) minute)"
        by (simp add: find_clash.simps [of nxt w seen t] Let_def)
      with True step show ?thesis by simp
    next
      case nin: False
      have "nat (w - nxt t) < nat (w - t)" "w \<le> nxt t + week"
        using False n less.prems(1) by linarith+
      moreover have "find_clash nxt w seen (nxt t) = Some c"
        using less.prems(2) False nin by (simp add: find_clash.simps [of nxt w seen t] Let_def)
      ultimately show ?thesis
        using less.hyps [of "nxt t"] nin step by (auto split: option.splits)
    qed
  qed
qed

text \<open>
  C32 (functional, \<^verbatim>\<open>validateScheduleCompatibility\<close>): for two expressions that parse, the
  check returns, and it passes exactly when no activation of the start schedule and no
  activation of the stop schedule within the next seven days fall in the same minute.
\<close>

theorem validateScheduleCompatibility_iff:
  assumes "startExpr \<noteq> ''''" and "stopExpr \<noteq> ''''"
    and "parse (cronExprFromLoc startExpr loc) = Inr s" and "cron_contract s F"
    and "parse (cronExprFromLoc stopExpr loc) = Inr p" and "cron_contract p G"
  shows "\<exists>v. validateScheduleCompatibility parse now startExpr stopExpr loc = Some v \<and>
    (v = Pass \<longleftrightarrow>
      \<not> (\<exists>f g. f \<in> firings F (time_Truncate now minute) (time_Truncate now minute + week) \<and>
               g \<in> firings G (time_Truncate now minute) (time_Truncate now minute + week) \<and>
               time_Truncate f minute = time_Truncate g minute))"
proof -
  let ?n = "time_Truncate now minute"
  let ?w = "?n + week" and ?tr = "\<lambda>f. time_Truncate f minute"
  have w: "?n + 7 * 24 * hour = ?w" by (simp add: week_def)
  have m: "start_minutes s ?w {} ?n = Some (?tr ` firings F ?n ?w)"
    using start_minutes_eq [OF assms(4), of ?w ?n "{}"] by simp
  obtain c where c: "find_clash p ?w (?tr ` firings F ?n ?w) ?n = Some c"
    using find_clash_total [OF cron_contract_advances [OF assms(6)]] by blast
  have v: "validateScheduleCompatibility parse now startExpr stopExpr loc =
      Some (case c of None \<Rightarrow> Pass | Some key \<Rightarrow> Fail (SameTime key))"
    using assms(1,2,3,5) m c unfolding validateScheduleCompatibility_def w [symmetric]
    by (simp add: Let_def)
  from find_clash_eq [OF assms(6) _ c] have spec: "case c of
      None \<Rightarrow> (\<forall>g \<in> firings G ?n ?w. ?tr g \<notin> ?tr ` firings F ?n ?w)
    | Some k \<Rightarrow> k \<in> ?tr ` firings F ?n ?w \<and> (\<exists>g \<in> firings G ?n ?w. ?tr g = k)" by simp
  show ?thesis
  proof (cases c)
    case None
    with spec have "?tr g \<notin> ?tr ` firings F ?n ?w" if "g \<in> firings G ?n ?w" for g
      using that by simp
    then have "\<forall>g \<in> firings G ?n ?w. \<forall>f \<in> firings F ?n ?w. ?tr f \<noteq> ?tr g"
      by (metis image_eqI)
    with v None show ?thesis by auto
  next
    case (Some k)
    with spec obtain f g where "f \<in> firings F ?n ?w" "g \<in> firings G ?n ?w" "?tr f = ?tr g"
      by (auto simp: image_iff)
    with v Some show ?thesis by auto
  qed
qed

lemma validateScheduleCompatibility_total:
  assumes "\<And>e s. parse e = Inr s \<Longrightarrow> advances s"
  shows "\<exists>v. validateScheduleCompatibility parse now startExpr stopExpr loc = Some v"
proof -
  have "\<exists>v. Option.bind (start_minutes s w {} n) (\<lambda>startMinutes.
      Option.bind (find_clash p w startMinutes n) (\<lambda>clash.
      Some (case clash of None \<Rightarrow> Pass | Some key \<Rightarrow> Fail (SameTime key)))) = Some v"
    if "advances s" "advances p" for s p w n
  proof -
    obtain S where "start_minutes s w {} n = Some S"
      using start_minutes_total \<open>advances s\<close> by blast
    moreover obtain c where "find_clash p w S n = Some c"
      using find_clash_total \<open>advances p\<close> by blast
    ultimately show ?thesis by simp
  qed
  with assms show ?thesis
    by (cases "parse (cronExprFromLoc startExpr loc)"; cases "parse (cronExprFromLoc stopExpr loc)")
      (auto simp: validateScheduleCompatibility_def Let_def)
qed

section \<open>The schedule window\<close>

partial_function (option) last_firing :: "schedule \<Rightarrow> time \<Rightarrow> time \<Rightarrow> time option" where
  "last_firing sched now t =
     (let nxt = sched t in
      if nxt = 0 \<or> now < nxt then Some t else last_firing sched now nxt)"

text \<open>\<open>(zero, false)\<close> is \<open>None\<close> inside the outer option.\<close>

definition prevFiring :: "schedule \<Rightarrow> time \<Rightarrow> time option option" where
  "prevFiring sched now =
     (let lookback = now + (- 7 * 24 * hour);
          t = sched lookback
      in if t = 0 \<or> now < t then Some None
         else map_option Some (last_firing sched now t))"

definition IsInScheduleWindow ::
  "cron_parser \<Rightarrow> ContainerConfig \<Rightarrow> time \<Rightarrow> location option \<Rightarrow> (bool \<times> time) option" where
  "IsInScheduleWindow parse cfg now loc =
     (if c_ScheduleStart cfg = '''' \<or> c_ScheduleStop cfg = '''' then Some (True, 0)
      else
        case (parse (cronExprFromLoc (c_ScheduleStart cfg) loc),
              parse (cronExprFromLoc (c_ScheduleStop cfg) loc)) of
          (Inr startSched, Inr stopSched) \<Rightarrow>
            Option.bind (prevFiring startSched now) (\<lambda>prevStart.
            Option.bind (prevFiring stopSched now) (\<lambda>prevStop.
            Some (case prevStart of
                    None \<Rightarrow> (False, startSched now)
                  | Some s \<Rightarrow>
                      (case prevStop of
                         None \<Rightarrow> (True, 0)
                       | Some p \<Rightarrow> if p < s then (True, 0) else (False, startSched now)))))
        | _ \<Rightarrow> Some (True, 0))"

lemma last_firing_total:
  assumes "advances sched"
  shows "\<exists>r. last_firing sched now t = Some r"
proof (induction "nat (now - t)" arbitrary: t rule: less_induct)
  case less
  have n: "sched t = 0 \<or> t < sched t" using assms by (simp add: advances_def)
  show ?case
  proof (cases "sched t = 0 \<or> now < sched t")
    case True
    then show ?thesis by (simp add: last_firing.simps [of sched now t])
  next
    case False
    with n have "nat (now - sched t) < nat (now - t)" by linarith
    from less [OF this] False show ?thesis
      by (simp add: last_firing.simps [of sched now t] Let_def)
  qed
qed

lemma last_firing_Max:
  assumes "cron_contract sched F"
  shows "t \<le> now \<Longrightarrow> now \<le> t + week \<Longrightarrow> last_firing sched now t = Some r \<Longrightarrow>
    r \<in> insert t (firings F t now) \<and> (\<forall>f \<in> firings F t now. f \<le> r) \<and> t \<le> r"
proof (induction "nat (now - t)" arbitrary: t rule: less_induct)
  case less
  have n: "sched t = 0 \<or> t < sched t"
    using cron_contract_advances [OF assms] by (simp add: advances_def)
  show ?case
  proof (cases "sched t = 0 \<or> now < sched t")
    case True
    with less.prems(3) have "r = t" by (simp add: last_firing.simps [of sched now t] Let_def)
    with firings_stop [OF assms True less.prems(2)] show ?thesis by simp
  next
    case False
    have step: "firings F t now = insert (sched t) (firings F (sched t) now)"
      using False by (intro firings_step [OF assms]) auto
    have "nat (now - sched t) < nat (now - t)" "sched t \<le> now" "now \<le> sched t + week"
      using False n less.prems(1,2) by linarith+
    moreover have "last_firing sched now (sched t) = Some r"
      using less.prems(3) False by (simp add: last_firing.simps [of sched now t] Let_def)
    ultimately show ?thesis
      using less.hyps [of "sched t"] step False n by auto
  qed
qed

text \<open>What \<open>prevFiring\<close> promises: the latest activation of the last seven days, if any.\<close>

definition prev_spec :: "time set \<Rightarrow> time \<Rightarrow> time option" where
  "prev_spec F now =
     (if firings F (now - week) now = {} then None else Some (Max (firings F (now - week) now)))"

lemma finite_firings [simp]: "finite (firings F a b)"
  by (rule finite_subset [of _ "{a..b}"]) (auto simp: firings_def)

lemma prevFiring_week:
  "prevFiring sched now =
     (if sched (now - week) = 0 \<or> now < sched (now - week) then Some None
      else map_option Some (last_firing sched now (sched (now - week))))"
  by (simp add: prevFiring_def week_def Let_def)

lemma prevFiring_spec:
  assumes "cron_contract sched F"
  shows "prevFiring sched now = Some (prev_spec F now)"
proof -
  let ?a = "now - week"
  show ?thesis
  proof (cases "sched ?a = 0 \<or> now < sched ?a")
    case True
    with firings_stop [OF assms True] show ?thesis
      by (simp add: prevFiring_week prev_spec_def)
  next
    case False
    let ?t = "sched ?a"
    have step: "firings F ?a now = insert ?t (firings F ?t now)"
      using False by (intro firings_step [OF assms]) auto
    have "?a < ?t" using cron_contract_advances [OF assms] False by (auto simp: advances_def)
    obtain r where r: "last_firing sched now ?t = Some r"
      using last_firing_total [OF cron_contract_advances [OF assms]] by blast
    from last_firing_Max [OF assms _ _ r] False \<open>?a < ?t\<close>
    have "r \<in> firings F ?a now" "\<forall>f \<in> firings F ?a now. f \<le> r" by (auto simp: step)
    then have "Max (firings F ?a now) = r" by (intro Max_eqI) auto
    with r False step show ?thesis
      by (simp add: prevFiring_week prev_spec_def)
  qed
qed

lemma IsInScheduleWindow_spec:
  assumes "c_ScheduleStart cfg \<noteq> ''''" and "c_ScheduleStop cfg \<noteq> ''''"
    and "parse (cronExprFromLoc (c_ScheduleStart cfg) loc) = Inr s" and "cron_contract s F"
    and "parse (cronExprFromLoc (c_ScheduleStop cfg) loc) = Inr p" and "cron_contract p G"
  shows "IsInScheduleWindow parse cfg now loc =
    (if \<exists>f \<in> firings F (now - week) now. \<forall>g \<in> firings G (now - week) now. g < f
     then Some (True, 0) else Some (False, s now))"
proof -
  let ?F = "firings F (now - week) now" and ?G = "firings G (now - week) now"
  have eq: "IsInScheduleWindow parse cfg now loc =
    Some (case prev_spec F now of None \<Rightarrow> (False, s now)
          | Some a \<Rightarrow> (case prev_spec G now of None \<Rightarrow> (True, 0)
                     | Some b \<Rightarrow> if b < a then (True, 0) else (False, s now)))"
    using assms(1-3,5) prevFiring_spec [OF assms(4)] prevFiring_spec [OF assms(6)]
    by (simp add: IsInScheduleWindow_def)
  have mx: "(\<exists>f \<in> ?F. \<forall>g \<in> ?G. g < f) \<longleftrightarrow> Max ?G < Max ?F" if "?F \<noteq> {}" "?G \<noteq> {}"
  proof
    assume "\<exists>f \<in> ?F. \<forall>g \<in> ?G. g < f"
    then obtain f where "f \<in> ?F" "\<forall>g \<in> ?G. g < f" by blast
    moreover have "Max ?G \<in> ?G" by (rule Max_in) (use that(2) in auto)
    ultimately have "Max ?G < f" by blast
    also have "f \<le> Max ?F" using \<open>f \<in> ?F\<close> by simp
    finally show "Max ?G < Max ?F" .
  next
    assume "Max ?G < Max ?F"
    then have "\<forall>g \<in> ?G. g < Max ?F"
      using Max_less_iff [OF finite_firings that(2)] by blast
    moreover have "Max ?F \<in> ?F" by (rule Max_in) (use that(1) in auto)
    ultimately show "\<exists>f \<in> ?F. \<forall>g \<in> ?G. g < f" by blast
  qed
  show ?thesis
  proof (cases "?F = {} \<or> ?G = {}")
    case True
    then show ?thesis unfolding eq by (auto simp: prev_spec_def)
  next
    case False
    with mx show ?thesis unfolding eq by (simp add: prev_spec_def)
  qed
qed

text \<open>
  C31 (functional, \<^verbatim>\<open>IsInScheduleWindow\<close>): with both schedules set and parsed, the gate
  returns, and it is open exactly when the start schedule fired within the last seven days
  and the stop schedule has not fired since (in that time); when it is closed the time
  reported is the next activation of the start schedule.
\<close>

theorem IsInScheduleWindow_iff:
  assumes "c_ScheduleStart cfg \<noteq> ''''" and "c_ScheduleStop cfg \<noteq> ''''"
    and "parse (cronExprFromLoc (c_ScheduleStart cfg) loc) = Inr s" and "cron_contract s F"
    and "parse (cronExprFromLoc (c_ScheduleStop cfg) loc) = Inr p" and "cron_contract p G"
  shows "IsInScheduleWindow parse cfg now loc =
    (if \<exists>f \<in> firings F (now - week) now. \<forall>g \<in> firings G (now - week) now. g < f
     then Some (True, 0) else Some (False, s now))"
  using assms by (rule IsInScheduleWindow_spec)

lemma IsInScheduleWindow_total:
  assumes "\<And>e s. parse e = Inr s \<Longrightarrow> advances s"
  shows "\<exists>r. IsInScheduleWindow parse cfg now loc = Some r"
proof -
  have p: "\<exists>r. prevFiring s now = Some r" if "advances s" for s
    using last_firing_total [OF that, of now "s (now - week)"] by (auto simp: prevFiring_week)
  show ?thesis
  proof (cases "\<exists>s q. parse (cronExprFromLoc (c_ScheduleStart cfg) loc) = Inr s \<and>
      parse (cronExprFromLoc (c_ScheduleStop cfg) loc) = Inr q")
    case True
    then obtain s q where sq: "parse (cronExprFromLoc (c_ScheduleStart cfg) loc) = Inr s"
      "parse (cronExprFromLoc (c_ScheduleStop cfg) loc) = Inr q" by blast
    with p assms obtain a b where "prevFiring s now = Some a" "prevFiring q now = Some b" by metis
    with sq show ?thesis by (cases "c_ScheduleStart cfg = '''' \<or> c_ScheduleStop cfg = ''''")
        (auto simp: IsInScheduleWindow_def)
  next
    case False
    then show ?thesis by (auto simp: IsInScheduleWindow_def split: sum.splits)
  qed
qed

section \<open>Concrete schedules\<close>

text \<open>
  A schedule that fires every \<open>period\<close>, \<open>off\<close> after its multiples: it satisfies the
  contract, and serves as the concrete library of the witnesses.
\<close>

definition every :: "duration \<Rightarrow> duration \<Rightarrow> schedule" where
  "every period off t = ((t - off) div period + 1) * period + off"

lemma every_contract:
  assumes "0 < period" and "off mod period \<noteq> 0"
  shows "cron_contract (every period off) {f. \<exists>k. f = k * period + off}"
proof -
  have nz: "every period off t \<noteq> 0" for t
  proof
    assume "every period off t = 0"
    then have "(((t - off) div period + 1) * period + off) mod period = 0" by (simp add: every_def)
    with assms(2) show False by (simp only: mod_mult_self3)
  qed
  have gt: "t < every period off t" for t
  proof -
    have "t - off < ((t - off) div period + 1) * period"
      using pos_mod_bound [OF assms(1), of "t - off"] div_mult_mod_eq [of "t - off" period]
      unfolding distrib_right mult_1 by linarith
    then show ?thesis by (simp add: every_def)
  qed
  have least: "every period off t \<le> k * period + off" if "t < k * period + off" for t k
  proof -
    have "t - off < k * period" using that by simp
    moreover have "(t - off) div period * period \<le> t - off"
      using pos_mod_sign [OF assms(1), of "t - off"] div_mult_mod_eq [of "t - off" period] by linarith
    ultimately have "(t - off) div period * period < k * period" by linarith
    then have "(t - off) div period < k" using assms(1) by (simp add: mult_less_cancel_right)
    then have "((t - off) div period + 1) * period \<le> k * period"
      using assms(1) by (intro mult_right_mono) auto
    then show ?thesis by (simp add: every_def)
  qed
  show ?thesis
    unfolding cron_contract_def using nz gt least by (auto simp: every_def)
qed

text \<open>A cron library that knows four expressions.\<close>

definition demo_parse :: cron_parser where
  "demo_parse e =
     (if e = ''0 8 * * *'' then Inr (every (24 * hour) (8 * hour))
      else if e = ''0 20 * * *'' then Inr (every (24 * hour) (20 * hour))
      else if e = ''@monthly-start'' then Inr (every (30 * 24 * hour) hour)
      else if e = ''@monthly-stop'' then Inr (every (30 * 24 * hour) (20 * 24 * hour + hour))
      else Inl ''expected exactly 5 fields'')"

lemma daily_contract:
  "cron_contract (every (24 * hour) (8 * hour)) {f. \<exists>k. f = k * (24 * hour) + 8 * hour}"
  "cron_contract (every (24 * hour) (20 * hour)) {f. \<exists>k. f = k * (24 * hour) + 20 * hour}"
  by (rule every_contract; simp add: duration_defs)+

lemma monthly_contract:
  "cron_contract (every (30 * 24 * hour) hour) {f. \<exists>k. f = k * (30 * 24 * hour) + hour}"
  "cron_contract (every (30 * 24 * hour) (20 * 24 * hour + hour))
     {f. \<exists>k. f = k * (30 * 24 * hour) + (20 * 24 * hour + hour)}"
  by (rule every_contract; simp add: duration_defs)+

definition office :: ContainerConfig where
  "office = zero_container\<lparr>c_Name := ''app'', c_Host := ''app.localhost'',
     c_ScheduleStart := ''0 8 * * *'', c_ScheduleStop := ''0 20 * * *''\<rparr>"

definition monthly :: ContainerConfig where
  "monthly = zero_container\<lparr>c_Name := ''app'', c_Host := ''app.localhost'',
     c_ScheduleStart := ''@monthly-start'', c_ScheduleStop := ''@monthly-stop''\<rparr>"

lemma validateScheduleCompatibility_iff_witness:
  "\<exists>v. validateScheduleCompatibility demo_parse (100 * 24 * hour) ''0 8 * * *'' ''0 20 * * *''
      (Some LocLocal) = Some v"
  using validateScheduleCompatibility_iff [of "''0 8 * * *''" "''0 20 * * *''" demo_parse "Some LocLocal",
      OF _ _ _ daily_contract(1) _ daily_contract(2), of "100 * 24 * hour"]
  by (auto simp: demo_parse_def cronExprFromLoc_def)

lemma IsInScheduleWindow_iff_witness:
  "IsInScheduleWindow demo_parse office (100 * 24 * hour + 9 * hour) (Some LocLocal) = Some (True, 0)"
proof -
  let ?now = "100 * 24 * hour + 9 * hour"
  let ?F = "{f. \<exists>k. f = k * (24 * hour) + 8 * hour}" and ?G = "{f. \<exists>k. f = k * (24 * hour) + 20 * hour}"
  have "100 * (24 * hour) + 8 * hour \<in> firings ?F (?now - week) ?now"
    by (auto simp: firings_def week_def duration_defs intro: exI [of _ 100])
  moreover have "g < 100 * (24 * hour) + 8 * hour" if "g \<in> firings ?G (?now - week) ?now" for g
  proof -
    from that obtain k where "g = k * (24 * hour) + 20 * hour" "g \<le> ?now" by (auto simp: firings_def)
    then show ?thesis by (cases "k \<le> 99") (simp_all add: duration_defs)
  qed
  ultimately have "\<exists>f \<in> firings ?F (?now - week) ?now. \<forall>g \<in> firings ?G (?now - week) ?now. g < f"
    by blast
  with IsInScheduleWindow_iff [of office demo_parse "Some LocLocal", OF _ _ _ daily_contract(1) _ daily_contract(2), of ?now]
  show ?thesis by (simp add: office_def demo_parse_def cronExprFromLoc_def)
qed

text \<open>
  \<^verbatim>\<open>IsInScheduleWindow\<close>: the seven-day look-back shows. When the last start
  is more than a week ago the gate is closed although the stop schedule has not fired since
  that start, so although the last start is later than every stop.
\<close>

theorem IsInScheduleWindow_long_window:
  assumes "c_ScheduleStart cfg \<noteq> ''''" and "c_ScheduleStop cfg \<noteq> ''''"
    and "parse (cronExprFromLoc (c_ScheduleStart cfg) loc) = Inr s" and "cron_contract s F"
    and "parse (cronExprFromLoc (c_ScheduleStop cfg) loc) = Inr p" and "cron_contract p G"
    and "lastStart \<in> F" and "lastStart \<le> now - week"
    and "\<And>f. f \<in> F \<Longrightarrow> f \<le> now \<Longrightarrow> f \<le> lastStart"
    and "\<And>g. g \<in> G \<Longrightarrow> g \<le> now \<Longrightarrow> g < lastStart"
  shows "IsInScheduleWindow parse cfg now loc = Some (False, s now)"
proof -
  have "firings F (now - week) now = {}"
    using assms(8,9) by (fastforce simp: firings_def)
  with IsInScheduleWindow_spec [of cfg parse loc, OF assms(1-6)] show ?thesis by simp
qed

lemma IsInScheduleWindow_long_window_witness:
  "fst (the (IsInScheduleWindow demo_parse monthly (310 * 24 * hour) (Some LocLocal))) = False"
proof -
  let ?now = "310 * 24 * hour" and ?P = "30 * 24 * hour" and ?m = "20 * 24 * hour + hour"
  have f: "f \<le> 10 * ?P + hour" if "f \<in> {f. \<exists>k. f = k * ?P + hour}" "f \<le> ?now" for f
  proof -
    from that obtain k where "f = k * ?P + hour" by blast
    with that(2) show ?thesis by (cases "k \<le> 10") (simp_all add: duration_defs)
  qed
  have g: "g < 10 * ?P + hour" if "g \<in> {f. \<exists>k. f = k * ?P + ?m}" "g \<le> ?now" for g
  proof -
    from that obtain k where "g = k * ?P + ?m" by blast
    with that(2) show ?thesis by (cases "k \<le> 9") (simp_all add: duration_defs)
  qed
  have "10 * ?P + hour \<in> {f. \<exists>k. f = k * ?P + hour}" by blast
  moreover have "10 * ?P + hour \<le> ?now - week" by (simp add: week_def duration_defs)
  ultimately show ?thesis
    using IsInScheduleWindow_long_window [of monthly demo_parse "Some LocLocal",
        OF _ _ _ monthly_contract(1) _ monthly_contract(2) _ _ f g]
    by (simp add: monthly_def demo_parse_def cronExprFromLoc_def)
qed

end
