(* ===== verification/Validation.thy ===== *)
theory Validation
  imports Cycles StopOrder Schedule
begin

text \<open>
  \<^verbatim>\<open>GatewayConfig.Validate\<close> of \<^verbatim>\<open>gateway/config.go\<close>: the checks in the order of the source,
  each with its error, and the declarative specification \<open>valid_config\<close> they implement.
  The loops of the schedule check may not return when the cron library misbehaves, so the
  result is an \<open>option\<close>; \<open>clock i\<close> is the reading of \<^verbatim>\<open>time.Now()\<close> in the check of the
  \<open>i\<close>-th container's schedule.
\<close>

record libs =
  tzdb :: "string \<Rightarrow> bool"
  parse_cron :: cron_parser

definition ResolveLocation :: "libs \<Rightarrow> string \<Rightarrow> location option" where
  "ResolveLocation L name = (if name = '''' then Some LocLocal else LoadLocation (tzdb L) name)"

definition resolveLocation :: "libs \<Rightarrow> string \<Rightarrow> location option" where
  "resolveLocation L name = ResolveLocation L name"

datatype cfg_error =
    EmptyPort
  | BadTimezone string
  | BasicIncomplete
  | BearerIncomplete
  | UnknownMethod string
  | CtrNoName nat
  | CtrNoHost string
  | CtrNoPort string
  | DupName string
  | DupHost string string
  | UnknownDep string string
  | SelfDep string
  | CtrBadTimezone string string
  | CtrSchedule string sched_error
  | GrpNoName nat
  | GrpNoHost string
  | GrpEmpty string
  | DupGroup string
  | GrpHostClash string string
  | GrpUnknownMember string string
  | Cyclic cycle_error

section \<open>The checks\<close>

definition check_auth :: "AdminAuthConfig \<Rightarrow> cfg_error option" where
  "check_auth a =
     (if a_Method a = '''' \<or> a_Method a = ''none'' then None
      else if a_Method a = ''basic'' then
        (if a_Username a = '''' \<or> a_Password a = '''' then Some BasicIncomplete else None)
      else if a_Method a = ''bearer'' then
        (if a_Token a = '''' then Some BearerIncomplete else None)
      else Some (UnknownMethod (a_Method a)))"

definition nameSet :: "GatewayConfig \<Rightarrow> string set" where
  "nameSet cfg = set (map c_Name (Containers cfg))"

definition groupMembers :: "GatewayConfig \<Rightarrow> string set" where
  "groupMembers cfg = set (concat (map g_Containers (Groups cfg)))"

definition depTargets :: "GatewayConfig \<Rightarrow> string set" where
  "depTargets cfg = set (concat (map c_DependsOn (Containers cfg)))"

fun check_deps :: "string set \<Rightarrow> string \<Rightarrow> string list \<Rightarrow> cfg_error option" where
  "check_deps names self [] = None"
| "check_deps names self (dep # deps) =
     (if dep \<notin> names then Some (UnknownDep self dep)
      else if dep = self then Some (SelfDep self)
      else check_deps names self deps)"

definition check_schedule :: "libs \<Rightarrow> time \<Rightarrow> GatewayConfig \<Rightarrow> ContainerConfig \<Rightarrow>
    sched_error verdict option" where
  "check_schedule L now cfg ctr =
     (if c_ScheduleStart ctr \<noteq> '''' \<or> c_ScheduleStop ctr \<noteq> '''' then
        let effectiveTZ = (if c_ScheduleTimezone ctr = '''' then ScheduleTimezone (Gateway cfg)
                           else c_ScheduleTimezone ctr)
        in validateScheduleCompatibility (parse_cron L) now (c_ScheduleStart ctr)
             (c_ScheduleStop ctr) (resolveLocation L effectiveTZ)
      else Some Pass)"

type_synonym seen = "string set \<times> string set"

text \<open>One turn of the loop over the containers; \<open>seen\<close> holds the names and the hosts.\<close>

definition check_container :: "libs \<Rightarrow> time \<Rightarrow> GatewayConfig \<Rightarrow> nat \<Rightarrow> ContainerConfig \<Rightarrow> seen \<Rightarrow>
    (cfg_error + seen) option" where
  "check_container L now cfg i ctr seen =
     (let name = c_Name ctr; host = c_Host ctr;
          needsHost = (name \<notin> groupMembers cfg \<and> name \<notin> depTargets cfg)
      in
      if name = '''' then Some (Inl (CtrNoName (i + 1)))
      else if host = '''' \<and> needsHost then Some (Inl (CtrNoHost name))
      else if c_TargetPort ctr = '''' then Some (Inl (CtrNoPort name))
      else if name \<in> fst seen then Some (Inl (DupName name))
      else if host \<noteq> '''' \<and> host \<in> snd seen then Some (Inl (DupHost host name))
      else
        let seen' = (insert name (fst seen), if host \<noteq> '''' then insert host (snd seen) else snd seen)
        in case check_deps (nameSet cfg) name (c_DependsOn ctr) of
             Some e \<Rightarrow> Some (Inl e)
           | None \<Rightarrow>
               if c_ScheduleTimezone ctr \<noteq> '''' \<and> resolveLocation L (c_ScheduleTimezone ctr) = None
               then Some (Inl (CtrBadTimezone name (c_ScheduleTimezone ctr)))
               else map_option
                      (\<lambda>v. case v of Pass \<Rightarrow> Inr seen' | Fail e \<Rightarrow> Inl (CtrSchedule name e))
                      (check_schedule L now cfg ctr))"

fun check_containers :: "libs \<Rightarrow> (nat \<Rightarrow> time) \<Rightarrow> GatewayConfig \<Rightarrow> nat \<Rightarrow> ContainerConfig list \<Rightarrow>
    seen \<Rightarrow> (cfg_error + seen) option" where
  "check_containers L clock cfg i [] seen = Some (Inr seen)"
| "check_containers L clock cfg i (ctr # rest) seen =
     Option.bind (check_container L (clock i) cfg i ctr seen) (\<lambda>r.
       case r of
         Inl e \<Rightarrow> Some (Inl e)
       | Inr seen' \<Rightarrow> check_containers L clock cfg (Suc i) rest seen')"

fun check_members :: "string set \<Rightarrow> string \<Rightarrow> string list \<Rightarrow> cfg_error option" where
  "check_members names g [] = None"
| "check_members names g (cn # cns) =
     (if cn \<notin> names then Some (GrpUnknownMember g cn) else check_members names g cns)"

definition check_group :: "GatewayConfig \<Rightarrow> nat \<Rightarrow> GroupConfig \<Rightarrow> seen \<Rightarrow> cfg_error + seen" where
  "check_group cfg i g seen =
     (if g_Name g = '''' then Inl (GrpNoName (i + 1))
      else if g_Host g = '''' then Inl (GrpNoHost (g_Name g))
      else if length (g_Containers g) = 0 then Inl (GrpEmpty (g_Name g))
      else if g_Name g \<in> fst seen then Inl (DupGroup (g_Name g))
      else if g_Host g \<in> snd seen then Inl (GrpHostClash (g_Name g) (g_Host g))
      else case check_members (nameSet cfg) (g_Name g) (g_Containers g) of
             Some e \<Rightarrow> Inl e
           | None \<Rightarrow> Inr (insert (g_Name g) (fst seen), insert (g_Host g) (snd seen)))"

fun check_groups :: "GatewayConfig \<Rightarrow> nat \<Rightarrow> GroupConfig list \<Rightarrow> seen \<Rightarrow> cfg_error option" where
  "check_groups cfg i [] seen = None"
| "check_groups cfg i (g # rest) seen =
     (case check_group cfg i g seen of
        Inl e \<Rightarrow> Some e
      | Inr seen' \<Rightarrow> check_groups cfg (Suc i) rest seen')"

definition Validate :: "libs \<Rightarrow> (nat \<Rightarrow> time) \<Rightarrow> GatewayConfig \<Rightarrow> cfg_error verdict option" where
  "Validate L clock cfg =
     (if Port (Gateway cfg) = '''' then Some (Fail EmptyPort)
      else if resolveLocation L (ScheduleTimezone (Gateway cfg)) = None
      then Some (Fail (BadTimezone (ScheduleTimezone (Gateway cfg))))
      else case check_auth (AdminAuth (Gateway cfg)) of
             Some e \<Rightarrow> Some (Fail e)
           | None \<Rightarrow>
               Option.bind (check_containers L clock cfg 0 (Containers cfg) ({}, {})) (\<lambda>r.
                 case r of
                   Inl e \<Rightarrow> Some (Fail e)
                 | Inr (_, seenHosts) \<Rightarrow>
                     (case check_groups cfg 0 (Groups cfg) ({}, seenHosts) of
                        Some e \<Rightarrow> Some (Fail e)
                      | None \<Rightarrow>
                          (case detectDependencyCycles (Containers cfg) of
                             Some e \<Rightarrow> Some (Fail (Cyclic e))
                           | None \<Rightarrow> Some Pass))))"

section \<open>The specification\<close>

definition auth_ok :: "AdminAuthConfig \<Rightarrow> bool" where
  "auth_ok a \<longleftrightarrow>
     a_Method a \<in> {'''', ''none''} \<or>
     a_Method a = ''basic'' \<and> a_Username a \<noteq> '''' \<and> a_Password a \<noteq> '''' \<or>
     a_Method a = ''bearer'' \<and> a_Token a \<noteq> ''''"

definition container_ok :: "libs \<Rightarrow> GatewayConfig \<Rightarrow> ContainerConfig \<Rightarrow> bool" where
  "container_ok L cfg c \<longleftrightarrow>
     c_Name c \<noteq> '''' \<and> c_TargetPort c \<noteq> '''' \<and>
     (c_Host c = '''' \<longrightarrow> c_Name c \<in> groupMembers cfg \<union> depTargets cfg) \<and>
     set (c_DependsOn c) \<subseteq> nameSet cfg - {c_Name c} \<and>
     (c_ScheduleTimezone c \<noteq> '''' \<longrightarrow> resolveLocation L (c_ScheduleTimezone c) \<noteq> None)"

definition group_ok :: "GatewayConfig \<Rightarrow> GroupConfig \<Rightarrow> bool" where
  "group_ok cfg g \<longleftrightarrow>
     g_Name g \<noteq> '''' \<and> g_Host g \<noteq> '''' \<and> g_Containers g \<noteq> [] \<and>
     set (g_Containers g) \<subseteq> nameSet cfg"

definition ctr_hosts :: "ContainerConfig list \<Rightarrow> string list" where
  "ctr_hosts cs = filter (\<lambda>h. h \<noteq> '''') (map c_Host cs)"

text \<open>
  A configuration is valid when its parts are well formed, names are unique, every host is
  claimed once (by a container or by a group), and no container depends on itself through
  others.
\<close>

definition valid_config :: "libs \<Rightarrow> GatewayConfig \<Rightarrow> bool" where
  "valid_config L cfg \<longleftrightarrow>
     Port (Gateway cfg) \<noteq> '''' \<and>
     resolveLocation L (ScheduleTimezone (Gateway cfg)) \<noteq> None \<and>
     auth_ok (AdminAuth (Gateway cfg)) \<and>
     (\<forall>c \<in> set (Containers cfg). container_ok L cfg c) \<and>
     (\<forall>g \<in> set (Groups cfg). group_ok cfg g) \<and>
     distinct (map c_Name (Containers cfg)) \<and>
     distinct (map g_Name (Groups cfg)) \<and>
     distinct (ctr_hosts (Containers cfg) @ map g_Host (Groups cfg)) \<and>
     acyclic (dep_rel (Containers cfg))"

definition schedules_ok :: "libs \<Rightarrow> (nat \<Rightarrow> time) \<Rightarrow> GatewayConfig \<Rightarrow> bool" where
  "schedules_ok L clock cfg \<longleftrightarrow>
     (\<forall>i < length (Containers cfg).
        check_schedule L (clock i) cfg (Containers cfg ! i) = Some Pass)"

section \<open>The checks implement the specification\<close>

lemma check_auth_None: "check_auth a = None \<longleftrightarrow> auth_ok a"
  by (auto simp: check_auth_def auth_ok_def)

lemma check_deps_None:
  "check_deps names self deps = None \<longleftrightarrow> set deps \<subseteq> names - {self}"
  by (induction deps) auto

lemma check_members_None: "check_members names g cns = None \<longleftrightarrow> set cns \<subseteq> names"
  by (induction cns) auto

lemma check_container_Inr:
  "check_container L now cfg i ctr seen = Some (Inr seen') \<longleftrightarrow>
     container_ok L cfg ctr \<and> c_Name ctr \<notin> fst seen \<and>
     (c_Host ctr \<noteq> '''' \<longrightarrow> c_Host ctr \<notin> snd seen) \<and>
     check_schedule L now cfg ctr = Some Pass \<and>
     seen' = (insert (c_Name ctr) (fst seen), snd seen \<union> set (ctr_hosts [ctr]))"
  unfolding check_container_def container_ok_def Let_def check_deps_None [symmetric]
  by (cases "check_deps (nameSet cfg) (c_Name ctr) (c_DependsOn ctr)"; cases "check_schedule L now cfg ctr")
    (auto simp: ctr_hosts_def split: verdict.splits)

lemma check_containers_Inr:
  "check_containers L clock cfg i cs seen = Some (Inr seen') \<longleftrightarrow>
     (\<forall>c \<in> set cs. container_ok L cfg c) \<and>
     distinct (map c_Name cs) \<and> c_Name ` set cs \<inter> fst seen = {} \<and>
     distinct (ctr_hosts cs) \<and> set (ctr_hosts cs) \<inter> snd seen = {} \<and>
     (\<forall>j < length cs. check_schedule L (clock (i + j)) cfg (cs ! j) = Some Pass) \<and>
     seen' = (c_Name ` set cs \<union> fst seen, set (ctr_hosts cs) \<union> snd seen)"
proof (induction cs arbitrary: i seen)
  case Nil
  then show ?case by (auto simp: ctr_hosts_def)
next
  case (Cons c cs)
  let ?mid = "(insert (c_Name c) (fst seen), snd seen \<union> set (ctr_hosts [c]))"
  have "check_containers L clock cfg i (c # cs) seen = Some (Inr seen') \<longleftrightarrow>
      check_container L (clock i) cfg i c seen = Some (Inr ?mid) \<and>
      check_containers L clock cfg (Suc i) cs ?mid = Some (Inr seen')"
    using check_container_Inr [of L "clock i" cfg i c seen]
    by (cases "check_container L (clock i) cfg i c seen") (auto split: sum.splits)
  moreover have "(\<forall>j < length (c # cs). check_schedule L (clock (i + j)) cfg ((c # cs) ! j) = Some Pass) \<longleftrightarrow>
      check_schedule L (clock i) cfg c = Some Pass \<and>
      (\<forall>j < length cs. check_schedule L (clock (Suc i + j)) cfg (cs ! j) = Some Pass)"
    by (simp add: All_less_Suc2)
  ultimately show ?case
    unfolding Cons.IH check_container_Inr by (auto simp: ctr_hosts_def)
qed

lemma check_group_Inr:
  "check_group cfg i g seen = Inr seen' \<longleftrightarrow>
     group_ok cfg g \<and> g_Name g \<notin> fst seen \<and> g_Host g \<notin> snd seen \<and>
     seen' = (insert (g_Name g) (fst seen), insert (g_Host g) (snd seen))"
  unfolding check_group_def group_ok_def check_members_None [symmetric, of _ _ "g_Name g"]
  by (cases "check_members (nameSet cfg) (g_Name g) (g_Containers g)") auto

lemma check_groups_None:
  "check_groups cfg i gs seen = None \<longleftrightarrow>
     (\<forall>g \<in> set gs. group_ok cfg g) \<and>
     distinct (map g_Name gs) \<and> g_Name ` set gs \<inter> fst seen = {} \<and>
     distinct (map g_Host gs) \<and> g_Host ` set gs \<inter> snd seen = {}"
proof (induction gs arbitrary: i seen)
  case Nil
  then show ?case by simp
next
  case (Cons g gs)
  have "check_groups cfg i (g # gs) seen = None \<longleftrightarrow>
      (\<exists>mid. check_group cfg i g seen = Inr mid \<and> check_groups cfg (Suc i) gs mid = None)"
    by (auto split: sum.splits)
  then show ?case unfolding check_group_Inr by (auto simp: Cons.IH)
qed

lemma Validate_Pass:
  "Validate L clock cfg = Some Pass \<longleftrightarrow> valid_config L cfg \<and> schedules_ok L clock cfg"
proof -
  let ?chk = "check_containers L clock cfg 0 (Containers cfg) ({}, {})"
  have "Validate L clock cfg = Some Pass \<longleftrightarrow>
      Port (Gateway cfg) \<noteq> '''' \<and> resolveLocation L (ScheduleTimezone (Gateway cfg)) \<noteq> None \<and>
      auth_ok (AdminAuth (Gateway cfg)) \<and>
      (\<exists>n h. ?chk = Some (Inr (n, h)) \<and> check_groups cfg 0 (Groups cfg) ({}, h) = None) \<and>
      detectDependencyCycles (Containers cfg) = None"
    unfolding check_auth_None [symmetric] Validate_def
    by (cases "check_auth (AdminAuth (Gateway cfg))"; cases ?chk)
      (auto split: option.splits sum.splits)
  then show ?thesis
    unfolding check_containers_Inr check_groups_None detect_None_iff valid_config_def schedules_ok_def
    by auto
qed

text \<open>
  C1 (equivalence, \<^verbatim>\<open>Validate\<close>): validation accepts a configuration exactly when it
  satisfies the declarative specification and every container's schedules are compatible.
\<close>

theorem Validate_iff_valid:
  "Validate L clock cfg = Some Pass \<longleftrightarrow> valid_config L cfg \<and> schedules_ok L clock cfg"
  by (rule Validate_Pass)

lemma check_containers_total:
  assumes "\<And>e s. parse_cron L e = Inr s \<Longrightarrow> advances s"
  shows "\<exists>r. check_containers L clock cfg i cs seen = Some r"
proof (induction cs arbitrary: i seen)
  case Nil
  then show ?case by simp
next
  case (Cons c cs)
  have "\<exists>v. check_schedule L (clock i) cfg c = Some v"
    using validateScheduleCompatibility_total [of "parse_cron L", OF assms]
    by (auto simp: check_schedule_def Let_def)
  then have "\<exists>r. check_container L (clock i) cfg i c seen = Some r"
    by (auto simp: check_container_def Let_def split: option.splits)
  with Cons.IH show ?case by (auto split: sum.splits)
qed

lemma Validate_returns:
  assumes "\<And>e s. parse_cron L e = Inr s \<Longrightarrow> advances s"
  shows "\<exists>v. Validate L clock cfg = Some v"
proof -
  obtain r where "check_containers L clock cfg 0 (Containers cfg) ({}, {}) = Some r"
    using check_containers_total [of L] assms by blast
  then show ?thesis
    by (auto simp: Validate_def split: option.splits sum.splits)
qed

text \<open>
  \<^verbatim>\<open>Validate\<close>: validation returns a verdict for every configuration,
  provided the cron library's \<open>Next\<close> advances.
\<close>

theorem Validate_total:
  assumes "\<And>e s. parse_cron L e = Inr s \<Longrightarrow> advances s"
  shows "\<exists>v. Validate L clock cfg = Some v"
  using assms by (rule Validate_returns)

section \<open>What a valid configuration guarantees\<close>

lemma valid_known_deps:
  assumes "valid_config L cfg" and "b \<in> set (deps_of (Containers cfg) a)"
  shows "b \<in> c_Name ` set (Containers cfg)"
proof -
  from assms(2) obtain c where "container_map (Containers cfg) a = Some c" "b \<in> set (c_DependsOn c)"
    by (cases "container_map (Containers cfg) a") (auto simp: deps_of_def)
  with container_map_Some [of "Containers cfg" a c] assms(1)
  show ?thesis by (auto simp: valid_config_def container_ok_def nameSet_def)
qed

lemma valid_TopologicalSort:
  assumes "valid_config L cfg" and "n \<in> c_Name ` set (Containers cfg)"
  shows "\<exists>order. TopologicalSort n (Containers cfg) = Inr order"
  using assms valid_known_deps [OF assms(1)]
  by (intro TopologicalSort_total) (simp_all add: valid_config_def)

lemma valid_container_map:
  assumes "valid_config L cfg" and "c \<in> set (Containers cfg)"
  shows "container_map (Containers cfg) (c_Name c) = Some c"
  using assms name_index.index_unique [of "Containers cfg" c] by (simp add: valid_config_def)

text \<open>
  \<^verbatim>\<open>Validate\<close> and \<^verbatim>\<open>TopologicalSort\<close>: once a configuration has passed
  validation, sorting the dependencies of any of its containers cannot fail, so neither a
  start sequence nor the activity chain ever takes its error path.
\<close>

theorem valid_config_sortable:
  assumes "Validate L clock cfg = Some Pass" and "c \<in> set (Containers cfg)"
  shows "\<exists>order. TopologicalSort (c_Name c) (Containers cfg) = Inr order"
  using assms valid_TopologicalSort by (auto simp: Validate_Pass)

lemma valid_hosts:
  assumes "valid_config L cfg"
  shows "distinct (map c_Host (filter (\<lambda>c. c_Host c \<noteq> '''') (Containers cfg)))"
    and "distinct (map g_Host (filter (\<lambda>g. g_Host g \<noteq> '''') (Groups cfg)))"
    and "c \<in> set (Containers cfg) \<Longrightarrow> g \<in> set (Groups cfg) \<Longrightarrow> c_Host c \<noteq> '''' \<Longrightarrow> c_Host c \<noteq> g_Host g"
proof -
  have d: "distinct (ctr_hosts (Containers cfg) @ map g_Host (Groups cfg))"
    and g: "\<forall>g \<in> set (Groups cfg). group_ok cfg g"
    using assms by (simp_all add: valid_config_def)
  from d show "distinct (map c_Host (filter (\<lambda>c. c_Host c \<noteq> '''') (Containers cfg)))"
    by (simp add: ctr_hosts_def filter_map comp_def)
  from g have "filter (\<lambda>g. g_Host g \<noteq> '''') (Groups cfg) = Groups cfg"
    by (auto simp: group_ok_def filter_id_conv)
  with d show "distinct (map g_Host (filter (\<lambda>g. g_Host g \<noteq> '''') (Groups cfg)))" by simp
  show "c_Host c \<noteq> g_Host g"
    if "c \<in> set (Containers cfg)" "g \<in> set (Groups cfg)" "c_Host c \<noteq> ''''"
    using d that by (auto simp: ctr_hosts_def)
qed

text \<open>
  The indexes: in a valid configuration the host index returns exactly
  the container with that host, the group index exactly the group, the name index exactly
  the container of that name, and no host is in both host indexes.
\<close>

theorem valid_config_indexes:
  assumes "valid_config L cfg"
  shows "(BuildHostIndex cfg h = Some c \<longleftrightarrow> c \<in> set (Containers cfg) \<and> c_Host c = h \<and> h \<noteq> '''') \<and>
    (BuildGroupHostIndex cfg h = Some g \<longleftrightarrow> g \<in> set (Groups cfg) \<and> g_Host g = h) \<and>
    (BuildContainerMap cfg n = Some c \<longleftrightarrow> c \<in> set (Containers cfg) \<and> c_Name c = n) \<and>
    \<not> (h \<in> dom (BuildHostIndex cfg) \<and> h \<in> dom (BuildGroupHostIndex cfg))"
proof (intro conjI)
  note hosts = valid_hosts [OF assms]
  have gne: "g_Host g \<noteq> ''''" if "g \<in> set (Groups cfg)" for g
    using assms that by (auto simp: valid_config_def group_ok_def)
  show "BuildHostIndex cfg h = Some c \<longleftrightarrow> c \<in> set (Containers cfg) \<and> c_Host c = h \<and> h \<noteq> ''''"
    using host_index.index_unique [OF hosts(1), of c] host_index.index_SomeD [of cfg h c] by auto
  show "BuildGroupHostIndex cfg h = Some g \<longleftrightarrow> g \<in> set (Groups cfg) \<and> g_Host g = h"
    using group_index.index_unique [OF hosts(2), of g] group_index.index_SomeD [of cfg h g] gne by auto
  show "BuildContainerMap cfg n = Some c \<longleftrightarrow> c \<in> set (Containers cfg) \<and> c_Name c = n"
    using valid_container_map [OF assms, of c] container_map_Some [of "Containers cfg" n c]
    by (auto simp: BuildContainerMap_def)
  show "\<not> (h \<in> dom (BuildHostIndex cfg) \<and> h \<in> dom (BuildGroupHostIndex cfg))"
    using hosts(3) by (auto simp: host_index.index_dom group_index.index_dom)
qed

section \<open>A concrete configuration\<close>

definition demo_libs :: libs where
  "demo_libs = \<lparr>tzdb = (\<lambda>n. n = ''Europe/Rome''), parse_cron = demo_parse\<rparr>"

definition demo_global :: GlobalConfig where
  "demo_global = \<lparr>Port = ''8080'', LogLines = 30, TrustedProxies = [], DiscoveryInterval = 15 * second,
     AdminAuth = \<lparr>a_Method = ''none'', a_Username = '''', a_Password = '''', a_Token = ''''\<rparr>,
     ScheduleTimezone = ''''\<rparr>"

definition demo_cfg :: GatewayConfig where
  "demo_cfg = \<lparr>Gateway = demo_global,
     Containers = [mk_ctr ''app'' ''app.localhost'' [''api''], mk_ctr ''api'' '''' [''db''], mk_ctr ''db'' '''' []],
     Groups = []\<rparr>"

lemma demo_deps:
  "deps_of (Containers demo_cfg) =
     (\<lambda>n. if n = ''app'' then [''api''] else if n = ''api'' then [''db''] else [])"
  by (auto simp: demo_cfg_def deps_of_def container_map_def fun_eq_iff)

lemma demo_detect: "detectDependencyCycles (Containers demo_cfg) = None"
  unfolding detectDependencyCycles_def
  by (simp add: demo_cfg_def cyc_visit.simps(2) demo_deps [unfolded demo_cfg_def, simplified])

lemma demo_valid: "Validate demo_libs clock demo_cfg = Some Pass"
proof -
  have "acyclic (dep_rel (Containers demo_cfg))" using demo_detect detect_None_iff by blast
  then have "valid_config demo_libs demo_cfg" unfolding valid_config_def
    by (simp add: demo_cfg_def demo_global_def resolveLocation_def ResolveLocation_def auth_ok_def
        container_ok_def nameSet_def groupMembers_def depTargets_def ctr_hosts_def)
  moreover have "schedules_ok demo_libs clock demo_cfg"
    by (simp add: schedules_ok_def check_schedule_def demo_cfg_def All_less_Suc2)
  ultimately show ?thesis by (simp add: Validate_Pass)
qed

lemma demo_advances: "parse_cron demo_libs e = Inr s \<Longrightarrow> advances s"
  using daily_contract monthly_contract
  by (auto simp: demo_libs_def demo_parse_def dest!: cron_contract_advances split: if_splits)

lemma Validate_total_witness: "\<exists>v. Validate demo_libs (\<lambda>_. 0) demo_cfg = Some v"
  by (rule Validate_total) (rule demo_advances)

lemma valid_config_sortable_witness:
  "\<exists>order. TopologicalSort ''app'' (Containers demo_cfg) = Inr order"
  using valid_config_sortable [OF demo_valid, of "mk_ctr ''app'' ''app.localhost'' [''api'']"]
  by (simp add: demo_cfg_def)

lemma valid_config_indexes_witness:
  "BuildHostIndex demo_cfg ''app.localhost'' = Some (mk_ctr ''app'' ''app.localhost'' [''api''])"
  using valid_config_indexes [of demo_libs demo_cfg] demo_valid [unfolded Validate_Pass]
  by (auto simp: demo_cfg_def)

end
