(* ===== verification/SchedManager.thy ===== *)
theory SchedManager
  imports Awakening Validation
begin

text \<open>
  The schedule manager of \<^verbatim>\<open>gateway/scheduler.go\<close>: registering the start and stop jobs of
  the containers with the cron library, and what the jobs do.

  The library \<^verbatim>\<open>robfig/cron\<close> is outside the program: it is the record \<open>cronlib\<close> over a
  state of any type \<open>'c\<close>, and \<open>cron_lib_ok\<close> states its documented behaviour, of which the
  code relies on no more than this: an accepted expression is registered under a new eid, a
  refused one is not, removing an eid removes that entry only, and an expression the parser
  accepts is accepted.
\<close>

datatype job = StartJob ContainerConfig | StopJob ContainerConfig

record 'c cronlib =
  AddFunc :: "string \<Rightarrow> job \<Rightarrow> 'c \<Rightarrow> (string + nat) \<times> 'c"
  RemoveEntry :: "nat \<Rightarrow> 'c \<Rightarrow> 'c"
  cron_jobs :: "'c \<Rightarrow> nat \<Rightarrow> (string \<times> job) option"

definition cron_lib_ok :: "libs \<Rightarrow> 'c cronlib \<Rightarrow> bool" where
  "cron_lib_ok L C \<longleftrightarrow>
     (\<forall>spec j c. case AddFunc C spec j c of
        (Inl err, c') \<Rightarrow> cron_jobs C c' = cron_jobs C c
      | (Inr eid, c') \<Rightarrow> cron_jobs C c eid = None \<and> cron_jobs C c' = (cron_jobs C c)(eid \<mapsto> (spec, j))) \<and>
     (\<forall>eid c. cron_jobs C (RemoveEntry C eid c) = (cron_jobs C c)(eid := None)) \<and>
     (\<forall>spec j c. (\<exists>s. parse_cron L spec = Inr s) \<longrightarrow> (\<exists>eid c'. AddFunc C spec j c = (Inr eid, c')))"

text \<open>
  The map \<^verbatim>\<open>entries\<close> is an association list with distinct keys, in some order of ranging
  over it.
\<close>

record 'c sched =
  sm_cron :: 'c
  sm_entries :: "(string \<times> nat list) list"

definition NewScheduleManager :: "'c \<Rightarrow> 'c sched" where
  "NewScheduleManager c = \<lparr>sm_cron = c, sm_entries = []\<rparr>"

section \<open>Sync\<close>

definition set_entry :: "string \<Rightarrow> nat list \<Rightarrow> (string \<times> nat list) list \<Rightarrow> (string \<times> nat list) list" where
  "set_entry name ids es = filter (\<lambda>e. fst e \<noteq> name) es @ [(name, ids)]"

definition effective_loc :: "libs \<Rightarrow> location option \<Rightarrow> ContainerConfig \<Rightarrow> location option" where
  "effective_loc L loc cfg =
     (if c_ScheduleTimezone cfg \<noteq> '''' then
        (case resolveLocation L (c_ScheduleTimezone cfg) of Some l \<Rightarrow> Some l | None \<Rightarrow> loc)
      else loc)"

text \<open>One \<open>AddFunc\<close> with its error check; \<open>None\<close> is the \<open>continue\<close> of a refused expression.\<close>

definition add_job :: "'c cronlib \<Rightarrow> string \<Rightarrow> location option \<Rightarrow> job \<Rightarrow> nat list \<Rightarrow> 'c \<Rightarrow> nat list option \<times> 'c" where
  "add_job C expr loc j ids c =
     (if expr \<noteq> '''' then
        (case AddFunc C (cronExprFromLoc expr loc) j c of
           (Inl err, c') \<Rightarrow> (None, c')
         | (Inr eid, c') \<Rightarrow> (Some (ids @ [eid]), c'))
      else (Some ids, c))"

definition sync_one :: "libs \<Rightarrow> 'c cronlib \<Rightarrow> location option \<Rightarrow> 'c sched \<Rightarrow> ContainerConfig \<Rightarrow> 'c sched" where
  "sync_one L C loc sm cfg =
     (if c_ScheduleStart cfg = '''' \<and> c_ScheduleStop cfg = '''' then sm
      else
        (let eff = effective_loc L loc cfg in
         case add_job C (c_ScheduleStart cfg) eff (StartJob cfg) [] (sm_cron sm) of
           (None, c1) \<Rightarrow> sm\<lparr>sm_cron := c1\<rparr>
         | (Some ids1, c1) \<Rightarrow>
             (case add_job C (c_ScheduleStop cfg) eff (StopJob cfg) ids1 c1 of
                (None, c2) \<Rightarrow> sm\<lparr>sm_cron := c2\<rparr>
              | (Some ids2, c2) \<Rightarrow>
                  sm\<lparr>sm_cron := c2,
                     sm_entries := (if 0 < length ids2 then set_entry (c_Name cfg) ids2 (sm_entries sm)
                                    else sm_entries sm)\<rparr>)))"

definition Sync :: "libs \<Rightarrow> 'c cronlib \<Rightarrow> ContainerConfig list \<Rightarrow> location option \<Rightarrow> 'c sched \<Rightarrow> 'c sched" where
  "Sync L C containers loc sm =
     (let cleared = foldl (\<lambda>c e. foldl (\<lambda>c eid. RemoveEntry C eid c) c (snd e)) (sm_cron sm) (sm_entries sm)
      in foldl (sync_one L C loc) (sm\<lparr>sm_cron := cleared, sm_entries := []\<rparr>) containers)"

section \<open>The jobs\<close>

definition WithTimeout :: "'w env \<Rightarrow> duration \<Rightarrow> 'w mgr \<Rightarrow> ctx \<times> 'w mgr" where
  "WithTimeout E d m = (case time_Now E m of (t, m') \<Rightarrow> (CtxDeadline (t + d), m'))"

definition run_job :: "'w env \<Rightarrow> job \<Rightarrow> 'w mgr \<Rightarrow> 'w mgr option" where
  "run_job E j m =
     (case j of
        StartJob cfg \<Rightarrow>
          (case WithTimeout E (c_StartTimeout cfg) m of
             (ctx, m1) \<Rightarrow> map_option snd (EnsureRunning E ctx cfg (InitStartState (c_Name cfg) m1)))
      | StopJob cfg \<Rightarrow>
          (case WithTimeout E (30 * second) m of
             (ctx, m1) \<Rightarrow> Some (snd (on_io (StopContainer E ctx (c_Name cfg)) m1))))"

section \<open>What Sync registers\<close>

text \<open>The jobs a list of containers calls for.\<close>

definition container_jobs :: "libs \<Rightarrow> location option \<Rightarrow> ContainerConfig \<Rightarrow> (string \<times> job) set" where
  "container_jobs L loc c =
     (if c_ScheduleStart c \<noteq> '''' then {(cronExprFromLoc (c_ScheduleStart c) (effective_loc L loc c), StartJob c)} else {}) \<union>
     (if c_ScheduleStop c \<noteq> '''' then {(cronExprFromLoc (c_ScheduleStop c) (effective_loc L loc c), StopJob c)} else {})"

definition schedules_parse :: "libs \<Rightarrow> location option \<Rightarrow> ContainerConfig \<Rightarrow> bool" where
  "schedules_parse L loc c \<longleftrightarrow>
     (\<forall>(spec, j) \<in> container_jobs L loc c. \<exists>s. parse_cron L spec = Inr s)"

text \<open>
  The bookkeeping invariant: every registered job is listed under a container, so the next
  \<open>Sync\<close> can remove it, and no job is registered twice.
\<close>

definition entry_ids :: "'c sched \<Rightarrow> nat set" where
  "entry_ids sm = (\<Union>e \<in> set (sm_entries sm). set (snd e))"

definition sched_inv :: "'c cronlib \<Rightarrow> 'c sched \<Rightarrow> bool" where
  "sched_inv C sm \<longleftrightarrow>
     dom (cron_jobs C (sm_cron sm)) = entry_ids sm \<and>
     inj_on (cron_jobs C (sm_cron sm)) (dom (cron_jobs C (sm_cron sm)))"

lemma cron_removed:
  assumes "cron_lib_ok L C"
  shows "cron_jobs C (foldl (\<lambda>c eid. RemoveEntry C eid c) c ids) = (cron_jobs C c) |` (- set ids)"
proof (induction ids arbitrary: c)
  case (Cons i ids)
  have "cron_jobs C (RemoveEntry C i c) = (cron_jobs C c)(i := None)"
    using assms by (simp add: cron_lib_ok_def)
  with Cons show ?case by (auto simp: fun_eq_iff restrict_map_def)
qed (simp add: restrict_map_def)

lemma cron_cleared:
  assumes "cron_lib_ok L C"
  shows "cron_jobs C (foldl (\<lambda>c e. foldl (\<lambda>c eid. RemoveEntry C eid c) c (snd e)) c es) =
    (cron_jobs C c) |` (- (\<Union>e \<in> set es. set (snd e)))"
proof (induction es arbitrary: c)
  case (Cons e es)
  then show ?case by (auto simp: cron_removed [OF assms] fun_eq_iff restrict_map_def)
qed (simp add: restrict_map_def)

lemma cron_lib_okD:
  "cron_lib_ok L C \<Longrightarrow> case AddFunc C spec j c of
     (Inl err, c') \<Rightarrow> cron_jobs C c' = cron_jobs C c
   | (Inr eid, c') \<Rightarrow> cron_jobs C c eid = None \<and> cron_jobs C c' = (cron_jobs C c)(eid \<mapsto> (spec, j))"
  by (simp add: cron_lib_ok_def)

lemma add_job_spec:
  assumes ok: "cron_lib_ok L C" and parse: "expr \<noteq> '''' \<longrightarrow> (\<exists>s. parse_cron L (cronExprFromLoc expr loc) = Inr s)"
  obtains (none) "expr = ''''" and "add_job C expr loc j ids c = (Some ids, c)"
    | (added) eid c' where "expr \<noteq> ''''" and "add_job C expr loc j ids c = (Some (ids @ [eid]), c')"
        and "cron_jobs C c eid = None" and "cron_jobs C c' = (cron_jobs C c)(eid \<mapsto> (cronExprFromLoc expr loc, j))"
proof (cases "expr = ''''")
  case True
  with none show thesis by (simp add: add_job_def)
next
  case False
  with parse ok obtain eid c' where a: "AddFunc C (cronExprFromLoc expr loc) j c = (Inr eid, c')"
    unfolding cron_lib_ok_def by metis
  with cron_lib_okD [OF ok, where spec = "cronExprFromLoc expr loc" and j = j and c = c] added [of eid c'] False show thesis by (simp add: add_job_def)
qed

text \<open>What holds after a prefix of the containers.\<close>

definition synced :: "libs \<Rightarrow> 'c cronlib \<Rightarrow> location option \<Rightarrow> ContainerConfig list \<Rightarrow> 'c sched \<Rightarrow> bool" where
  "synced L C loc cs sm \<longleftrightarrow>
     sched_inv C sm \<and> ran (cron_jobs C (sm_cron sm)) = (\<Union>c \<in> set cs. container_jobs L loc c) \<and>
     fst ` set (sm_entries sm) = c_Name ` {c \<in> set cs. container_jobs L loc c \<noteq> {}}"

lemma inj_on_upd:
  assumes "inj_on f (dom f)" and "f i = None" and "x \<notin> ran f"
  shows "inj_on (f(i \<mapsto> x)) (dom (f(i \<mapsto> x)))"
proof (rule inj_onI)
  fix a b
  assume a: "a \<in> dom (f(i \<mapsto> x))" and b: "b \<in> dom (f(i \<mapsto> x))" and eq: "(f(i \<mapsto> x)) a = (f(i \<mapsto> x)) b"
  have ne: "f k \<noteq> Some x" for k using assms(3) by (auto simp: ran_def)
  show "a = b"
  proof (cases "a = i \<or> b = i")
    case True
    with eq ne [of a] ne [of b] show ?thesis by (auto split: if_splits)
  next
    case False
    with a b eq assms(1) show ?thesis by (auto dest: inj_onD)
  qed
qed


text \<open>
  Registering one more job: from a map whose jobs are all of other containers, or of this
  container's start job.
\<close>

definition grown :: "(nat \<Rightarrow> (string \<times> job) option) \<Rightarrow> (nat \<Rightarrow> (string \<times> job) option) \<Rightarrow> nat list \<Rightarrow>
    (string \<times> job) set \<Rightarrow> bool" where
  "grown f g ids J \<longleftrightarrow>
     dom g = dom f \<union> set ids \<and> ran g = ran f \<union> J \<and> (inj_on f (dom f) \<longrightarrow> inj_on g (dom g)) \<and>
     (ids = [] \<longleftrightarrow> J = {})"

lemma grown_refl: "grown f f [] {}"
  by (simp add: grown_def)

lemma grown_upd:
  assumes "grown f g ids J" and "g i = None" and "x \<notin> ran f \<union> J"
  shows "grown f (g(i \<mapsto> x)) (ids @ [i]) (insert x J)"
proof -
  have "x \<notin> ran g" using assms by (simp add: grown_def)
  then have "inj_on f (dom f) \<longrightarrow> inj_on (g(i \<mapsto> x)) (dom (g(i \<mapsto> x)))"
    using assms(1,2) inj_on_upd [of g i x] unfolding grown_def by blast
  with assms show ?thesis by (simp add: grown_def)
qed

definition job_owner :: "job \<Rightarrow> string" where
  "job_owner j = (case j of StartJob c \<Rightarrow> c_Name c | StopJob c \<Rightarrow> c_Name c)"

lemma container_jobs_owner: "(s, j) \<in> container_jobs L loc c \<Longrightarrow> job_owner j = c_Name c"
  by (auto simp: container_jobs_def job_owner_def split: if_splits)

lemma sync_one_jobs:
  assumes ok: "cron_lib_ok L C" and parse: "schedules_parse L loc c"
    and fresh: "\<And>s j. (s, j) \<in> ran (cron_jobs C (sm_cron sm)) \<Longrightarrow> job_owner j \<noteq> c_Name c"
  shows "\<exists>ids. grown (cron_jobs C (sm_cron sm)) (cron_jobs C (sm_cron (sync_one L C loc sm c))) ids (container_jobs L loc c) \<and>
    sm_entries (sync_one L C loc sm c) =
      (if ids = [] then sm_entries sm else set_entry (c_Name c) ids (sm_entries sm))"
proof (cases "c_ScheduleStart c = '''' \<and> c_ScheduleStop c = ''''")
  case True
  then have "container_jobs L loc c = {}" by (simp add: container_jobs_def)
  moreover have "sync_one L C loc sm c = sm" using True by (simp add: sync_one_def)
  ultimately show ?thesis using grown_refl by (intro exI [of _ "[]"]) simp
next
  case False
  let ?eff = "effective_loc L loc c" and ?f = "cron_jobs C (sm_cron sm)"
  let ?start = "(cronExprFromLoc (c_ScheduleStart c) ?eff, StartJob c)"
  let ?stop = "(cronExprFromLoc (c_ScheduleStop c) ?eff, StopJob c)"
  have new: "?start \<notin> ran ?f" "?stop \<notin> ran ?f" using fresh by (fastforce simp: job_owner_def)+
  have p1: "c_ScheduleStart c \<noteq> '''' \<longrightarrow> (\<exists>s. parse_cron L (cronExprFromLoc (c_ScheduleStart c) ?eff) = Inr s)"
    and p2: "c_ScheduleStop c \<noteq> '''' \<longrightarrow> (\<exists>s. parse_cron L (cronExprFromLoc (c_ScheduleStop c) ?eff) = Inr s)"
    using parse by (auto simp: schedules_parse_def container_jobs_def split: if_splits)
  obtain ids1 c1 where a1: "add_job C (c_ScheduleStart c) ?eff (StartJob c) [] (sm_cron sm) = (Some ids1, c1)"
    and g1: "grown ?f (cron_jobs C c1) ids1 (if c_ScheduleStart c \<noteq> '''' then {?start} else {})"
  proof (cases rule: add_job_spec [OF ok p1, of "StartJob c" "[]" "sm_cron sm", case_names none added])
    case none
    with that grown_refl show thesis by simp
  next
    case (added i c')
    with that grown_upd [where f = ?f, OF grown_refl added(3), of ?start] new show thesis by simp
  qed
  obtain ids2 c2 where a2: "add_job C (c_ScheduleStop c) ?eff (StopJob c) ids1 c1 = (Some ids2, c2)"
    and g2: "grown ?f (cron_jobs C c2) ids2 (container_jobs L loc c)"
  proof (cases rule: add_job_spec [OF ok p2, of "StopJob c" ids1 c1, case_names none added])
    case none
    with that g1 show thesis by (simp add: container_jobs_def)
  next
    case (added i c')
    have "?stop \<notin> ran ?f \<union> (if c_ScheduleStart c \<noteq> '''' then {?start} else {})" using new by auto
    from grown_upd [OF g1 added(3) this] added that show thesis
      by (auto simp: container_jobs_def insert_commute split: if_splits)
  qed
  have "sync_one L C loc sm c = sm\<lparr>sm_cron := c2,
      sm_entries := (if 0 < length ids2 then set_entry (c_Name c) ids2 (sm_entries sm) else sm_entries sm)\<rparr>"
    unfolding sync_one_def if_not_P [OF False] Let_def a1 by (simp add: a2)
  with g2 show ?thesis by (intro exI [of _ ids2]) simp
qed

lemma sync_one_synced:
  assumes ok: "cron_lib_ok L C" and parse: "schedules_parse L loc c"
    and s: "synced L C loc ps sm" and fresh: "c_Name c \<notin> c_Name ` set ps"
  shows "synced L C loc (ps @ [c]) (sync_one L C loc sm c)"
proof -
  have own: "job_owner j \<noteq> c_Name c" if "(t, j) \<in> ran (cron_jobs C (sm_cron sm))" for t j
  proof -
    from that s obtain p where "p \<in> set ps" "(t, j) \<in> container_jobs L loc p" by (auto simp: synced_def)
    then have "c_Name p \<in> c_Name ` set ps" "job_owner j = c_Name p"
      using container_jobs_owner by (blast, metis)
    with fresh show ?thesis by auto
  qed
  have "\<exists>ids. grown (cron_jobs C (sm_cron sm)) (cron_jobs C (sm_cron (sync_one L C loc sm c))) ids (container_jobs L loc c) \<and>
    sm_entries (sync_one L C loc sm c) = (if ids = [] then sm_entries sm else set_entry (c_Name c) ids (sm_entries sm))"
    by (rule sync_one_jobs [OF ok parse]) (rule own)
  then obtain ids where
    g: "grown (cron_jobs C (sm_cron sm)) (cron_jobs C (sm_cron (sync_one L C loc sm c))) ids (container_jobs L loc c)"
    and e: "sm_entries (sync_one L C loc sm c) =
      (if ids = [] then sm_entries sm else set_entry (c_Name c) ids (sm_entries sm))" by blast
  have names: "c_Name c \<notin> fst ` set (sm_entries sm)" using s fresh by (auto simp: synced_def)
  then have "filter (\<lambda>e. fst e \<noteq> c_Name c) (sm_entries sm) = sm_entries sm"
    by (force simp: filter_id_conv)
  then have e': "sm_entries (sync_one L C loc sm c) = sm_entries sm @ (if ids = [] then [] else [(c_Name c, ids)])"
    using e by (simp add: set_entry_def)
  have ids: "ids = [] \<longleftrightarrow> container_jobs L loc c = {}" using g by (simp add: grown_def)
  have "sched_inv C (sync_one L C loc sm c)"
    using s g by (auto simp: synced_def sched_inv_def entry_ids_def grown_def e')
  moreover have "ran (cron_jobs C (sm_cron (sync_one L C loc sm c))) = (\<Union>c \<in> set (ps @ [c]). container_jobs L loc c)"
    using s g by (auto simp: synced_def grown_def)
  moreover have "fst ` set (sm_entries (sync_one L C loc sm c)) =
      c_Name ` {p \<in> set (ps @ [c]). container_jobs L loc p \<noteq> {}}"
    using s ids by (auto simp: synced_def e')
  ultimately show ?thesis by (simp add: synced_def)
qed

lemma Sync_synced:
  assumes ok: "cron_lib_ok L C" and inv: "sched_inv C sm"
    and parse: "\<And>c. c \<in> set cs \<Longrightarrow> schedules_parse L loc c" and dist: "distinct (map c_Name cs)"
  shows "synced L C loc cs (Sync L C cs loc sm)"
proof -
  let ?c0 = "foldl (\<lambda>c e. foldl (\<lambda>c eid. RemoveEntry C eid c) c (snd e)) (sm_cron sm) (sm_entries sm)"
  let ?s0 = "sm\<lparr>sm_cron := ?c0, sm_entries := []\<rparr>"
  have "cron_jobs C ?c0 = Map.empty"
  proof
    fix i
    have "i \<in> entry_ids sm \<or> cron_jobs C (sm_cron sm) i = None"
      using inv by (auto simp: sched_inv_def domIff)
    then show "cron_jobs C ?c0 i = None"
      unfolding cron_cleared [OF ok] by (auto simp: entry_ids_def restrict_map_def)
  qed
  then have s0: "synced L C loc [] ?s0" by (simp add: synced_def sched_inv_def entry_ids_def)
  have "synced L C loc (ps @ qs) (foldl (sync_one L C loc) s qs)"
    if "synced L C loc ps s" "ps @ qs = cs" for ps qs s
    using that
  proof (induction qs arbitrary: ps s)
    case (Cons q qs)
    have q: "q \<in> set cs" "distinct (map c_Name (ps @ q # qs))" using Cons.prems(2) dist by auto
    have "schedules_parse L loc q" "c_Name q \<notin> c_Name ` set ps"
      using parse [OF q(1)] q(2) by auto
    from sync_one_synced [OF ok this(1) Cons.prems(1) this(2)] Cons.IH [of "ps @ [q]"] Cons.prems(2)
    show ?case by simp
  qed simp
  from this [OF s0, of cs] show ?thesis by (simp add: Sync_def Let_def)
qed

lemma check_schedule_parse:
  assumes "check_schedule L now cfg c = Some Pass" and "loc = ResolveLocation L (ScheduleTimezone (Gateway cfg))"
    and "c_ScheduleTimezone c \<noteq> '''' \<longrightarrow> resolveLocation L (c_ScheduleTimezone c) \<noteq> None"
  shows "schedules_parse L loc c"
proof -
  have eff: "resolveLocation L (if c_ScheduleTimezone c = '''' then ScheduleTimezone (Gateway cfg) else c_ScheduleTimezone c) =
      effective_loc L loc c"
    using assms(2,3) by (auto simp: effective_loc_def resolveLocation_def)
  let ?l = "effective_loc L loc c"
  have v: "validateScheduleCompatibility (parse_cron L) now (c_ScheduleStart c) (c_ScheduleStop c) ?l = Some Pass"
    if "c_ScheduleStart c \<noteq> '''' \<or> c_ScheduleStop c \<noteq> ''''"
    using assms(1) that by (simp add: check_schedule_def Let_def eff)
  have "\<exists>s. parse_cron L (cronExprFromLoc (c_ScheduleStart c) ?l) = Inr s" if "c_ScheduleStart c \<noteq> ''''"
    using v that by (cases "parse_cron L (cronExprFromLoc (c_ScheduleStart c) ?l)")
      (auto simp: validateScheduleCompatibility_def)
  moreover have "\<exists>s. parse_cron L (cronExprFromLoc (c_ScheduleStop c) ?l) = Inr s" if "c_ScheduleStop c \<noteq> ''''"
    using v that by (cases "parse_cron L (cronExprFromLoc (c_ScheduleStop c) ?l)")
      (auto simp: validateScheduleCompatibility_def split: sum.splits option.splits if_splits)
  ultimately show ?thesis by (auto simp: schedules_parse_def container_jobs_def)
qed

lemma valid_schedules_parse:
  assumes "Validate L clock cfg = Some Pass" and "c \<in> set (Containers cfg)"
  shows "schedules_parse L (ResolveLocation L (ScheduleTimezone (Gateway cfg))) c"
proof -
  from assms obtain i where i: "i < length (Containers cfg)" "Containers cfg ! i = c"
    by (auto simp: in_set_conv_nth)
  with assms(1) have "check_schedule L (clock i) cfg c = Some Pass"
    by (auto simp: Validate_Pass schedules_ok_def)
  moreover have "c_ScheduleTimezone c \<noteq> '''' \<longrightarrow> resolveLocation L (c_ScheduleTimezone c) \<noteq> None"
    using assms by (auto simp: Validate_Pass valid_config_def container_ok_def)
  ultimately show ?thesis by (intro check_schedule_parse [OF _ refl])
qed

text \<open>
  C11 (invariant, \<^verbatim>\<open>ScheduleManager.Sync\<close>): after a \<open>Sync\<close> with a valid configuration the
  registered jobs are exactly the start and stop jobs of its containers, each once and in
  its effective time zone; nothing of an earlier configuration is left, and every job is
  listed so that the next \<open>Sync\<close> removes it.
\<close>

theorem Sync_registers_exactly:
  assumes "cron_lib_ok L C" and "sched_inv C sm" and "Validate L clock cfg = Some Pass"
    and "loc = ResolveLocation L (ScheduleTimezone (Gateway cfg))"
  shows "sched_inv C (Sync L C (Containers cfg) loc sm) \<and>
    ran (cron_jobs C (sm_cron (Sync L C (Containers cfg) loc sm))) = (\<Union>c \<in> set (Containers cfg). container_jobs L loc c)"
  using Sync_synced [OF assms(1,2), of "Containers cfg" loc] valid_schedules_parse [OF assms(3)] assms(3,4)
  by (simp add: synced_def Validate_Pass valid_config_def)

text \<open>A cron library whose state is its next id and its table, at the sample configuration.\<close>

definition list_cron :: "libs \<Rightarrow> (nat \<times> (nat \<Rightarrow> (string \<times> job) option)) cronlib" where
  "list_cron L =
     \<lparr>AddFunc = (\<lambda>spec j c. case parse_cron L spec of
        Inl e \<Rightarrow> (Inl e, c)
      | Inr _ \<Rightarrow> (Inr (fst c), (Suc (fst c), (snd c)(fst c \<mapsto> (spec, j))))),
      RemoveEntry = (\<lambda>eid c. (fst c, (snd c)(eid := None))),
      cron_jobs = (\<lambda>c i. if i < fst c then snd c i else None)\<rparr>"

lemma list_cron_ok: "cron_lib_ok L (list_cron L)"
  unfolding cron_lib_ok_def
  by (intro conjI allI; simp add: list_cron_def split: sum.split) (auto simp: fun_eq_iff)

definition early :: ContainerConfig where
  "early = mk_ctr ''app'' ''app.localhost'' []\<lparr>c_ScheduleStart := ''0 8 * * *''\<rparr>"

definition early_cfg :: GatewayConfig where
  "early_cfg = \<lparr>Gateway = demo_global, Containers = [early], Groups = []\<rparr>"

lemma early_sel [simp]:
  "c_Name early = ''app''" "c_Host early = ''app.localhost''" "c_DependsOn early = []" "c_TargetPort early = ''80''"
  "c_ScheduleStart early = ''0 8 * * *''" "c_ScheduleStop early = ''''" "c_ScheduleTimezone early = ''''"
  by (simp_all add: early_def mk_ctr_def zero_container_def)

lemma early_valid: "Validate demo_libs clock early_cfg = Some Pass"
proof -
  have "dep_rel (Containers early_cfg) = {}"
    by (auto simp: early_cfg_def dep_rel_def deps_of_def container_map_def split: option.splits if_splits)
  then have "acyclic (dep_rel (Containers early_cfg))" by (simp add: acyclic_def)
  then have "valid_config demo_libs early_cfg" unfolding valid_config_def
    by (simp add: early_cfg_def demo_global_def resolveLocation_def ResolveLocation_def auth_ok_def
        container_ok_def nameSet_def groupMembers_def depTargets_def ctr_hosts_def)
  moreover have "schedules_ok demo_libs clock early_cfg"
    by (simp add: schedules_ok_def check_schedule_def early_cfg_def validateScheduleCompatibility_def
        demo_global_def resolveLocation_def ResolveLocation_def cronExprFromLoc_def demo_libs_def demo_parse_def)
  ultimately show ?thesis by (simp add: Validate_Pass)
qed

lemma Sync_registers_exactly_witness:
  "ran (cron_jobs (list_cron demo_libs)
     (sm_cron (Sync demo_libs (list_cron demo_libs) [early] (Some LocLocal) (NewScheduleManager (0, Map.empty))))) =
   {(''0 8 * * *'', StartJob early)}"
proof -
  have inv: "sched_inv (list_cron demo_libs) (NewScheduleManager (0, Map.empty))"
    by (simp add: sched_inv_def NewScheduleManager_def list_cron_def entry_ids_def dom_def)
  have "ResolveLocation demo_libs (ScheduleTimezone (Gateway early_cfg)) = Some LocLocal"
    by (simp add: early_cfg_def demo_global_def ResolveLocation_def)
  with Sync_registers_exactly [OF list_cron_ok inv early_valid refl] show ?thesis
    by (simp add: early_cfg_def container_jobs_def effective_loc_def cronExprFromLoc_def)
qed

lemma run_job_spec:
  assumes "run_job E j m = Some m'"
  shows "case j of
      StartJob cfg \<Rightarrow> \<exists>ns. (ns = [] \<or> ns = [c_Name cfg]) \<and> effect {c_Name cfg} ns [] m m'
    | StopJob cfg \<Rightarrow> effect {} [] [c_Name cfg] m m'"
proof -
  have timeout: "effect A [] [] m m1" if "WithTimeout E d m = (ctx, m1)" for A d ctx m1
    using that effect_time_Now [of E m _ _ A] by (auto simp: WithTimeout_def split: prod.splits)
  show ?thesis
  proof (cases j)
    case (StartJob cfg)
    obtain ctx m1 where w: "WithTimeout E (c_StartTimeout cfg) m = (ctx, m1)" by (meson surj_pair)
    with assms StartJob obtain r where "EnsureRunning E ctx cfg (InitStartState (c_Name cfg) m1) = Some (r, m')"
      by (auto simp: run_job_def)
    from effect_EnsureRunning [OF this] obtain ns where ns: "ns = [] \<or> ns = [c_Name cfg]"
      and e: "effect {c_Name cfg} ns [] (InitStartState (c_Name cfg) m1) m'" by blast
    have "effect {c_Name cfg} [] [] m (InitStartState (c_Name cfg) m1)"
      by (rule effect_then_silent [OF timeout [OF w] effect_InitStartState]) simp
    from effect_silent_then [OF this e] ns StartJob show ?thesis by auto
  next
    case (StopJob cfg)
    obtain ctx m1 where w: "WithTimeout E (30 * second) m = (ctx, m1)" by (meson surj_pair)
    obtain r m2 where st: "on_io (StopContainer E ctx (c_Name cfg)) m1 = (r, m2)" by (meson surj_pair)
    with assms StopJob w have "m' = m2" by (auto simp: run_job_def)
    with effect_silent_then [OF timeout [OF w] effect_stop [OF st]] StopJob show ?thesis by simp
  qed
qed

text \<open>
  The jobs of \<^verbatim>\<open>Sync\<close>: a start job issues at most one docker start, of its own
  container, and stops nothing; a stop job issues exactly one docker stop, of its own
  container, starts nothing and leaves the activity and the start states as they are.
\<close>

theorem run_job_effect:
  assumes "run_job E j m = Some m'"
  shows "case j of
      StartJob cfg \<Rightarrow> \<exists>ns. (ns = [] \<or> ns = [c_Name cfg]) \<and> effect {c_Name cfg} ns [] m m'
    | StopJob cfg \<Rightarrow> effect {} [] [c_Name cfg] m m'"
  using assms by (rule run_job_spec)

lemma run_job_effect_witness:
  "\<exists>m'. run_job sim_env (StopJob early) (NewContainerManager ([''app''], 0)) = Some m' \<and>
     effect {} [] [''app''] (NewContainerManager ([''app''], 0)) m'"
proof -
  obtain m' where "run_job sim_env (StopJob early) (NewContainerManager ([''app''], 0)) = Some m'"
    by (simp add: run_job_def split_beta)
  with run_job_effect [OF this] show ?thesis by auto
qed

end
