(* ===== verification/GroupRouter.thy ===== *)
theory GroupRouter
  imports Config "HOL-Library.Multiset"
begin

text \<open>
  The round-robin \<^verbatim>\<open>GroupRouter\<close> of \<^verbatim>\<open>gateway/group.go\<close>. The router keeps one
  \<^verbatim>\<open>atomic.Uint64\<close> per group name; \<open>Add(1) - 1\<close> is one atomic step, so concurrent
  picks are some sequence of \<open>Pick\<close> steps.
\<close>

record GroupRouter =
  counters :: "string \<Rightarrow> 64 word option"

definition NewGroupRouter :: GroupRouter where
  "NewGroupRouter = \<lparr>counters = Map.empty\<rparr>"

definition Pick :: "GroupConfig \<Rightarrow> GroupRouter \<Rightarrow> string \<times> GroupRouter" where
  "Pick grp gr =
     (if length (g_Containers grp) = 0 then ('''', gr)
      else if length (g_Containers grp) = 1 then (g_Containers grp ! 0, gr)
      else
        let counter = (case counters gr (g_Name grp) of None \<Rightarrow> 0 | Some c \<Rightarrow> c);
            after = counter + 1;
            gr' = gr\<lparr>counters := (counters gr)(g_Name grp \<mapsto> after)\<rparr>;
            idx = after - 1
        in (g_Containers grp ! unat (idx mod of_nat (length (g_Containers grp))), gr'))"

text \<open>A run of \<open>k\<close> picks from one group, and the counter of a group.\<close>

fun picks :: "GroupConfig \<Rightarrow> nat \<Rightarrow> GroupRouter \<Rightarrow> string list \<times> GroupRouter" where
  "picks grp 0 gr = ([], gr)"
| "picks grp (Suc k) gr =
     (case Pick grp gr of (n, gr1) \<Rightarrow>
        (case picks grp k gr1 of (ns, gr2) \<Rightarrow> (n # ns, gr2)))"

definition counter_of :: "GroupRouter \<Rightarrow> string \<Rightarrow> nat" where
  "counter_of gr n = (case counters gr n of None \<Rightarrow> 0 | Some c \<Rightarrow> unat c)"

text \<open>
  A group's list has fewer than \<open>2 ^ 63\<close> entries, Go's bound on the length of a slice;
  \<open>uint64(len(...))\<close> is then exact.
\<close>

lemma Pick_index:
  assumes "1 < length (g_Containers grp)" and "length (g_Containers grp) < 2 ^ 63"
  shows "Pick grp gr =
    (g_Containers grp ! (counter_of gr (g_Name grp) mod length (g_Containers grp)),
     gr\<lparr>counters := (counters gr)(g_Name grp \<mapsto> of_nat (Suc (counter_of gr (g_Name grp))))\<rparr>)"
proof -
  have "unat (of_nat (length (g_Containers grp)) :: 64 word) = length (g_Containers grp)"
    using assms(2) by (simp add: unat_of_nat take_bit_nat_eq_self)
  then show ?thesis using assms(1)
    by (cases "counters gr (g_Name grp)")
      (auto simp: Pick_def counter_of_def Let_def unat_mod add.commute)
qed

lemma Pick_counter:
  assumes "1 < length (g_Containers grp)" and "length (g_Containers grp) < 2 ^ 63"
  shows "counter_of (snd (Pick grp gr)) (g_Name grp) =
    Suc (counter_of gr (g_Name grp)) mod 2 ^ 64"
proof -
  have "unat (of_nat n :: 64 word) = n mod 2 ^ 64" for n
    by (simp add: unat_of_nat take_bit_eq_mod)
  then show ?thesis using assms by (simp add: Pick_index counter_of_def del: of_nat_Suc)
qed

lemma Pick_member_spec:
  assumes "g_Containers grp \<noteq> []" and "length (g_Containers grp) < 2 ^ 63"
  shows "fst (Pick grp gr) \<in> set (g_Containers grp) \<and>
    (\<forall>n. n \<noteq> g_Name grp \<longrightarrow> counters (snd (Pick grp gr)) n = counters gr n)"
proof (cases "1 < length (g_Containers grp)")
  case True
  then show ?thesis using assms by (simp add: Pick_index)
next
  case False
  with assms(1) have "length (g_Containers grp) = 1" by (cases "g_Containers grp") auto
  then show ?thesis by (simp add: Pick_def)
qed

text \<open>
  \<^verbatim>\<open>GroupRouter.Pick\<close>: the index never leaves the group's list, whatever the
  counter holds, so a pick from a group with containers returns one of them; groups do not
  disturb each other's counters.
\<close>

theorem Pick_member:
  assumes "g_Containers grp \<noteq> []" and "length (g_Containers grp) < 2 ^ 63"
  shows "fst (Pick grp gr) \<in> set (g_Containers grp) \<and>
    (\<forall>n. n \<noteq> g_Name grp \<longrightarrow> counters (snd (Pick grp gr)) n = counters gr n)"
  using assms by (rule Pick_member_spec)

lemma picks_nth:
  assumes "1 < length (g_Containers grp)" and "length (g_Containers grp) < 2 ^ 63"
    and "counter_of gr (g_Name grp) + k \<le> 2 ^ 64"
  shows "fst (picks grp k gr) =
    map (\<lambda>i. g_Containers grp ! (i mod length (g_Containers grp)))
      [counter_of gr (g_Name grp) ..< counter_of gr (g_Name grp) + k]"
  using assms(3)
proof (induction k arbitrary: gr)
  case 0
  then show ?case by simp
next
  case (Suc k)
  let ?c = "counter_of gr (g_Name grp)" and ?gr1 = "snd (Pick grp gr)"
  show ?case
  proof (cases k)
    case 0
    with assms(1,2) show ?thesis by (simp add: Pick_index upt_rec [of ?c])
  next
    case (Suc j)
    with Suc.prems have "Suc ?c < 2 ^ 64" by simp
    then have c1: "counter_of ?gr1 (g_Name grp) = Suc ?c"
      using Pick_counter [OF assms(1,2)] by simp
    with Suc.IH [of ?gr1] Suc.prems have "fst (picks grp k ?gr1) =
      map (\<lambda>i. g_Containers grp ! (i mod length (g_Containers grp))) [Suc ?c ..< Suc ?c + k]"
      by simp
    moreover have "fst (Pick grp gr) = g_Containers grp ! (?c mod length (g_Containers grp))"
      using assms(1,2) by (simp add: Pick_index)
    moreover have "[?c ..< ?c + Suc k] = ?c # [Suc ?c ..< Suc ?c + k]"
      by (simp add: upt_conv_Cons del: upt_Suc)
    ultimately show ?thesis
      by (simp add: case_prod_beta del: upt_Suc)
  qed
qed

lemma mset_rotation:
  "xs \<noteq> [] \<Longrightarrow> mset (map (\<lambda>i. xs ! (i mod length xs)) [c ..< c + length xs]) = mset xs"
proof (induction c)
  case 0
  have "map (\<lambda>i. xs ! (i mod length xs)) [0 ..< length xs] = map (\<lambda>i. xs ! i) [0 ..< length xs]"
    by (rule map_cong) auto
  then show ?case by (simp add: map_nth)
next
  case (Suc c)
  let ?f = "\<lambda>i. xs ! (i mod length xs)"
  have "[c ..< c + length xs] = c # [Suc c ..< c + length xs]"
    using Suc.prems by (simp add: upt_conv_Cons)
  moreover have "[Suc c ..< Suc c + length xs] = [Suc c ..< c + length xs] @ [c + length xs]"
    using Suc.prems by (simp add: Suc_leI)
  moreover have "?f (c + length xs) = ?f c" by simp
  ultimately have "mset (map ?f [Suc c ..< Suc c + length xs]) = mset (map ?f [c ..< c + length xs])"
    by simp
  with Suc show ?case by simp
qed

text \<open>
  C30 (functional, \<^verbatim>\<open>GroupRouter.Pick\<close>): round robin is fair. From any counter value, as
  many consecutive picks as the group has members return every member exactly once, until
  the 64-bit counter wraps.
\<close>

theorem Pick_round_robin_fair:
  assumes "g_Containers grp \<noteq> []" and "length (g_Containers grp) < 2 ^ 63"
    and "counter_of gr (g_Name grp) + length (g_Containers grp) \<le> 2 ^ 64"
  shows "mset (fst (picks grp (length (g_Containers grp)) gr)) = mset (g_Containers grp)"
proof (cases "1 < length (g_Containers grp)")
  case True
  then show ?thesis using picks_nth [OF True assms(2,3)] mset_rotation [OF assms(1)] by simp
next
  case False
  with assms(1) obtain n where "g_Containers grp = [n]"
    by (cases "g_Containers grp") auto
  then show ?thesis by (simp add: Pick_def)
qed

definition trio :: GroupConfig where
  "trio = \<lparr>g_Name = ''api'', g_Host = ''api.localhost'', g_Strategy = ''round-robin'',
           g_Containers = [''api-1'', ''api-2'', ''api-3'']\<rparr>"

lemma Pick_member_witness:
  "fst (Pick trio NewGroupRouter) \<in> {''api-1'', ''api-2'', ''api-3''}"
  using Pick_member [of trio NewGroupRouter] by (simp add: trio_def)

lemma Pick_round_robin_fair_witness:
  "mset (fst (picks trio 3 NewGroupRouter)) = {#''api-1'', ''api-2'', ''api-3''#}"
proof -
  have trio: "length (g_Containers trio) = 3" "mset (g_Containers trio) = {#''api-1'', ''api-2'', ''api-3''#}"
    by (simp_all add: trio_def)
  have "mset (fst (picks trio (length (g_Containers trio)) NewGroupRouter)) = mset (g_Containers trio)"
    by (rule Pick_round_robin_fair) (simp_all add: trio_def counter_of_def NewGroupRouter_def)
  then show ?thesis by (simp only: trio)
qed

end
