(* ===== verification/RateLimit.thy ===== *)
theory RateLimit
  imports Prelude
begin

text \<open>
  The rate limiter of \<^verbatim>\<open>gateway/server.go\<close> (\<^verbatim>\<open>Allow\<close>, \<^verbatim>\<open>evictStale\<close>) and the countdown of the
  status page (\<^verbatim>\<open>calcIdleRemaining\<close>), which goes through 64-bit floating point.

  Each clock reading of the code is an argument. \<^verbatim>\<open>Allow\<close> reads the clock once for the test and
  once more for the entry it writes.
\<close>

section \<open>Requests per address\<close>

record rateLimiter =
  l_lastSeen :: "string \<rightharpoonup> time"
  l_minInterval :: duration

definition newRateLimiter :: "duration \<Rightarrow> rateLimiter" where
  "newRateLimiter d = \<lparr>l_lastSeen = Map.empty, l_minInterval = d\<rparr>"

definition Allow :: "time \<Rightarrow> time \<Rightarrow> string \<Rightarrow> rateLimiter \<Rightarrow> bool \<times> rateLimiter" where
  "Allow since now ip rl =
     (case l_lastSeen rl ip of
        None \<Rightarrow> (True, rl\<lparr>l_lastSeen := (l_lastSeen rl)(ip \<mapsto> now)\<rparr>)
      | Some seen \<Rightarrow>
          if time_Sub since seen \<ge> l_minInterval rl
          then (True, rl\<lparr>l_lastSeen := (l_lastSeen rl)(ip \<mapsto> now)\<rparr>)
          else (False, rl))"

definition evictStale :: "time \<Rightarrow> rateLimiter \<Rightarrow> rateLimiter" where
  "evictStale now rl =
     (let cutoff = now + wrap64 (- 2 * l_minInterval rl)
      in rl\<lparr>l_lastSeen := (\<lambda>ip. case l_lastSeen rl ip of
           None \<Rightarrow> None
         | Some seen \<Rightarrow> if seen < cutoff then None else Some seen)\<rparr>)"

text \<open>A history of the limiter: requests, each with its two clock readings, and clean-ups.\<close>

datatype limit_event = LAllow string time time | LEvict time

fun run_limiter :: "limit_event list \<Rightarrow> rateLimiter \<Rightarrow> bool list" where
  "run_limiter [] rl = []"
| "run_limiter (LAllow ip since now # es) rl =
     (let (ok, rl') = Allow since now ip rl in ok # run_limiter es rl')"
| "run_limiter (LEvict now # es) rl = run_limiter es (evictStale now rl)"

text \<open>The readings of a history in the order they were made.\<close>

fun in_order :: "time \<Rightarrow> limit_event list \<Rightarrow> bool" where
  "in_order t [] \<longleftrightarrow> True"
| "in_order t (LAllow ip since now # es) \<longleftrightarrow> t \<le> since \<and> since \<le> now \<and> in_order now es"
| "in_order t (LEvict now # es) \<longleftrightarrow> t \<le> now \<and> in_order now es"

text \<open>
  The reference: whether a request may pass is decided by the last request of its address
  that passed, as a list of (address, instant) pairs, the newest first, that nobody cleans.
\<close>

fun grants :: "duration \<Rightarrow> limit_event list \<Rightarrow> (string \<times> time) list \<Rightarrow> bool list" where
  "grants d [] hist = []"
| "grants d (LAllow ip since now # es) hist =
     (if \<forall>(i, t) \<in> set hist. i = ip \<longrightarrow> d \<le> since - t
      then True # grants d es ((ip, now) # hist)
      else False # grants d es hist)"
| "grants d (LEvict _ # es) hist = grants d es hist"

text \<open>The map knows every grant that still matters at time \<open>t\<close>.\<close>

definition tracks :: "time \<Rightarrow> rateLimiter \<Rightarrow> (string \<times> time) list \<Rightarrow> bool" where
  "tracks t rl hist \<longleftrightarrow>
     (\<forall>ip. case l_lastSeen rl ip of
        None \<Rightarrow> (\<forall>u. (ip, u) \<in> set hist \<longrightarrow> l_minInterval rl \<le> t - u)
      | Some seen \<Rightarrow> (ip, seen) \<in> set hist \<and> seen \<le> t \<and> (\<forall>u. (ip, u) \<in> set hist \<longrightarrow> u \<le> seen))"

definition interval_ok :: "duration \<Rightarrow> bool" where
  "interval_ok d \<longleftrightarrow> 0 \<le> d \<and> 2 * d \<le> maxDuration"

lemma tracks_mono: "tracks t rl hist \<Longrightarrow> t \<le> t' \<Longrightarrow> tracks t' rl hist"
  unfolding tracks_def by (fastforce split: option.splits)

lemma tracks_evict:
  assumes "tracks t rl hist" and "t \<le> now" and "interval_ok (l_minInterval rl)"
  shows "tracks now (evictStale now rl) hist"
proof -
  have w: "wrap64 (- 2 * l_minInterval rl) = - 2 * l_minInterval rl"
    using assms(3) by (intro wrap64_id) (auto simp: interval_ok_def minDuration_def maxDuration_def)
  show ?thesis
    using tracks_mono [OF assms(1,2)] assms(3) unfolding tracks_def evictStale_def Let_def w
    by (fastforce simp: interval_ok_def split: option.splits)
qed

lemma Allow_decision:
  assumes "tracks t rl hist" and "t \<le> since" and "interval_ok (l_minInterval rl)"
  shows "fst (Allow since now ip rl) \<longleftrightarrow> (\<forall>(i, u) \<in> set hist. i = ip \<longrightarrow> l_minInterval rl \<le> since - u)"
proof -
  have sub: "l_minInterval rl \<le> time_Sub since u \<longleftrightarrow> l_minInterval rl \<le> since - u" for u
    using assms(3) by (intro time_Sub_ge) (auto simp: interval_ok_def minDuration_def maxDuration_def)
  have at: "case l_lastSeen rl ip of
      None \<Rightarrow> \<forall>u. (ip, u) \<in> set hist \<longrightarrow> l_minInterval rl \<le> t - u
    | Some seen \<Rightarrow> (ip, seen) \<in> set hist \<and> seen \<le> t \<and> (\<forall>u. (ip, u) \<in> set hist \<longrightarrow> u \<le> seen)"
    using assms(1) unfolding tracks_def by blast
  show ?thesis
  proof (cases "l_lastSeen rl ip")
    case None
    then have "l_minInterval rl \<le> since - u" if "(ip, u) \<in> set hist" for u
      using at assms(2) that by fastforce
    then show ?thesis using None by (auto simp: Allow_def)
  next
    case (Some seen)
    then have "(ip, seen) \<in> set hist" and "u \<le> seen" if "(ip, u) \<in> set hist" for u
      using at that by auto
    then have "(\<forall>(i, u) \<in> set hist. i = ip \<longrightarrow> l_minInterval rl \<le> since - u) \<longleftrightarrow> l_minInterval rl \<le> since - seen"
      using Some at by fastforce
    then show ?thesis using Some by (simp add: Allow_def sub)
  qed
qed

lemma tracks_Allow:
  assumes "tracks t rl hist" and "t \<le> since" and "since \<le> now" and "0 \<le> l_minInterval rl"
  shows "tracks now (snd (Allow since now ip rl))
    (if fst (Allow since now ip rl) then (ip, now) # hist else hist)"
proof -
  have m: "tracks now rl hist" using assms by (auto intro: tracks_mono)
  have "tracks now (rl\<lparr>l_lastSeen := (l_lastSeen rl)(ip \<mapsto> now)\<rparr>) ((ip, now) # hist)"
    if "0 \<le> l_minInterval rl"
    using m that unfolding tracks_def by (auto split: option.splits) fastforce+
  with m assms(4) show ?thesis by (auto simp: Allow_def split: option.splits)
qed

lemma Allow_minInterval [simp]: "l_minInterval (snd (Allow since now ip rl)) = l_minInterval rl"
  by (auto simp: Allow_def split: option.splits)

lemma evictStale_minInterval [simp]: "l_minInterval (evictStale now rl) = l_minInterval rl"
  by (simp add: evictStale_def Let_def)

lemma run_limiter_grants:
  assumes "tracks t rl hist" and "in_order t es" and "interval_ok (l_minInterval rl)"
  shows "run_limiter es rl = grants (l_minInterval rl) es hist"
  using assms
proof (induction es arbitrary: t rl hist)
  case Nil
  then show ?case by simp
next
  case (Cons e es)
  show ?case
  proof (cases e)
    case (LAllow ip since now)
    let ?ok = "fst (Allow since now ip rl)"
    let ?h = "if ?ok then (ip, now) # hist else hist"
    have ord: "t \<le> since" "since \<le> now" "in_order now es" using Cons.prems(2) LAllow by simp_all
    have "tracks now (snd (Allow since now ip rl)) ?h"
      by (rule tracks_Allow [OF Cons.prems(1) ord(1,2)]) (use Cons.prems(3) in \<open>simp add: interval_ok_def\<close>)
    then have "run_limiter es (snd (Allow since now ip rl)) = grants (l_minInterval rl) es ?h"
      using Cons.IH [OF _ ord(3)] Cons.prems(3) by simp
    moreover have "?ok \<longleftrightarrow> (\<forall>(i, u) \<in> set hist. i = ip \<longrightarrow> l_minInterval rl \<le> since - u)"
      by (rule Allow_decision [OF Cons.prems(1) ord(1) Cons.prems(3)])
    ultimately show ?thesis using LAllow by (cases ?ok) (auto simp: case_prod_unfold)
  next
    case (LEvict now)
    then have "tracks now (evictStale now rl) hist"
      using tracks_evict [OF Cons.prems(1)] Cons.prems(2,3) by simp
    then show ?thesis
      using Cons.IH [of now "evictStale now rl" hist] Cons.prems(2,3) LEvict by simp
  qed
qed

lemma tracks_new: "tracks t (newRateLimiter d) []"
  by (simp add: tracks_def newRateLimiter_def)

lemma new_limiter_grants:
  "in_order t es \<Longrightarrow> interval_ok d \<Longrightarrow> run_limiter es (newRateLimiter d) = grants d es []"
  using run_limiter_grants [OF tracks_new] by (simp add: newRateLimiter_def)

text \<open>Clean-ups do not change what the reference decides.\<close>

fun requests :: "limit_event list \<Rightarrow> limit_event list" where
  "requests [] = []"
| "requests (LEvict _ # es) = requests es"
| "requests (e # es) = e # requests es"

lemma grants_requests: "grants d (requests es) hist = grants d es hist"
  by (induction es arbitrary: hist rule: requests.induct) auto

lemma in_order_mono: "in_order t es \<Longrightarrow> t' \<le> t \<Longrightarrow> in_order t' es"
  by (cases "(t, es)" rule: in_order.cases) auto

lemma in_order_requests: "in_order t es \<Longrightarrow> in_order t (requests es)"
  by (induction es arbitrary: t rule: requests.induct) (auto intro: in_order_mono)

text \<open>The requests that passed, with the reading of the test and of the entry.\<close>

fun passed :: "limit_event list \<Rightarrow> bool list \<Rightarrow> (string \<times> time \<times> time) list" where
  "passed (LAllow ip since now # es) (ok # oks) =
     (if ok then (ip, since, now) # passed es oks else passed es oks)"
| "passed (LEvict _ # es) oks = passed es oks"
| "passed _ _ = []"

lemma grants_spaced:
  "sorted_wrt (\<lambda>(i, _, n) (i', s', _). i = i' \<longrightarrow> d \<le> s' - n) (passed es (grants d es hist)) \<and>
    (\<forall>(i, s, _) \<in> set (passed es (grants d es hist)). \<forall>(j, t) \<in> set hist. i = j \<longrightarrow> d \<le> s - t)"
proof (induction es arbitrary: hist)
  case Nil
  then show ?case by simp
next
  case (Cons e es)
  show ?case
  proof (cases e)
    case (LAllow i s n)
    then show ?thesis using Cons.IH [of hist] Cons.IH [of "(i, n) # hist"]
      by (auto split: prod.splits)
  next
    case (LEvict n)
    then show ?thesis using Cons.IH [of hist] by simp
  qed
qed

text \<open>
  C12 (refinement): on any history of requests and clean-ups the limiter decides exactly as
  the reference that remembers every grant for ever: a clean-up never lets a request pass
  that the limit would have stopped.
\<close>

theorem limiter_refines_history:
  assumes "in_order t es" and "interval_ok d"
  shows "run_limiter es (newRateLimiter d) = grants d es [] \<and>
    run_limiter es (newRateLimiter d) = run_limiter (requests es) (newRateLimiter d)"
  using new_limiter_grants [OF assms] new_limiter_grants [OF in_order_requests [OF assms(1)] assms(2)]
  by (simp add: grants_requests)

definition sample_history :: "limit_event list" where
  "sample_history =
     [LAllow ''10.0.0.1'' 5 6, LAllow ''10.0.0.1'' 900000000 900000001, LAllow ''10.0.0.2'' 900000002 900000003,
      LEvict 2000000007, LAllow ''10.0.0.1'' 2000000008 2000000009, LAllow ''10.0.0.2'' 2000000010 2000000011]"

theorem limiter_refines_history_witness:
  "run_limiter sample_history (newRateLimiter second) = [True, False, True, True, True] \<and>
   grants second sample_history [] = [True, False, True, True, True]"
proof -
  have "in_order 0 sample_history" "interval_ok second"
    by (simp_all add: sample_history_def interval_ok_def second_def maxDuration_def)
  note limiter_refines_history [OF this]
  moreover have "grants second sample_history [] = [True, False, True, True, True]"
    by (simp add: sample_history_def second_def)
  ultimately show ?thesis by simp
qed

text \<open>
  Of two requests of one address that pass, the later one is tested at least
  the minimum interval after the earlier one was recorded.
\<close>

theorem limiter_spaces_requests:
  assumes "in_order t es" and "interval_ok d"
  shows "sorted_wrt (\<lambda>(i, _, n) (i', s', _). i = i' \<longrightarrow> d \<le> s' - n)
    (passed es (run_limiter es (newRateLimiter d)))"
  using grants_spaced [of d es "[]"] assms by (simp add: new_limiter_grants)

theorem limiter_spaces_requests_witness:
  "sorted_wrt (\<lambda>(i, _, n) (i', s', _). i = i' \<longrightarrow> second \<le> s' - n)
    (passed sample_history (run_limiter sample_history (newRateLimiter second)))"
  by (rule limiter_spaces_requests [of 0])
    (simp_all add: sample_history_def interval_ok_def second_def maxDuration_def)

section \<open>The idle countdown\<close>

text \<open>
  \<^verbatim>\<open>Duration.Seconds\<close> is \<^verbatim>\<open>float64(d/Second) + float64(d%Second)/1e9\<close>. The sum is less than
  \<open>2 ^ 34\<close> and the fraction, when it is not zero, at least \<open>10 ^ -9\<close>, so every number of the
  computation is an integer multiple of \<open>2 ^ -82\<close> and is kept as that integer. Rounding is to
  53 significant bits, to the nearest and on a tie to the even one; it is symmetric in the
  sign, and so are Go's division and remainder.
\<close>

fun bit_length :: "nat \<Rightarrow> nat" where
  "bit_length n = (if n = 0 then 0 else Suc (bit_length (n div 2)))"

declare bit_length.simps [simp del]

definition round_even :: "nat \<Rightarrow> nat \<Rightarrow> nat" where
  "round_even p q =
     (let k = p div q; r = p mod q
      in if 2 * r < q then k else if q < 2 * r then Suc k else if even k then k else Suc k)"

text \<open>The number \<open>p / q\<close> rounded to 53 significant bits, for a quotient of at least \<open>2 ^ 52\<close>.\<close>

definition round53 :: "nat \<Rightarrow> nat \<Rightarrow> nat" where
  "round53 p q = (let u = 2 ^ (bit_length (p div q) - 53) in round_even p (q * u) * u)"

definition seconds_f64 :: "nat \<Rightarrow> nat" where
  "seconds_f64 d =
     (let sec = d div 1000000000; nsec = d mod 1000000000;
          frac = (if nsec = 0 then 0 else round53 (nsec * 2 ^ 82) 1000000000)
      in if sec * 2 ^ 82 + frac = 0 then 0 else round53 (sec * 2 ^ 82 + frac) 1)"

definition Seconds_int64 :: "duration \<Rightarrow> int" where
  "Seconds_int64 d = sgn d * int (seconds_f64 (nat \<bar>d\<bar>) div 2 ^ 82)"

definition calcIdleRemaining :: "duration \<Rightarrow> time \<Rightarrow> bool \<Rightarrow> time \<Rightarrow> int" where
  "calcIdleRemaining idleTimeout lastSeen hasSeen now =
     (if idleTimeout = 0 then 0
      else if \<not> hasSeen then - 1
      else let remaining = Seconds_int64 idleTimeout - Seconds_int64 (time_Sub now lastSeen)
           in if remaining < 0 then 0 else remaining)"

lemma round_even_ge: "0 < q \<Longrightarrow> m * q \<le> p \<Longrightarrow> m \<le> round_even p q"
  using div_le_mono [of "m * q" p q] by (auto simp: round_even_def Let_def)

lemma round_even_le:
  assumes "0 < q"
  shows "2 * (round_even p q * q) \<le> 2 * p + q"
proof -
  define k r where "k = p div q" and "r = p mod q"
  have p: "p = k * q + r" by (simp add: k_def r_def)
  show ?thesis
    unfolding round_even_def Let_def k_def [symmetric] r_def [symmetric]
    by (simp add: p distrib_right)
qed

lemma bit_length_bounds: "n < 2 ^ bit_length n \<and> (0 < n \<longrightarrow> 2 ^ (bit_length n - 1) \<le> n)"
proof (induction n rule: bit_length.induct)
  case (1 n)
  show ?case
  proof (cases "n = 0")
    case False
    with 1 have IH: "n div 2 < 2 ^ bit_length (n div 2)"
      "0 < n div 2 \<longrightarrow> 2 ^ (bit_length (n div 2) - 1) \<le> n div 2" by auto
    have b: "bit_length n = Suc (bit_length (n div 2))" using False by (subst bit_length.simps) simp
    show ?thesis
    proof (cases "n div 2 = 0")
      case True
      then have "n = 1" using False by auto
      then show ?thesis using b by (simp add: bit_length.simps)
    next
      case False
      then have "bit_length (n div 2) \<noteq> 0" by (simp add: bit_length.simps)
      then show ?thesis using IH False b by (cases "bit_length (n div 2)") auto
    qed
  qed (simp add: bit_length.simps)
qed

lemma bit_length_le: "n < 2 ^ k \<Longrightarrow> bit_length n \<le> k"
proof (cases "n = 0")
  case False
  assume "n < 2 ^ k"
  moreover have "2 ^ (bit_length n - 1) \<le> n" using bit_length_bounds [of n] False by simp
  ultimately have "(2 :: nat) ^ (bit_length n - 1) < 2 ^ k" by (rule le_less_trans [rotated])
  then have "bit_length n - 1 < k" by (rule power_less_imp_less_exp [rotated]) simp
  then show ?thesis by simp
qed (simp add: bit_length.simps)

lemma round53_ge:
  assumes "0 < q" and "k * 2 ^ j * q \<le> p" and "bit_length (p div q) - 53 \<le> j"
  shows "k * 2 ^ j \<le> round53 p q"
proof -
  let ?e = "bit_length (p div q) - 53"
  obtain i where j: "j = i + ?e" using assms(3) by (metis le_iff_add add.commute)
  have "k * 2 ^ i * (q * 2 ^ ?e) \<le> p" using assms(2) by (simp add: j power_add algebra_simps)
  then have "k * 2 ^ i \<le> round_even p (q * 2 ^ ?e)" using assms(1) by (intro round_even_ge) simp_all
  then show ?thesis by (simp add: round53_def Let_def j power_add)
qed

lemma round53_le:
  assumes "0 < q" and "p div q < 2 ^ (j + 53)"
  shows "2 * (round53 p q * q) \<le> 2 * p + q * 2 ^ j"
proof -
  let ?u = "2 ^ (bit_length (p div q) - 53) :: nat"
  have "?u \<le> 2 ^ j" using bit_length_le [OF assms(2)] by simp
  then have "q * ?u \<le> q * 2 ^ j" by (rule mult_le_mono2)
  moreover have "2 * (round_even p (q * ?u) * (q * ?u)) \<le> 2 * p + q * ?u"
    using assms(1) by (intro round_even_le) simp
  moreover have "round53 p q * q = round_even p (q * ?u) * (q * ?u)" by (simp add: round53_def Let_def)
  ultimately show ?thesis by linarith
qed

lemma seconds_frac:
  assumes "n < (1000000000 :: nat)"
  shows "round53 (n * 2 ^ 82) 1000000000 + 2 ^ 52 < 2 ^ 82"
proof -
  have "n * 2 ^ 82 div 1000000000 < 2 ^ 82"
    using assms by (intro less_mult_imp_div_less) simp
  then have "2 * (round53 (n * 2 ^ 82) 1000000000 * 1000000000) \<le> 2 * (n * 2 ^ 82) + 1000000000 * 2 ^ 29"
    by (intro round53_le) simp_all
  moreover have "n * 2 ^ 82 \<le> 999999999 * 2 ^ 82" using assms by simp
  ultimately show ?thesis by simp
qed

lemma seconds_f64_bounds:
  assumes "d div 1000000000 < 2 ^ k" and "29 + k \<le> j" and "j \<le> 82"
  shows "d div 1000000000 * 2 ^ 82 \<le> seconds_f64 d"
    and "2 * seconds_f64 d + 2 ^ 53 < 2 * ((d div 1000000000 + 1) * 2 ^ 82) + 2 ^ j"
proof -
  define s where "s = d div 1000000000"
  define f where "f = (if d mod 1000000000 = 0 then 0 else round53 (d mod 1000000000 * 2 ^ 82) 1000000000)"
  have f: "f + 2 ^ 52 < 2 ^ 82"
    using seconds_frac [of "d mod 1000000000"] by (auto simp: f_def)
  have "s * 2 ^ 82 + 2 ^ 82 \<le> 2 ^ k * 2 ^ 82"
    using assms(1) by (metis s_def Suc_leI mult_Suc add.commute mult_le_mono1)
  then have "s * 2 ^ 82 + f < 2 ^ (k + 82)" using f by (simp add: power_add)
  also have "\<dots> \<le> 2 ^ (j + 53)" using assms(2) by simp
  finally have l: "(s * 2 ^ 82 + f) div 1 < 2 ^ (j + 53)" by simp
  have eq: "seconds_f64 d = (if s * 2 ^ 82 + f = 0 then 0 else round53 (s * 2 ^ 82 + f) 1)"
    by (simp only: seconds_f64_def Let_def s_def f_def)
  have "bit_length ((s * 2 ^ 82 + f) div 1) - 53 \<le> 82" using bit_length_le [OF l] assms(3) by simp
  then have "s * 2 ^ 82 \<le> round53 (s * 2 ^ 82 + f) 1" by (intro round53_ge) simp_all
  then show "d div 1000000000 * 2 ^ 82 \<le> seconds_f64 d" unfolding eq s_def [symmetric] by simp
  have "2 * (round53 (s * 2 ^ 82 + f) 1 * 1) \<le> 2 * (s * 2 ^ 82 + f) + 1 * 2 ^ j"
    by (intro round53_le l) simp
  then show "2 * seconds_f64 d + 2 ^ 53 < 2 * ((d div 1000000000 + 1) * 2 ^ 82) + 2 ^ j"
    using f unfolding eq s_def [symmetric] by (simp add: distrib_right)
qed

text \<open>Below \<open>2 ^ 24\<close> seconds the detour through floating point is exact.\<close>

lemma seconds_f64_exact:
  assumes "d div 1000000000 < 2 ^ 24"
  shows "seconds_f64 d div 2 ^ 82 = d div 1000000000"
proof (rule div_nat_eqI)
  show "2 ^ 82 * (d div 1000000000) \<le> seconds_f64 d"
    using seconds_f64_bounds(1) [OF assms, of 53] by simp
  show "seconds_f64 d < 2 ^ 82 * Suc (d div 1000000000)"
    using seconds_f64_bounds(2) [OF assms, of 53] by simp
qed

text \<open>Above it, over the whole range of a duration, it rounds up by one second at most.\<close>

lemma seconds_f64_close:
  assumes "d < 2 ^ 63"
  shows "d div 1000000000 \<le> seconds_f64 d div 2 ^ 82" and "seconds_f64 d div 2 ^ 82 \<le> d div 1000000000 + 1"
proof -
  have s: "d div 1000000000 < 2 ^ 34" using assms by (intro less_mult_imp_div_less) simp
  show "d div 1000000000 \<le> seconds_f64 d div 2 ^ 82"
    using seconds_f64_bounds(1) [OF s, of 63] by (subst less_eq_div_iff_mult_less_eq) simp_all
  have "seconds_f64 d < 2 ^ 82 * (d div 1000000000 + 2)"
    using seconds_f64_bounds(2) [OF s, of 63] by simp
  then have "seconds_f64 d div 2 ^ 82 < d div 1000000000 + 2"
    by (intro less_mult_imp_div_less) (simp add: mult.commute)
  then show "seconds_f64 d div 2 ^ 82 \<le> d div 1000000000 + 1" by simp
qed

lemma Seconds_int64_exact:
  assumes "0 \<le> d" and "d < 2 ^ 24 * second"
  shows "Seconds_int64 d = d div second"
proof (cases "d = 0")
  case False
  have "nat d div 1000000000 < 2 ^ 24"
    using assms by (intro less_mult_imp_div_less) (simp add: second_def)
  then have "seconds_f64 (nat d) div 2 ^ 82 = nat d div 1000000000" by (rule seconds_f64_exact)
  then show ?thesis using assms False by (simp add: Seconds_int64_def second_def zdiv_int)
qed (simp add: Seconds_int64_def)

lemma Seconds_int64_close:
  assumes "0 \<le> d" and "d \<le> maxDuration"
  shows "d div second \<le> Seconds_int64 d \<and> Seconds_int64 d \<le> d div second + 1"
proof (cases "d = 0")
  case False
  have "nat d < 2 ^ 63" using assms by (simp add: maxDuration_def)
  note seconds_f64_close [OF this]
  moreover have "int (nat d div 1000000000) = d div second" using assms by (simp add: second_def zdiv_int)
  ultimately show ?thesis using assms False by (simp add: Seconds_int64_def)
qed (simp add: Seconds_int64_def)

text \<open>
  C39 (bounds): the countdown of the status page. It is 0 with idle stops switched off, -1
  for a container that never served a request, and otherwise, for timeouts and idle times
  below \<open>2 ^ 24\<close> seconds (194 days), the whole seconds of the timeout less those elapsed,
  never below 0 and never above the timeout, the floating-point arithmetic included.
\<close>

theorem idle_countdown:
  assumes "0 \<le> idle" and "idle < 2 ^ 24 * second" and "seen \<le> now" and "now - seen < 2 ^ 24 * second"
  shows "calcIdleRemaining idle seen has now =
      (if idle = 0 then 0 else if \<not> has then - 1
       else max 0 (idle div second - (now - seen) div second))
    \<and> - 1 \<le> calcIdleRemaining idle seen has now \<and> calcIdleRemaining idle seen has now \<le> idle div second"
proof -
  have "time_Sub now seen = now - seen"
    using assms(3,4) by (simp add: time_Sub_def minDuration_def maxDuration_def second_def)
  moreover have "Seconds_int64 (now - seen) = (now - seen) div second" and "Seconds_int64 idle = idle div second"
    using assms by (simp_all add: Seconds_int64_exact)
  moreover have "0 \<le> (now - seen) div second" "0 \<le> idle div second"
    using assms by (simp_all add: second_def pos_imp_zdiv_nonneg_iff)
  ultimately show ?thesis by (auto simp: calcIdleRemaining_def Let_def)
qed

theorem idle_countdown_witness:
  "calcIdleRemaining (5 * minute) (1000 * second) True (1100 * second + 7) = 200"
  using idle_countdown [of "5 * minute" "1000 * second" "1100 * second + 7" True]
  by (simp add: duration_defs)

end
