(* ===== verification/Http.thy ===== *)
theory Http
  imports Prelude
begin

text \<open>
  HTTP requests as the handlers see them and the responses they write.

  A request's headers are the function \<^verbatim>\<open>Header.Get\<close> on canonical keys, its query the text
  \<^verbatim>\<open>URL.RawQuery\<close> and the function \<^verbatim>\<open>URL.Query().Get\<close>; both functions give the empty string
  for what is absent. A handler
  is a function from a request and a state of any type to a response and the new state; the
  result is optional, \<open>None\<close> standing for a handler that does not return.
\<close>

record request =
  r_Method :: string
  r_Host :: string
  r_Path :: string
  r_RawQuery :: string
  r_Query :: "string \<Rightarrow> string"
  r_Header :: "string \<Rightarrow> string"
  r_RemoteAddr :: string

text \<open>
  What a handler writes: a status, the headers it sets and a body, either plain text or a
  payload of the type the handler renders.
\<close>

datatype 'p body = Text string | Payload 'p

record 'p response =
  p_Status :: int
  p_Header :: "(string \<times> string) list"
  p_Body :: "'p body"

type_synonym ('s, 'p) handler = "request \<Rightarrow> 's \<Rightarrow> ('p response \<times> 's) option"

definition http_Error :: "(string \<times> string) list \<Rightarrow> string \<Rightarrow> int \<Rightarrow> 'p response" where
  "http_Error hdr msg code =
     \<lparr>p_Status = code,
      p_Header = hdr @ [(''Content-Type'', ''text/plain; charset=utf-8''),
                        (''X-Content-Type-Options'', ''nosniff'')],
      p_Body = Text (msg @ [CHR 0x0A])\<rparr>"

end
