(* ===== verification/NetAddr.thy ===== *)
theory NetAddr
  imports Http
begin

unbundle bit_operations_syntax

text \<open>
  Client addresses (\<^verbatim>\<open>gateway/server.go\<close>: \<^verbatim>\<open>clientIP\<close>, \<^verbatim>\<open>isTrustedProxy\<close>,
  \<^verbatim>\<open>parseTrustedProxies\<close>, \<^verbatim>\<open>setForwardedHeaders\<close>) and what they use of Go's \<^verbatim>\<open>net\<close> package:
  \<^verbatim>\<open>SplitHostPort\<close>, the parsers of addresses and of CIDR blocks, and \<^verbatim>\<open>IPNet.Contains\<close>.

  An address is the list of its bytes, 4 or 16 of them. Go's \<^verbatim>\<open>ParseIP\<close> always gives 16, an IPv4
  address in its mapped form.
\<close>

section \<open>Hosts and ports\<close>

text \<open>\<^verbatim>\<open>net.SplitHostPort\<close>; every error gives two empty strings, which is all the callers use.\<close>

definition SplitHostPort :: "string \<Rightarrow> (string \<times> string) option" where
  "SplitHostPort hp =
     (case LastIndex hp (CHR '':'') of
        None \<Rightarrow> None
      | Some i \<Rightarrow>
          if hp ! 0 = CHR ''['' then
            (case IndexByte hp (CHR '']'') of
               None \<Rightarrow> None
             | Some e \<Rightarrow>
                 if e + 1 \<noteq> i then None
                 else if CHR ''['' \<in> set (drop 1 hp) \<or> CHR '']'' \<in> set (drop (e + 1) hp) then None
                 else Some (take (e - 1) (drop 1 hp), drop (i + 1) hp))
          else if CHR '':'' \<in> set (take i hp) then None
          else if CHR ''['' \<in> set hp \<or> CHR '']'' \<in> set hp then None
          else Some (take i hp, drop (i + 1) hp))"

definition host_of :: "string \<Rightarrow> string" where
  "host_of hp = (case SplitHostPort hp of None \<Rightarrow> '''' | Some (h, _) \<Rightarrow> h)"

section \<open>Addresses\<close>

type_synonym ip = "8 word list"

text \<open>\<^verbatim>\<open>netip.parseIPv4Fields\<close>: \<open>fresh\<close> is true at the start and after a dot.\<close>

fun v4_fields :: "bool \<Rightarrow> nat \<Rightarrow> nat \<Rightarrow> ip \<Rightarrow> string \<Rightarrow> ip option" where
  "v4_fields fresh val digLen flds [] =
     (if length flds < 3 then None else Some (flds @ [of_nat val]))"
| "v4_fields fresh val digLen flds (c # cs) =
     (if is_digit c then
        (if digLen = 1 \<and> val = 0 then None
         else let v = val * 10 + digit_val c
              in if v > 255 then None else v4_fields False v (digLen + 1) flds cs)
      else if c = CHR ''.'' then
        (if fresh \<or> cs = [] then None
         else if length flds = 3 then None
         else v4_fields True 0 0 (flds @ [of_nat val]) cs)
      else None)"

definition parseIPv4 :: "string \<Rightarrow> ip option" where
  "parseIPv4 s = v4_fields True 0 0 [] s"

definition is_hex :: "char \<Rightarrow> bool" where
  "is_hex c \<longleftrightarrow> is_digit c \<or> 97 \<le> (of_char c :: nat) \<and> (of_char c :: nat) \<le> 102 \<or>
     65 \<le> (of_char c :: nat) \<and> (of_char c :: nat) \<le> 70"

definition hex_val :: "char \<Rightarrow> nat" where
  "hex_val c =
     (if is_digit c then digit_val c
      else if 97 \<le> (of_char c :: nat) then of_char c - 97 + 10 else of_char c - 65 + 10)"

definition hex_acc :: "string \<Rightarrow> nat" where
  "hex_acc ds = foldl (\<lambda>acc c. acc * 16 + hex_val c) 0 ds"

definition v6_finish :: "ip \<Rightarrow> nat option \<Rightarrow> string \<Rightarrow> ip option" where
  "v6_finish bs ellipsis s =
     (if s \<noteq> [] then None
      else if length bs < 16 then
        (case ellipsis of None \<Rightarrow> None
         | Some e \<Rightarrow> Some (take e bs @ replicate (16 - length bs) 0 @ drop e bs))
      else if ellipsis \<noteq> None then None else Some bs)"

text \<open>
  The loop of \<^verbatim>\<open>parseIPv6\<close> over the groups. It ends because each round takes at least one
  character, a digit of the group.
\<close>

function v6_loop :: "ip \<Rightarrow> nat option \<Rightarrow> string \<Rightarrow> ip option" where
  "v6_loop bs ellipsis s =
     (if 16 \<le> length bs then v6_finish bs ellipsis s
      else let ds = takeWhile is_hex s; off = length ds; rest = drop off s; acc = hex_acc ds
           in if 4 < off then None
              else if off = 0 then None
              else if rest \<noteq> [] \<and> hd rest = CHR ''.'' then
                (if ellipsis = None \<and> length bs \<noteq> 12 then None
                 else if 16 < length bs + 4 then None
                 else case v4_fields True 0 0 [] s of
                        None \<Rightarrow> None
                      | Some fs \<Rightarrow> v6_finish (bs @ fs) ellipsis [])
              else let bs' = bs @ [of_nat (acc div 256), of_nat acc]
                   in if rest = [] then v6_finish bs' ellipsis []
                      else if hd rest \<noteq> CHR '':'' then None
                      else if length rest = 1 then None
                      else if hd (tl rest) = CHR '':'' then
                        (if ellipsis \<noteq> None then None
                         else if tl (tl rest) = [] then v6_finish bs' (Some (length bs')) []
                         else v6_loop bs' (Some (length bs')) (tl (tl rest)))
                      else v6_loop bs' ellipsis (tl rest))"
  by pat_completeness auto
termination
  by (relation "measure (\<lambda>(bs, ellipsis, s). length s)") (auto simp: Let_def)

declare v6_loop.simps [simp del]

datatype addr = Addr4 ip | Addr6 ip string

definition parseIPv6 :: "string \<Rightarrow> addr option" where
  "parseIPv6 s =
     (let (a, zone, bad) =
        (case IndexByte s (CHR 0x25) of
           None \<Rightarrow> (s, '''', False)
         | Some i \<Rightarrow> (take i s, drop (i + 1) s, drop (i + 1) s = []))
      in if bad then None
         else map_option (\<lambda>b. Addr6 b zone)
           (if HasPrefix a ''::'' then
              (if length a = 2 then Some (replicate 16 0) else v6_loop [] (Some 0) (drop 2 a))
            else v6_loop [] None a))"

fun first_of :: "string \<Rightarrow> string \<Rightarrow> char option" where
  "first_of cs [] = None"
| "first_of cs (x # xs) = (if x \<in> set cs then Some x else first_of cs xs)"

definition ParseAddr :: "string \<Rightarrow> addr option" where
  "ParseAddr s =
     (case first_of [CHR ''.'', CHR '':'', CHR 0x25] s of
        Some c \<Rightarrow>
          if c = CHR ''.'' then map_option Addr4 (parseIPv4 s)
          else if c = CHR '':'' then parseIPv6 s
          else None
      | None \<Rightarrow> None)"

definition v4_prefix :: ip where
  "v4_prefix = replicate 10 0 @ [255, 255]"

fun Zone :: "addr \<Rightarrow> string" where
  "Zone (Addr4 _) = ''''"
| "Zone (Addr6 _ z) = z"

fun As16 :: "addr \<Rightarrow> ip" where
  "As16 (Addr4 b) = v4_prefix @ b"
| "As16 (Addr6 b _) = b"

fun BitLen :: "addr \<Rightarrow> nat" where
  "BitLen (Addr4 _) = 32"
| "BitLen (Addr6 _ _) = 128"

definition ParseIP :: "string \<Rightarrow> ip option" where
  "ParseIP s =
     (case ParseAddr s of
        None \<Rightarrow> None
      | Some a \<Rightarrow> if Zone a \<noteq> '''' then None else Some (As16 a))"

section \<open>Blocks of addresses\<close>

record IPNet =
  n_IP :: ip
  n_Mask :: ip

fun CIDRMask :: "nat \<Rightarrow> nat \<Rightarrow> ip" where
  "CIDRMask n 0 = []"
| "CIDRMask n (Suc l) =
     (if 8 \<le> n then 255 # CIDRMask (n - 8) l else NOT (drop_bit n 255) # CIDRMask 0 l)"

definition ip_and :: "ip \<Rightarrow> ip \<Rightarrow> ip" where
  "ip_and a m = map2 (AND) a m"

text \<open>\<^verbatim>\<open>ip.Mask(m)\<close>; the nil result is the empty list.\<close>

definition IP_Mask :: "ip \<Rightarrow> ip \<Rightarrow> ip" where
  "IP_Mask a m =
     (let m' = (if length m = 16 \<and> length a = 4 \<and> take 12 m = replicate 12 255 then drop 12 m else m);
          a' = (if length m' = 4 \<and> length a = 16 \<and> take 12 a = v4_prefix then drop 12 a else a)
      in if length a' \<noteq> length m' then [] else ip_and a' m')"

fun dtoi_from :: "nat \<Rightarrow> nat \<Rightarrow> string \<Rightarrow> nat \<times> nat \<times> bool" where
  "dtoi_from n i [] = (if i = 0 then (0, 0, False) else (n, i, True))"
| "dtoi_from n i (c # cs) =
     (if is_digit c then
        let n' = n * 10 + digit_val c
        in if n' \<ge> 0xFFFFFF then (0xFFFFFF, i, False) else dtoi_from n' (i + 1) cs
      else if i = 0 then (0, 0, False) else (n, i, True))"

definition dtoi :: "string \<Rightarrow> nat \<times> nat \<times> bool" where
  "dtoi s = dtoi_from 0 0 s"

definition ParseCIDR :: "string \<Rightarrow> IPNet option" where
  "ParseCIDR s =
     (case IndexByte s (CHR ''/'') of
        None \<Rightarrow> None
      | Some i \<Rightarrow>
          (case ParseAddr (take i s) of
             None \<Rightarrow> None
           | Some a \<Rightarrow>
               if Zone a \<noteq> '''' then None
               else let (n, j, ok) = dtoi (drop (i + 1) s)
                    in if \<not> ok \<or> j \<noteq> length (drop (i + 1) s) \<or> BitLen a < n then None
                       else let m = CIDRMask n (BitLen a div 8)
                            in Some \<lparr>n_IP = IP_Mask (As16 a) m, n_Mask = m\<rparr>))"

definition To4 :: "ip \<Rightarrow> ip option" where
  "To4 a =
     (if length a = 4 then Some a
      else if length a = 16 \<and> take 12 a = v4_prefix then Some (drop 12 a) else None)"

definition networkNumberAndMask :: "IPNet \<Rightarrow> (ip \<times> ip) option" where
  "networkNumberAndMask n =
     (let m = n_Mask n
      in case To4 (n_IP n) of
           Some a \<Rightarrow>
             if length m = 4 then Some (a, m) else if length m = 16 then Some (a, drop 12 m) else None
         | None \<Rightarrow>
             if length (n_IP n) \<noteq> 16 then None
             else if length m = 16 then Some (n_IP n, m) else None)"

definition IPNet_Contains :: "IPNet \<Rightarrow> ip \<Rightarrow> bool" where
  "IPNet_Contains n a =
     (let x = (case To4 a of Some b \<Rightarrow> b | None \<Rightarrow> a)
      in case networkNumberAndMask n of
           None \<Rightarrow> x = []
         | Some (nn, m) \<Rightarrow>
             length x = length nn \<and> list_all (\<lambda>(k, b, l). k AND l = b AND l) (zip nn (zip x m)))"

section \<open>The gateway's functions\<close>

definition isTrustedProxy :: "string \<Rightarrow> IPNet list \<Rightarrow> bool" where
  "isTrustedProxy ip cidrs =
     (case ParseIP ip of
        None \<Rightarrow> False
      | Some parsed \<Rightarrow> list_ex (\<lambda>cidr. IPNet_Contains cidr parsed) cidrs)"

definition parseTrustedProxies :: "string list \<Rightarrow> IPNet list" where
  "parseTrustedProxies proxies = List.map_filter ParseCIDR proxies"

definition clientIP :: "IPNet list \<Rightarrow> request \<Rightarrow> string" where
  "clientIP trusted r =
     (let directIP = host_of (r_RemoteAddr r)
      in if trusted \<noteq> [] \<and> isTrustedProxy directIP trusted then
           (let xff = r_Header r ''X-Forwarded-For''
            in if xff \<noteq> '''' then TrimSpace (SplitN2 xff (CHR '','') ! 0) else directIP)
         else directIP)"

definition set_header :: "string \<Rightarrow> string \<Rightarrow> request \<Rightarrow> request" where
  "set_header k v r = r\<lparr>r_Header := (r_Header r)(k := v)\<rparr>"

definition setForwardedHeaders :: "request \<Rightarrow> request" where
  "setForwardedHeaders r =
     (let clientIP = host_of (r_RemoteAddr r);
          prior = r_Header r ''X-Forwarded-For'';
          r1 = (if prior \<noteq> '''' then set_header ''X-Forwarded-For'' (prior @ '', '' @ clientIP) r
                else set_header ''X-Forwarded-For'' clientIP r);
          r2 = (if r_Header r1 ''X-Real-Ip'' = '''' then set_header ''X-Real-Ip'' clientIP r1 else r1);
          r3 = (if r_Header r2 ''X-Forwarded-Proto'' = '''' then set_header ''X-Forwarded-Proto'' ''http'' r2 else r2)
      in set_header ''X-Forwarded-Host'' (r_Host r3) r3)"

section \<open>Blocks are bit prefixes\<close>

definition byte_bits :: "8 word \<Rightarrow> bool list" where
  "byte_bits w = map (\<lambda>i. bit w (7 - i)) [0..<8]"

definition ip_bits :: "ip \<Rightarrow> bool list" where
  "ip_bits a = concat (map byte_bits a)"

lemma length_byte_bits [simp]: "length (byte_bits w) = 8"
  by (simp add: byte_bits_def)

lemma byte_bits_inject: "byte_bits a = byte_bits b \<longleftrightarrow> a = b"
proof
  assume "byte_bits a = byte_bits b"
  then have l: "bit a (7 - i) = bit b (7 - i)" if "i < 8" for i
    using that by (auto simp: byte_bits_def)
  show "a = b"
  proof (rule bit_word_eqI)
    fix n assume "n < LENGTH(8)"
    then show "bit a n = bit b n" using l [of "7 - n"] by simp
  qed
qed simp

lemma byte_mask:
  assumes "k < 8"
  shows "a AND NOT (drop_bit k 255) = b AND NOT (drop_bit k 255) \<longleftrightarrow>
    take k (byte_bits a) = take k (byte_bits (b :: 8 word))"
proof -
  have "list_all (\<lambda>k. list_all (\<lambda>n. bit (NOT (drop_bit k (255 :: 8 word))) n \<longleftrightarrow> 8 \<le> k + n) [0..<8]) [0..<8]"
    by code_simp
  then have m: "bit (NOT (drop_bit k (255 :: 8 word))) n \<longleftrightarrow> 8 \<le> k + n" if "n < 8" for n
    using that assms by (simp add: list_all_iff)
  have "take k (byte_bits w) = map (\<lambda>i. bit w (7 - i)) [0..<k]" for w
    using assms by (simp add: byte_bits_def take_map)
  then have "take k (byte_bits a) = take k (byte_bits b) \<longleftrightarrow> (\<forall>i < k. bit a (7 - i) = bit b (7 - i))"
    by auto
  also have "\<dots> \<longleftrightarrow> (\<forall>n < 8. 8 \<le> k + n \<longrightarrow> bit a n = bit b n)" (is "?L = ?R")
  proof
    assume l: ?L
    show ?R
    proof (intro allI impI)
      fix n :: nat assume "n < 8" "8 \<le> k + n"
      then show "bit a n = bit b n" using l [rule_format, of "7 - n"] by simp
    qed
  next
    assume r: ?R
    show ?L using r assms by simp
  qed
  also have "\<dots> \<longleftrightarrow> a AND NOT (drop_bit k 255) = b AND NOT (drop_bit k 255)"
    using m by (auto simp: bit_eq_iff bit_and_iff dest: bit_imp_le_length) 
  finally show ?thesis by blast
qed

lemma length_CIDRMask [simp]: "length (CIDRMask n l) = l"
  by (induction n l rule: CIDRMask.induct) auto

lemma byte_mask_0: "(a :: 8 word) AND NOT (drop_bit 0 255) = 0"
proof -
  have "NOT (drop_bit 0 255) = (0 :: 8 word)" by code_simp
  then show ?thesis by (simp only: and_zero_eq)
qed

lemma byte_mask_255: "(a :: 8 word) AND 255 = a"
proof -
  have "(255 :: 8 word) = - 1" by code_simp
  then show ?thesis by (simp only: and.right_neutral)
qed

lemma ip_and_CIDRMask:
  "length a = length b \<Longrightarrow>
   ip_and a (CIDRMask n (length a)) = ip_and b (CIDRMask n (length a)) \<longleftrightarrow> take n (ip_bits a) = take n (ip_bits b)"
proof (induction a b arbitrary: n rule: list_induct2)
  case Nil
  then show ?case by simp
next
  case (Cons x xs y ys)
  show ?case
  proof (cases "8 \<le> n")
    case True
    then have "take n (ip_bits (w # ws)) = byte_bits w @ take (n - 8) (ip_bits ws)" for w ws
      by (simp add: ip_bits_def)
    then show ?thesis
      using Cons.IH [of "n - 8"] True by (simp add: ip_and_def byte_mask_255 byte_bits_inject)
  next
    case False
    have t: "take n (ip_bits (w # ws)) = take n (byte_bits w)" for w ws
      using False by (simp add: ip_bits_def)
    show ?thesis
      unfolding t using Cons.IH [of 0] False byte_mask [of n x y] by (simp add: ip_and_def)
  qed
qed

lemma length_ip_and [simp]: "length (ip_and a m) = min (length a) (length m)"
  by (simp add: ip_and_def)

lemma ip_and_idem: "length a = length m \<Longrightarrow> ip_and (ip_and a m) m = ip_and a m"
  by (induction a m rule: list_induct2) (simp_all add: ip_and_def and.assoc)

lemma Contains_zip:
  "length x = length nn \<Longrightarrow> length m = length nn \<Longrightarrow>
   list_all (\<lambda>(k, b, l). k AND l = b AND l) (zip nn (zip x m)) \<longleftrightarrow> ip_and nn m = ip_and x m"
proof (induction nn arbitrary: x m)
  case (Cons k nn)
  then show ?case by (cases x; cases m) (auto simp: ip_and_def)
qed (simp add: ip_and_def)

text \<open>An IPv4 block with its mask, as \<open>ParseCIDR\<close> gives it.\<close>

definition block4 :: "ip \<Rightarrow> nat \<Rightarrow> IPNet" where
  "block4 a n = \<lparr>n_IP = ip_and a (CIDRMask n 4), n_Mask = CIDRMask n 4\<rparr>"

lemma length_v4_prefix [simp]: "length v4_prefix = 12"
  by (simp add: v4_prefix_def)

lemma To4_mapped: "length x = 4 \<Longrightarrow> To4 (v4_prefix @ x) = Some x"
  by (simp add: To4_def)

lemma block4_Contains:
  assumes "length a = 4" and "length x = 4"
  shows "IPNet_Contains (block4 a n) (v4_prefix @ x) \<longleftrightarrow> take n (ip_bits a) = take n (ip_bits x)"
proof -
  let ?m = "CIDRMask n 4"
  have "networkNumberAndMask (block4 a n) = Some (ip_and a ?m, ?m)"
    using assms by (simp add: networkNumberAndMask_def block4_def To4_def Let_def)
  then have "IPNet_Contains (block4 a n) (v4_prefix @ x) \<longleftrightarrow> ip_and (ip_and a ?m) ?m = ip_and x ?m"
    using assms by (simp add: IPNet_Contains_def To4_mapped Contains_zip)
  then show ?thesis
    using assms ip_and_CIDRMask [of a x n] by (simp add: ip_and_idem)
qed

section \<open>Printing and parsing\<close>

definition dotted :: "ip \<Rightarrow> string" where
  "dotted a = Join (map (\<lambda>w. dec_digits (unat w)) a) ''.''"

definition cidr_text :: "ip \<Rightarrow> nat \<Rightarrow> string" where
  "cidr_text a n = dotted a @ CHR ''/'' # dec_digits n"

lemma is_digit_props: "is_digit c \<Longrightarrow> c \<noteq> CHR ''.'' \<and> c \<noteq> CHR ''/'' \<and> c \<noteq> CHR '':'' \<and> c \<noteq> CHR 0x25"
  by (auto simp: is_digit_def)

lemma v4_fields_digits:
  "n \<le> 255 \<Longrightarrow> v4_fields f 0 0 fs (dec_digits n @ cs) = v4_fields False n (length (dec_digits n)) fs cs"
proof (induction n arbitrary: f cs rule: dec_digits.induct)
  case (1 n)
  show ?case
  proof (cases "n < 10")
    case True
    then show ?thesis by (simp add: dec_digits.simps [of n])
  next
    case False
    then have d: "dec_digits n = dec_digits (n div 10) @ [char_of (n mod 10 + 48)]"
      by (simp add: dec_digits.simps [of n])
    have "v4_fields f 0 0 fs (dec_digits n @ cs) =
        v4_fields False (n div 10) (length (dec_digits (n div 10))) fs (char_of (n mod 10 + 48) # cs)"
      using 1 False by (simp add: d)
    also have "\<dots> = v4_fields False n (length (dec_digits n)) fs cs"
      using False 1(2) digit_char [of "n mod 10"] by (simp add: d Let_def div_eq_0_iff)
    finally show ?thesis .
  qed
qed

lemma v4_fields_dot:
  "n \<le> 255 \<Longrightarrow> cs \<noteq> [] \<Longrightarrow> length fs < 3 \<Longrightarrow>
   v4_fields f 0 0 fs (dec_digits n @ CHR ''.'' # cs) = v4_fields True 0 0 (fs @ [of_nat n]) cs"
  by (simp add: v4_fields_digits is_digit_def)

lemma four_bytes:
  assumes "length (a :: ip) = 4"
  obtains p q r s where "a = [p, q, r, s]"
proof -
  have "\<exists>p q r s. a = [p, q, r, s]" using assms by (auto simp: length_Suc_conv numeral_eq_Suc)
  then show ?thesis using that by blast
qed

lemma parseIPv4_dotted:
  assumes "length a = 4"
  shows "parseIPv4 (dotted a) = Some a"
proof -
  obtain p q r s where a: "a = [p, q, r, s]" using assms by (rule four_bytes)
  have u: "unat w \<le> 255" for w :: "8 word"
  proof -
    have "unat w < 2 ^ LENGTH(8)" by (rule unsigned_less)
    then show ?thesis by simp
  qed
  show ?thesis
    using v4_fields_digits [OF u, of _ _ s "[]"]
    by (simp add: parseIPv4_def dotted_def a v4_fields_dot u)
qed

lemma dotted_chars: "length a = 4 \<Longrightarrow> c \<in> set (dotted a) \<Longrightarrow> is_digit c \<or> c = CHR ''.''"
proof -
  assume l: "length a = 4" and c: "c \<in> set (dotted a)"
  obtain p q r s where "a = [p, q, r, s]" using l by (rule four_bytes)
  with c show ?thesis by (auto simp: dotted_def dec_digits_all [rule_format])
qed

lemma first_of_skip: "\<forall>c \<in> set xs. c \<notin> set cs \<Longrightarrow> first_of cs (xs @ ys) = first_of cs ys"
  by (induction xs) auto

lemma ParseAddr_dotted:
  assumes "length a = 4"
  shows "ParseAddr (dotted a) = Some (Addr4 a)"
proof -
  obtain p q r s where a: "a = [p, q, r, s]" using assms by (rule four_bytes)
  have "first_of [CHR ''.'', CHR '':'', CHR 0x25] (dotted a) = Some (CHR ''.'')"
    unfolding dotted_def a using dec_digits_all [of "unat p"] is_digit_props
    by (simp, subst first_of_skip) auto
  then show ?thesis by (simp add: ParseAddr_def parseIPv4_dotted [OF assms])
qed

lemma ParseIP_dotted: "length a = 4 \<Longrightarrow> ParseIP (dotted a) = Some (v4_prefix @ a)"
  by (simp add: ParseIP_def ParseAddr_dotted)

lemma dtoi_from_digits:
  "\<forall>c \<in> set ds. is_digit c \<Longrightarrow> foldl (\<lambda>a c. a * 10 + digit_val c) n ds < 0xFFFFFF \<Longrightarrow> ds \<noteq> [] \<or> i \<noteq> 0 \<Longrightarrow>
   dtoi_from n i ds = (foldl (\<lambda>a c. a * 10 + digit_val c) n ds, i + length ds, True)"
proof (induction ds arbitrary: n i)
  case (Cons c cs)
  have m: "n \<le> foldl (\<lambda>a c. a * 10 + digit_val c) n cs" for n :: nat and cs
  proof (induction cs arbitrary: n)
    case (Cons c cs)
    have "n \<le> n * 10 + digit_val c" by simp
    also note Cons [of "n * 10 + digit_val c"]
    finally show ?case by simp
  qed simp
  have "n * 10 + digit_val c < 0xFFFFFF"
    using m [of "n * 10 + digit_val c" cs] Cons.prems(2) by simp
  then show ?case using Cons.IH [of "n * 10 + digit_val c" "i + 1"] Cons.prems by (simp add: Let_def)
qed simp

lemma foldl_dec_digits: "foldl (\<lambda>a c. a * 10 + digit_val c) 0 (dec_digits n) = n"
proof (induction n rule: dec_digits.induct)
  case (1 n)
  then show ?case
    by (cases "n < 10") (simp_all add: dec_digits.simps [of n] div_mult_mod_eq)
qed

lemma dtoi_dec_digits: "n < 0xFFFFFF \<Longrightarrow> dtoi (dec_digits n) = (n, length (dec_digits n), True)"
  using dtoi_from_digits [of "dec_digits n" 0 0] dec_digits_all [of n] by (simp add: dtoi_def foldl_dec_digits)

lemma IndexByte_append: "c \<notin> set u \<Longrightarrow> IndexByte (u @ c # v) c = Some (length u)"
  by (simp add: IndexByte_def takeWhile_append)

lemma IP_Mask_mapped: "length a = 4 \<Longrightarrow> IP_Mask (v4_prefix @ a) (CIDRMask n 4) = ip_and a (CIDRMask n 4)"
  by (simp add: IP_Mask_def)

lemma ParseCIDR_text:
  assumes "length a = 4" and "n \<le> 32"
  shows "ParseCIDR (cidr_text a n) = Some (block4 a n)"
proof -
  have "CHR ''/'' \<notin> set (dotted a)"
    using dotted_chars [OF assms(1)] is_digit_props by fastforce
  then show ?thesis
    using assms by (simp add: ParseCIDR_def cidr_text_def IndexByte_append ParseAddr_dotted dtoi_dec_digits
        Let_def IP_Mask_mapped block4_def)
qed

lemma isTrustedProxy_blocks:
  assumes "length x = 4" and "\<forall>(a, n) \<in> set bs. length a = 4 \<and> n \<le> 32"
  shows "isTrustedProxy (dotted x) (parseTrustedProxies (map (\<lambda>(a, n). cidr_text a n) bs)) \<longleftrightarrow>
    (\<exists>(a, n) \<in> set bs. take n (ip_bits a) = take n (ip_bits x))"
proof -
  have "parseTrustedProxies (map (\<lambda>(a, n). cidr_text a n) bs) = map (\<lambda>(a, n). block4 a n) bs"
    using assms(2)
    by (induction bs) (auto simp: parseTrustedProxies_def List.map_filter_def ParseCIDR_text)
  moreover have "list_ex (\<lambda>c. IPNet_Contains c (v4_prefix @ x)) (map (\<lambda>(a, n). block4 a n) bs) \<longleftrightarrow>
      (\<exists>p \<in> set bs. IPNet_Contains (block4 (fst p) (snd p)) (v4_prefix @ x))"
    by (simp add: list_ex_iff case_prod_unfold)
  moreover have "\<dots> \<longleftrightarrow> (\<exists>p \<in> set bs. take (snd p) (ip_bits (fst p)) = take (snd p) (ip_bits x))"
    using assms by (intro bex_cong refl block4_Contains) auto
  ultimately show ?thesis
    by (simp add: isTrustedProxy_def ParseIP_dotted [OF assms(1)] case_prod_unfold)
qed

text \<open>Splitting what \<open>JoinHostPort\<close> builds, for hosts and ports without brackets.\<close>

lemma SplitHostPort_Join:
  assumes "CHR '':'' \<notin> set port" and "{CHR ''['', CHR '']''} \<inter> (set host \<union> set port) = {}"
  shows "SplitHostPort (JoinHostPort host port) = Some (host, port)"
proof (cases "CHR '':'' \<in> set host")
  case False
  then have "LastIndex (host @ CHR '':'' # port) (CHR '':'') = Some (length host)"
    using assms(1) by (simp add: LastIndex_append)
  moreover have "(host @ CHR '':'' # port) ! 0 \<noteq> CHR ''[''"
    using assms(2) by (cases host) auto
  ultimately show ?thesis
    using False assms(2) by (simp add: SplitHostPort_def JoinHostPort_def)
next
  case True
  let ?h = "CHR ''['' # host"
  let ?s = "?h @ CHR '']'' # CHR '':'' # port"
  have "?s = (?h @ [CHR '']'']) @ CHR '':'' # port" by simp
  then have "LastIndex ?s (CHR '':'') = Some (length (?h @ [CHR '']'']))"
    using LastIndex_append [OF assms(1), of "?h @ [CHR '']'']"] by metis
  moreover have "IndexByte ?s (CHR '']'') = Some (length ?h)"
    using assms(2) by (intro IndexByte_append) auto
  ultimately show ?thesis
    using True assms(2) by (simp add: SplitHostPort_def JoinHostPort_def)
qed

lemma dotted_plain:
  assumes "length a = 4" and "c \<in> {CHR ''['', CHR '']'', CHR '':''}"
  shows "c \<notin> set (dotted a)"
  using dotted_chars [OF assms(1), of c] assms(2) by (auto simp: is_digit_def)

lemma host_of_dotted:
  assumes "length x = 4" and "{CHR ''['', CHR '']'', CHR '':''} \<inter> set port = {}"
  shows "host_of (JoinHostPort (dotted x) port) = dotted x"
proof -
  have "SplitHostPort (JoinHostPort (dotted x) port) = Some (dotted x, port)"
    using assms(2) dotted_plain [OF assms(1)] by (intro SplitHostPort_Join) auto
  then show ?thesis by (simp add: host_of_def)
qed

lemma SplitN2_first: "SplitN2 s c ! 0 = takeWhile (\<lambda>x. x \<noteq> c) s"
  by (auto simp: SplitN2_def intro: takeWhile_eq_all_conv [THEN iffD2, symmetric])

lemma clientIP_blocks:
  assumes "r_RemoteAddr r = JoinHostPort (dotted x) port" and "length x = 4"
    and "{CHR ''['', CHR '']'', CHR '':''} \<inter> set port = {}"
    and "\<forall>(a, n) \<in> set bs. length a = 4 \<and> n \<le> 32"
  shows "clientIP (parseTrustedProxies (map (\<lambda>(a, n). cidr_text a n) bs)) r =
    (if (\<exists>(a, n) \<in> set bs. take n (ip_bits a) = take n (ip_bits x)) \<and> r_Header r ''X-Forwarded-For'' \<noteq> ''''
     then TrimSpace (takeWhile (\<lambda>c. c \<noteq> CHR '','') (r_Header r ''X-Forwarded-For''))
     else dotted x)"
proof -
  let ?T = "parseTrustedProxies (map (\<lambda>(a, n). cidr_text a n) bs)"
  have "isTrustedProxy (dotted x) ?T \<longleftrightarrow> (\<exists>(a, n) \<in> set bs. take n (ip_bits a) = take n (ip_bits x))"
    by (rule isTrustedProxy_blocks [OF assms(2,4)])
  moreover have "isTrustedProxy (dotted x) ?T \<Longrightarrow> ?T \<noteq> []"
    by (auto simp: isTrustedProxy_def split: option.splits)
  ultimately show ?thesis
    by (simp add: clientIP_def Let_def assms(1) host_of_dotted [OF assms(2,3)] SplitN2_first)
qed

text \<open>
  C37 (safety): the address a request is counted under. With IPv4 peers and blocks it is the
  address of the connection, and a header decides only when the connection comes from an
  address that agrees with a configured block in all bits of its prefix; then it is the
  first entry of \<open>X-Forwarded-For\<close>.
\<close>

theorem client_address:
  assumes "r_RemoteAddr r = JoinHostPort (dotted x) port" and "length x = 4"
    and "{CHR ''['', CHR '']'', CHR '':''} \<inter> set port = {}"
    and "\<forall>(a, n) \<in> set bs. length a = 4 \<and> n \<le> 32"
  shows "clientIP (parseTrustedProxies (map (\<lambda>(a, n). cidr_text a n) bs)) r =
    (if (\<exists>(a, n) \<in> set bs. take n (ip_bits a) = take n (ip_bits x)) \<and> r_Header r ''X-Forwarded-For'' \<noteq> ''''
     then TrimSpace (takeWhile (\<lambda>c. c \<noteq> CHR '','') (r_Header r ''X-Forwarded-For''))
     else dotted x)"
  by (rule clientIP_blocks [OF assms])

definition xff_request :: "string \<Rightarrow> string \<Rightarrow> request" where
  "xff_request peer xff =
     \<lparr>r_Method = ''GET'', r_Host = ''app.local'', r_Path = ''/_health'', r_RawQuery = '''', r_Query = (\<lambda>_. ''''),
      r_Header = (\<lambda>h. if h = ''X-Forwarded-For'' then xff else ''''), r_RemoteAddr = peer\<rparr>"

lemma ip_bits_small:
  "take 8 (ip_bits [10, 0, 0, 0]) = take 8 (ip_bits [10, 1, 2, 3])"
  "take 8 (ip_bits [10, 1, 2, 3]) \<noteq> take 8 (ip_bits [11, 1, 2, 3])"
  by code_simp+

lemma dotted_small:
  "dotted [10, 1, 2, 3] = ''10.1.2.3''" "dotted [11, 1, 2, 3] = ''11.1.2.3''"
  "cidr_text [10, 0, 0, 0] 8 = ''10.0.0.0/8''"
  by code_simp+

theorem client_address_witness:
  "clientIP (parseTrustedProxies [''10.0.0.0/8'']) (xff_request ''10.1.2.3:4711'' ''1.2.3.4, 10.9.9.9'') = ''1.2.3.4''
   \<and> clientIP (parseTrustedProxies [''10.0.0.0/8'']) (xff_request ''11.1.2.3:4711'' ''1.2.3.4, 10.9.9.9'') = ''11.1.2.3''"
proof -
  have t: "TrimSpace ''1.2.3.4'' = ''1.2.3.4''" by code_simp
  have j: "JoinHostPort ''10.1.2.3'' ''4711'' = ''10.1.2.3:4711''" "JoinHostPort ''11.1.2.3'' ''4711'' = ''11.1.2.3:4711''"
    by (simp_all add: JoinHostPort_def)
  show ?thesis
    using client_address [of "xff_request ''10.1.2.3:4711'' ''1.2.3.4, 10.9.9.9''" "[10, 1, 2, 3]" "''4711''" "[([10, 0, 0, 0], 8)]"]
      client_address [of "xff_request ''11.1.2.3:4711'' ''1.2.3.4, 10.9.9.9''" "[11, 1, 2, 3]" "''4711''" "[([10, 0, 0, 0], 8)]"]
    by (simp add: xff_request_def dotted_small j t ip_bits_small)
qed

section \<open>Forwarded headers\<close>

lemma setForwardedHeaders_get:
  "r_Header (setForwardedHeaders r) h =
    (if h = ''X-Forwarded-For'' then
       (if r_Header r h = '''' then host_of (r_RemoteAddr r) else r_Header r h @ '', '' @ host_of (r_RemoteAddr r))
     else if h = ''X-Real-Ip'' \<and> r_Header r h = '''' then host_of (r_RemoteAddr r)
     else if h = ''X-Forwarded-Proto'' \<and> r_Header r h = '''' then ''http''
     else if h = ''X-Forwarded-Host'' then r_Host r
     else r_Header r h) \<and>
   r_Host (setForwardedHeaders r) = r_Host r \<and> r_RemoteAddr (setForwardedHeaders r) = r_RemoteAddr r \<and>
   r_Path (setForwardedHeaders r) = r_Path r \<and> r_Method (setForwardedHeaders r) = r_Method r"
  by (auto simp: setForwardedHeaders_def set_header_def Let_def)

text \<open>
  What the backend is told. The peer is appended to the chain of
  addresses, the other two headers keep a value that is already there, the forwarded host
  is always the one the client asked for, and no other part of the request changes.
\<close>

theorem forwarded_headers:
  "r_Header (setForwardedHeaders r) h =
    (if h = ''X-Forwarded-For'' then
       (if r_Header r h = '''' then host_of (r_RemoteAddr r) else r_Header r h @ '', '' @ host_of (r_RemoteAddr r))
     else if h = ''X-Real-Ip'' \<and> r_Header r h = '''' then host_of (r_RemoteAddr r)
     else if h = ''X-Forwarded-Proto'' \<and> r_Header r h = '''' then ''http''
     else if h = ''X-Forwarded-Host'' then r_Host r
     else r_Header r h) \<and>
   r_Host (setForwardedHeaders r) = r_Host r \<and> r_RemoteAddr (setForwardedHeaders r) = r_RemoteAddr r \<and>
   r_Path (setForwardedHeaders r) = r_Path r \<and> r_Method (setForwardedHeaders r) = r_Method r"
  by (rule setForwardedHeaders_get)

text \<open>
  Behind a trusted proxy that extends the chain the way the gateway itself
  does, the address a request is counted under is the one its sender wrote in the header.
\<close>

theorem sender_chooses_address:
  assumes "r_Header r ''X-Forwarded-For'' = forged" and "forged \<noteq> ''''" and "CHR '','' \<notin> set forged"
    and "isTrustedProxy (host_of proxy) trusted"
  shows "clientIP trusted ((setForwardedHeaders r)\<lparr>r_RemoteAddr := proxy\<rparr>) = TrimSpace forged"
proof -
  have x: "r_Header ((setForwardedHeaders r)\<lparr>r_RemoteAddr := proxy\<rparr>) ''X-Forwarded-For'' =
      forged @ '', '' @ host_of (r_RemoteAddr r)"
    using assms(1,2) by (simp add: setForwardedHeaders_def set_header_def Let_def)
  have "trusted \<noteq> []" using assms(4) by (auto simp: isTrustedProxy_def split: option.splits)
  moreover have "takeWhile (\<lambda>c. c \<noteq> CHR '','') (forged @ '', '' @ host_of (r_RemoteAddr r)) = forged"
    using assms(3) by (simp add: takeWhile_append)
  ultimately show ?thesis
    unfolding clientIP_def Let_def SplitN2_first x using assms(4) by simp
qed

theorem sender_chooses_address_witness:
  "clientIP (parseTrustedProxies [''10.0.0.0/8''])
     ((setForwardedHeaders (xff_request ''66.6.6.6:99'' ''8.8.8.8''))\<lparr>r_RemoteAddr := ''10.1.2.3:4711''\<rparr>) = ''8.8.8.8''"
proof -
  have "host_of ''10.1.2.3:4711'' = ''10.1.2.3''" by code_simp
  moreover have "isTrustedProxy (dotted [10, 1, 2, 3]) (parseTrustedProxies (map (\<lambda>(a, n). cidr_text a n) [([10, 0, 0, 0], 8)]))"
    by (subst isTrustedProxy_blocks) (simp_all add: ip_bits_small)
  ultimately have t: "isTrustedProxy (host_of ''10.1.2.3:4711'') (parseTrustedProxies [''10.0.0.0/8''])"
    by (simp add: dotted_small)
  have "TrimSpace ''8.8.8.8'' = ''8.8.8.8''" by code_simp
  then show ?thesis
    using sender_chooses_address [OF _ _ _ t, of "xff_request ''66.6.6.6:99'' ''8.8.8.8''" "''8.8.8.8''"]
    by (simp add: xff_request_def)
qed

end
