(* ===== verification/Server.thy ===== *)
theory Server
  imports SchedManager GroupRouter RateLimit NetAddr
begin

text \<open>
  The HTTP server of \<^verbatim>\<open>gateway/server.go\<close>: its state, the request handlers that wake
  containers and proxy to them, and the endpoints the loading page polls.

  A handler takes the request and the state and gives the response and the new state; a
  goroutine it starts is appended to the state's task list, which \<open>run_task\<close> works off.
  Where validity windows are evaluated the result is optional, since a cron schedule may
  make that loop run for ever.
\<close>

section \<open>Data\<close>

record loadingData =
  ld_ContainerName :: string
  ld_RequestID :: string
  ld_RequestPath :: string
  ld_RedirectPath :: string
  ld_StartTimeout :: string

datatype page_error =
    NotInDaemon
  | DockerError string
  | NetworkingError addr_error

record errorData =
  ed_ContainerName :: string
  ed_Error :: page_error
  ed_RequestID :: string
  ed_RequestPath :: string

record scheduledData =
  sd_ContainerName :: string
  sd_NextStart :: string

record statusContainerJSON =
  st_Name :: string
  st_Host :: string
  st_Status :: string
  st_StartState :: string
  st_Image :: string
  st_Icon :: string
  st_TargetPort :: string
  st_StartTimeout :: string
  st_IdleTimeout :: string
  st_StartedAt :: "string option"
  st_LastRequest :: "string option"
  st_IdleTimeoutSec :: int
  st_IdleRemainingSec :: int
  st_Network :: string
  st_ScheduleStart :: string
  st_ScheduleStop :: string
  st_ScheduleTimezone :: string
  st_ScheduledDowntime :: bool
  st_NextScheduledStart :: string

record topologyContainerJSON =
  tp_Name :: string
  tp_Host :: string
  tp_Status :: string
  tp_Image :: string
  tp_Icon :: string
  tp_TargetPort :: string
  tp_HealthPath :: string
  tp_DependsOn :: "string list"
  tp_StartedAt :: "string option"
  tp_LastRequest :: "string option"
  tp_IdleTimeout :: string
  tp_ScheduleStart :: string
  tp_ScheduleStop :: string

record topologyGroupJSON =
  tg_Name :: string
  tg_Host :: string
  tg_Containers :: "string list"

record topologyPayload =
  tl_Containers :: "topologyContainerJSON list"
  tl_Groups :: "topologyGroupJSON list"

text \<open>
  What a response carries: a template with its data, a JSON value, the backend's answer, a
  tunnel, an error text with its arguments, or nothing because the handler panicked.
\<close>

datatype payload =
    LoadingPage loadingData
  | ErrorPage errorData
  | ScheduledPage scheduledData
  | StatusPage string
  | TopologyPage topologyPayload
  | HealthJSON string string
  | LogsJSON "string list"
  | StatusJSON string "statusContainerJSON list"
  | OkJSON bool
  | Backend string
  | Tunnel string
  | MemberNotFound string string
  | BackendUnreachable string
  | Redirect string
  | Metrics "event list"
  | Aborted

type_synonym reply = "payload response"

definition html :: "int \<Rightarrow> payload \<Rightarrow> reply" where
  "html code p = \<lparr>p_Status = code, p_Header = [(''Content-Type'', ''text/html; charset=utf-8'')], p_Body = Payload p\<rparr>"

definition json :: "payload \<Rightarrow> reply" where
  "json p = \<lparr>p_Status = 200, p_Header = [(''Content-Type'', ''application/json'')], p_Body = Payload p\<rparr>"

definition error_reply :: "payload \<Rightarrow> int \<Rightarrow> reply" where
  "error_reply p code = (http_Error [] '''' code)\<lparr>p_Body := Payload p\<rparr>"

definition NotFound :: reply where
  "NotFound = http_Error [] ''404 page not found'' 404"

text \<open>A panic of the handler: the server closes the connection and sends nothing.\<close>

definition aborted :: reply where
  "aborted = \<lparr>p_Status = 0, p_Header = [], p_Body = Payload Aborted\<rparr>"

datatype task =
    TaskDeps string duration "ContainerConfig list"
  | TaskStart ContainerConfig
  | TaskGroup GroupConfig
  | TaskWake ContainerConfig

record ('w, 'c) server =
  sv_manager :: "'w mgr"
  sv_cfg :: GatewayConfig
  sv_hostIndex :: "string \<Rightarrow> ContainerConfig option"
  sv_groupIndex :: "string \<Rightarrow> GroupConfig option"
  sv_containerMap :: "string \<Rightarrow> ContainerConfig option"
  sv_trustedCIDRs :: "IPNet list"
  sv_rateLimiter :: rateLimiter
  sv_groupRouter :: GroupRouter
  sv_scheduler :: "'c sched"
  sv_schedLoc :: "location option"
  sv_tasks :: "task list"

text \<open>
  What is outside the server: the libraries, the daemon and the clock, the reverse proxy's
  exchange with a backend, \<^verbatim>\<open>url.Parse\<close> (the host of an origin), \<^verbatim>\<open>URL.String\<close> (of a path and
  a raw query) and the formatting of times and durations.
\<close>

record ('w, 'c) outside =
  o_libs :: libs
  o_env :: "'w env"
  o_cron :: "'c cronlib"
  o_parse_time :: "string \<Rightarrow> time option"
  o_exchange :: "string \<Rightarrow> request \<Rightarrow> 'w \<Rightarrow> reply \<times> 'w"
  o_url_host :: "string \<Rightarrow> string option"
  o_url_string :: "string \<Rightarrow> string \<Rightarrow> string"
  o_fmt_time :: "location option \<Rightarrow> time \<Rightarrow> string"
  o_fmt_rfc3339 :: "time \<Rightarrow> string"
  o_fmt_duration :: "duration \<Rightarrow> string"

definition on_mgr :: "('w mgr \<Rightarrow> 'r \<times> 'w mgr) \<Rightarrow> ('w, 'c) server \<Rightarrow> 'r \<times> ('w, 'c) server" where
  "on_mgr f s = (case f (sv_manager s) of (r, m) \<Rightarrow> (r, s\<lparr>sv_manager := m\<rparr>))"

definition clock_now :: "('w, 'c) outside \<Rightarrow> ('w, 'c) server \<Rightarrow> time \<times> ('w, 'c) server" where
  "clock_now Q = on_mgr (time_Now (o_env Q))"

definition mgr_do :: "('w mgr \<Rightarrow> 'w mgr) \<Rightarrow> ('w, 'c) server \<Rightarrow> ('w, 'c) server" where
  "mgr_do f s = s\<lparr>sv_manager := f (sv_manager s)\<rparr>"

definition spawn :: "task \<Rightarrow> ('w, 'c) server \<Rightarrow> ('w, 'c) server" where
  "spawn t s = s\<lparr>sv_tasks := sv_tasks s @ [t]\<rparr>"

section \<open>Construction and reload\<close>

definition NewServer :: "libs \<Rightarrow> 'w mgr \<Rightarrow> 'c sched \<Rightarrow> GatewayConfig \<Rightarrow> ('w, 'c) server" where
  "NewServer L manager scheduler cfg =
     \<lparr>sv_manager = manager, sv_cfg = cfg, sv_hostIndex = BuildHostIndex cfg,
      sv_groupIndex = BuildGroupHostIndex cfg, sv_containerMap = BuildContainerMap cfg,
      sv_trustedCIDRs = parseTrustedProxies (TrustedProxies (Gateway cfg)),
      sv_rateLimiter = newRateLimiter (1 * second), sv_groupRouter = NewGroupRouter,
      sv_scheduler = scheduler, sv_schedLoc = resolveLocation L (ScheduleTimezone (Gateway cfg)),
      sv_tasks = []\<rparr>"

definition ReloadConfig :: "('w, 'c) outside \<Rightarrow> GatewayConfig \<Rightarrow> ('w, 'c) server \<Rightarrow> ('w, 'c) server" where
  "ReloadConfig Q newCfg s =
     (let loc = resolveLocation (o_libs Q) (ScheduleTimezone (Gateway newCfg))
      in s\<lparr>sv_cfg := newCfg, sv_schedLoc := loc, sv_hostIndex := BuildHostIndex newCfg,
           sv_groupIndex := BuildGroupHostIndex newCfg, sv_containerMap := BuildContainerMap newCfg,
           sv_trustedCIDRs := parseTrustedProxies (TrustedProxies (Gateway newCfg)),
           sv_scheduler := Sync (o_libs Q) (o_cron Q) (Containers newCfg) loc (sv_scheduler s)\<rparr>)"

definition GetConfig :: "('w, 'c) server \<Rightarrow> GatewayConfig" where
  "GetConfig s = sv_cfg s"

section \<open>Routing\<close>

text \<open>A host in an index, first as it is and then without what follows its last colon.\<close>

definition host_lookup :: "(string \<Rightarrow> 'a option) \<Rightarrow> string \<Rightarrow> 'a option" where
  "host_lookup idx host =
     (case idx host of
        Some c \<Rightarrow> Some c
      | None \<Rightarrow> (case LastIndex host (CHR '':'') of Some i \<Rightarrow> idx (take i host) | None \<Rightarrow> None))"

definition resolveConfig :: "request \<Rightarrow> ('w, 'c) server \<Rightarrow> ContainerConfig option" where
  "resolveConfig r s =
     (case host_lookup (sv_hostIndex s) (r_Host r) of
        Some c \<Rightarrow> Some c
      | None \<Rightarrow>
          (let name = r_Query r ''container''
           in if name \<noteq> '''' then find (\<lambda>c. c_Name c = name) (Containers (sv_cfg s)) else None))"

definition resolveGroup :: "request \<Rightarrow> ('w, 'c) server \<Rightarrow> GroupConfig option" where
  "resolveGroup r s = host_lookup (sv_groupIndex s) (r_Host r)"

section \<open>Pages\<close>

text \<open>
  \<^verbatim>\<open>requestID\<close>: the nanoseconds since 1970 modulo \<^verbatim>\<open>0xFFFFFF\<close>, in hexadecimal; Go's
  remainder has the sign of the dividend.
\<close>

fun hex_digits :: "nat \<Rightarrow> string" where
  "hex_digits n =
     (let d = (\<lambda>k. if k < 10 then char_of (k + 48) else char_of (k + 87 :: nat))
      in if n < 16 then [d n] else hex_digits (n div 16) @ [d (n mod 16)])"

declare hex_digits.simps [simp del]

definition UnixNano :: "time \<Rightarrow> int" where
  "UnixNano t = wrap64 (t - 62135596800 * second)"

definition requestID :: "string \<Rightarrow> time \<Rightarrow> string" where
  "requestID pre t =
     (let k = UnixNano t; m = nat (\<bar>k\<bar> mod 0xFFFFFF)
      in pre @ ''-'' @ (if k < 0 \<and> m \<noteq> 0 then ''-'' else '''') @ hex_digits m)"

definition serveLoadingPage :: "('w, 'c) outside \<Rightarrow> request \<Rightarrow> ContainerConfig \<Rightarrow> ('w, 'c) server \<Rightarrow>
    reply \<times> ('w, 'c) server" where
  "serveLoadingPage Q r cfg s =
     (case clock_now Q s of
        (t, s1) \<Rightarrow>
          (html 200 (LoadingPage
             \<lparr>ld_ContainerName = c_Name cfg, ld_RequestID = requestID ''req'' t, ld_RequestPath = r_Path r,
              ld_RedirectPath = c_RedirectPath cfg, ld_StartTimeout = o_fmt_duration Q (c_StartTimeout cfg)\<rparr>), s1))"

definition serveScheduledPage :: "('w, 'c) outside \<Rightarrow> ContainerConfig \<Rightarrow> time \<Rightarrow> location option \<Rightarrow>
    ('w, 'c) server \<Rightarrow> reply \<times> ('w, 'c) server" where
  "serveScheduledPage Q cfg nextStart loc s =
     (html 503 (ScheduledPage
        \<lparr>sd_ContainerName = c_Name cfg,
         sd_NextStart = (if nextStart = 0 then '''' else o_fmt_time Q loc nextStart)\<rparr>), s)"

definition serveErrorPage :: "('w, 'c) outside \<Rightarrow> request \<Rightarrow> ContainerConfig \<Rightarrow> page_error \<Rightarrow>
    ('w, 'c) server \<Rightarrow> reply \<times> ('w, 'c) server" where
  "serveErrorPage Q r cfg err s =
     (case clock_now Q s of
        (t, s1) \<Rightarrow>
          (html 502 (ErrorPage
             \<lparr>ed_ContainerName = c_Name cfg, ed_Error = err, ed_RequestID = requestID ''err'' t,
              ed_RequestPath = r_Path r\<rparr>), s1))"

section \<open>Proxying\<close>

text \<open>
  \<^verbatim>\<open>strings.EqualFold\<close> against the word \<^verbatim>\<open>websocket\<close>: besides the two cases of each letter,
  Unicode folds the Kelvin sign with \<^verbatim>\<open>k\<close> and the long s with \<^verbatim>\<open>s\<close>. For \<^verbatim>\<open>strings.ToLower\<close>
  only the ASCII letters matter, since no other character has a lower case in \<^verbatim>\<open>upgrade\<close>.
\<close>

definition lower :: "char \<Rightarrow> char" where
  "lower c = (if 65 \<le> (of_char c :: nat) \<and> (of_char c :: nat) \<le> 90 then char_of (of_char c + 32 :: nat) else c)"

definition long_s :: string where "long_s = [CHR 0xC5, CHR 0xBF]"
definition kelvin :: string where "kelvin = [CHR 0xE2, CHR 0x84, CHR 0xAA]"

fun fold_eq :: "string \<Rightarrow> string \<Rightarrow> bool" where
  "fold_eq s [] \<longleftrightarrow> s = []"
| "fold_eq s (t # ts) \<longleftrightarrow>
     (if s = [] then False
      else if lower (hd s) = t then fold_eq (tl s) ts
      else if t = CHR ''s'' \<and> HasPrefix s long_s then fold_eq (drop 2 s) ts
      else if t = CHR ''k'' \<and> HasPrefix s kelvin then fold_eq (drop 3 s) ts
      else False)"

definition isWebSocketRequest :: "request \<Rightarrow> bool" where
  "isWebSocketRequest r \<longleftrightarrow>
     fold_eq (r_Header r ''Upgrade'') ''websocket'' \<and> Contains (map lower (r_Header r ''Connection'')) ''upgrade''"

text \<open>
  The two response writers: the one of Go's server, which is an \<^verbatim>\<open>http.Hijacker\<close>, and the
  \<^verbatim>\<open>metricsResponseWriter\<close>, a struct that embeds the interface \<^verbatim>\<open>http.ResponseWriter\<close>, so its
  method set has \<^verbatim>\<open>Header\<close>, \<^verbatim>\<open>Write\<close> and \<^verbatim>\<open>WriteHeader\<close> and nothing else.
\<close>

datatype writer = ServerWriter | MetricsWriter

fun is_Hijacker :: "writer \<Rightarrow> bool" where
  "is_Hijacker ServerWriter = True"
| "is_Hijacker MetricsWriter = False"

definition proxyWebSocket :: "('w, 'c) outside \<Rightarrow> writer \<Rightarrow> string \<Rightarrow> ('w, 'c) server \<Rightarrow>
    reply \<times> ('w, 'c) server" where
  "proxyWebSocket Q w backendAddr s =
     (if \<not> is_Hijacker w
      then (http_Error [] ''WebSocket proxying not supported by this server'' 500, s)
      else
        (case on_mgr (on_io (call (DialTimeout (o_env Q) backendAddr (10 * second)) (\<lambda>_. [EvDial backendAddr]))) s of
           (Some err, s1) \<Rightarrow> (error_reply (BackendUnreachable err) 502, s1)
         | (None, s1) \<Rightarrow> (\<lparr>p_Status = 101, p_Header = [], p_Body = Payload (Tunnel backendAddr)\<rparr>, s1)))"

text \<open>
  \<^verbatim>\<open>url.Parse("http://" + addr)\<close> for an address followed by a port: it fails unless the port
  is made of digits, and its error is ignored, so the nil result is dereferenced. A target
  port in which a path, a query, a fragment or a user begins (a slash, a question mark, a
  number sign, an at sign) is outside the model: the parser would end the address there.
\<close>

definition target_host :: "string \<Rightarrow> string option" where
  "target_host addr =
     (case LastIndex addr (CHR '':'') of
        None \<Rightarrow> Some addr
      | Some i \<Rightarrow> if list_all is_digit (drop (i + 1) addr) then Some addr else None)"

text \<open>
  What \<^verbatim>\<open>httputil.ReverseProxy\<close> does to the forwarding chain before it sends a request: with
  a \<^verbatim>\<open>Director\<close> it appends the address of the peer.
\<close>

definition ReverseProxy :: "request \<Rightarrow> request" where
  "ReverseProxy r =
     (case SplitHostPort (r_RemoteAddr r) of
        None \<Rightarrow> r
      | Some (peer, _) \<Rightarrow>
          set_header ''X-Forwarded-For''
            (if r_Header r ''X-Forwarded-For'' \<noteq> '''' then r_Header r ''X-Forwarded-For'' @ '', '' @ peer else peer) r)"

definition proxyRequest :: "('w, 'c) outside \<Rightarrow> writer \<Rightarrow> request \<Rightarrow> ContainerConfig \<Rightarrow> ('w, 'c) server \<Rightarrow>
    reply \<times> ('w, 'c) server" where
  "proxyRequest Q w r cfg s =
     (case on_mgr (on_io (GetContainerAddress (o_env Q) CtxRequest (c_Name cfg) (c_Network cfg))) s of
        (Inl err, s1) \<Rightarrow> serveErrorPage Q r cfg (NetworkingError err) s1
      | (Inr ip, s1) \<Rightarrow>
          (let addr = ip @ '':'' @ c_TargetPort cfg in
           if isWebSocketRequest r then proxyWebSocket Q w addr s1
           else
             (case target_host addr of
                None \<Rightarrow> (aborted, s1)
              | Some host \<Rightarrow>
                  on_mgr (on_io (call (o_exchange Q host
                    (ReverseProxy ((setForwardedHeaders r)\<lparr>r_Host := host\<rparr>))) (\<lambda>_. []))) s1)))"

section \<open>The main handler\<close>

text \<open>
  The deferred metric: \<^verbatim>\<open>statusCode\<close> starts at 200 and is set by \<^verbatim>\<open>WriteHeader\<close>, which a
  handler that panics before it answers never calls.
\<close>

definition metric_status :: "reply \<Rightarrow> int" where
  "metric_status resp = (if p_Body resp = Payload Aborted then 200 else p_Status resp)"

definition with_metric :: "('w, 'c) outside \<Rightarrow> string \<Rightarrow> time \<Rightarrow> reply \<times> ('w, 'c) server \<Rightarrow>
    reply \<times> ('w, 'c) server" where
  "with_metric Q name start rs =
     (case clock_now Q (snd rs) of
        (t, s1) \<Rightarrow>
          (fst rs, mgr_do (\<lambda>m. snd (on_io (\<lambda>io. ((),
             RecordRequest name (format_d (metric_status (fst rs))) (time_Sub t start) io)) m)) s1))"

fun dep_down :: "('w, 'c) outside \<Rightarrow> string list \<Rightarrow> ('w, 'c) server \<Rightarrow> bool \<times> ('w, 'c) server" where
  "dep_down Q [] s = (False, s)"
| "dep_down Q (depName # deps) s =
     (case on_mgr (on_io (GetContainerStatus (o_env Q) CtxRequest depName)) s of
        (depStatus, s1) \<Rightarrow> if depStatus \<noteq> Inr ''running'' then (True, s1) else dep_down Q deps s1)"

definition serve_running :: "('w, 'c) outside \<Rightarrow> request \<Rightarrow> ContainerConfig \<Rightarrow> ('w, 'c) server \<Rightarrow>
    reply \<times> ('w, 'c) server" where
  "serve_running Q r cfg s =
     (let allContainers = Containers (GetConfig s) in
      case (if 0 < length (c_DependsOn cfg) then dep_down Q (c_DependsOn cfg) s else (False, s)) of
        (True, s1) \<Rightarrow>
          serveLoadingPage Q r cfg
            (spawn (TaskDeps (c_Name cfg) (c_StartTimeout cfg) allContainers)
               (mgr_do (InitStartState (c_Name cfg)) s1))
      | (False, s1) \<Rightarrow>
          proxyRequest Q MetricsWriter r cfg
            (mgr_do (RecordActivityChain (o_env Q) [c_Name cfg] (Containers (GetConfig s1))) s1))"

definition serve_container :: "('w, 'c) outside \<Rightarrow> request \<Rightarrow> ContainerConfig \<Rightarrow> ('w, 'c) server \<Rightarrow>
    reply \<times> ('w, 'c) server" where
  "serve_container Q r cfg s =
     (case on_mgr (on_io (GetContainerStatus (o_env Q) CtxRequest (c_Name cfg))) s of
        (Inl err, s1) \<Rightarrow>
          if Contains err ''No such container'' then serveErrorPage Q r cfg NotInDaemon s1
          else serveErrorPage Q r cfg (DockerError err) s1
      | (Inr status, s1) \<Rightarrow>
          if status = ''running'' then serve_running Q r cfg s1
          else serveLoadingPage Q r cfg (spawn (TaskStart cfg) (mgr_do (InitStartState (c_Name cfg)) s1)))"

definition handleGroupRequest :: "('w, 'c) outside \<Rightarrow> request \<Rightarrow> GroupConfig \<Rightarrow> ('w, 'c) server \<Rightarrow>
    reply \<times> ('w, 'c) server" where
  "handleGroupRequest Q r grp s =
     (case Pick grp (sv_groupRouter s) of
        (pickedName, gr) \<Rightarrow>
          (let s0 = s\<lparr>sv_groupRouter := gr\<rparr> in
           case sv_containerMap s0 pickedName of
             None \<Rightarrow> (error_reply (MemberNotFound (g_Name grp) pickedName) 500, s0)
           | Some pickedCfg \<Rightarrow>
               (case clock_now Q s0 of
                  (start, s1) \<Rightarrow>
                    with_metric Q (c_Name pickedCfg) start
                      (case on_mgr (on_io (GetContainerStatus (o_env Q) CtxRequest (c_Name pickedCfg))) s1 of
                         (status, s2) \<Rightarrow>
                           if status \<noteq> Inr ''running'' then
                             serveLoadingPage Q r pickedCfg
                               (spawn (TaskGroup grp)
                                  (mgr_do (\<lambda>m. foldl (\<lambda>m mn. InitStartState mn m) m (g_Containers grp)) s2))
                           else
                             proxyRequest Q MetricsWriter r pickedCfg
                               (mgr_do (RecordActivityChain (o_env Q) (g_Containers grp)
                                  (Containers (GetConfig s2))) s2)))))"

definition internal_path :: "string \<Rightarrow> bool" where
  "internal_path p \<longleftrightarrow> p = ''/_health'' \<or> p = ''/_logs'' \<or> HasPrefix p ''/_status'' \<or> p = ''/_metrics''"

definition handleRequest :: "('w, 'c) outside \<Rightarrow> request \<Rightarrow> ('w, 'c) server \<Rightarrow>
    (reply \<times> ('w, 'c) server) option" where
  "handleRequest Q r s =
     (if internal_path (r_Path r) then Some (NotFound, s)
      else
        (case resolveGroup r s of
           Some grp \<Rightarrow> Some (handleGroupRequest Q r grp s)
         | None \<Rightarrow>
             (case resolveConfig r s of
                None \<Rightarrow> Some (NotFound, s)
              | Some cfg \<Rightarrow>
                  (let loc = effective_loc (o_libs Q) (sv_schedLoc s) cfg in
                   case clock_now Q s of
                     (t, s1) \<Rightarrow>
                       (case IsInScheduleWindow (parse_cron (o_libs Q)) cfg t loc of
                          None \<Rightarrow> None
                        | Some (allowed, nextStart) \<Rightarrow>
                            Some (if \<not> allowed then serveScheduledPage Q cfg nextStart loc s1
                                  else (case clock_now Q s1 of
                                          (start, s2) \<Rightarrow>
                                            with_metric Q (c_Name cfg) start (serve_container Q r cfg s2))))))))"

section \<open>Health and logs\<close>

text \<open>\<^verbatim>\<open>rateLimiter.Allow(clientIP(r))\<close> with the clock readings it makes.\<close>

definition allow_request :: "('w, 'c) outside \<Rightarrow> request \<Rightarrow> ('w, 'c) server \<Rightarrow> bool \<times> ('w, 'c) server" where
  "allow_request Q r s =
     (let ip = clientIP (sv_trustedCIDRs s) r in
      case l_lastSeen (sv_rateLimiter s) ip of
        None \<Rightarrow>
          (case clock_now Q s of
             (t, s1) \<Rightarrow> (True, s1\<lparr>sv_rateLimiter := snd (Allow t t ip (sv_rateLimiter s1))\<rparr>))
      | Some _ \<Rightarrow>
          (case clock_now Q s of
             (since, s1) \<Rightarrow>
               if fst (Allow since since ip (sv_rateLimiter s1)) then
                 (case clock_now Q s1 of
                    (t, s2) \<Rightarrow> (True, s2\<lparr>sv_rateLimiter := snd (Allow since t ip (sv_rateLimiter s2))\<rparr>))
               else (False, s1)))"

definition too_many :: reply where
  "too_many = http_Error [] ''rate limit exceeded'' 429"

definition bad_request :: "string \<Rightarrow> reply" where
  "bad_request msg = http_Error [] msg 400"

definition handleHealth :: "('w, 'c) outside \<Rightarrow> request \<Rightarrow> ('w, 'c) server \<Rightarrow> reply \<times> ('w, 'c) server" where
  "handleHealth Q r s =
     (case allow_request Q r s of
        (False, s1) \<Rightarrow> (too_many, s1)
      | (True, s1) \<Rightarrow>
          (case resolveConfig r s1 of
             None \<Rightarrow> (bad_request ''unknown container'', s1)
           | Some cfg \<Rightarrow>
               (case GetStartState (c_Name cfg) (sv_manager s1) of
                  (status, errMsg) \<Rightarrow>
                    if status = ''unknown'' then
                      (case on_mgr (on_io (GetContainerStatus (o_env Q) CtxRequest (c_Name cfg))) s1 of
                         (dockerStatus, s2) \<Rightarrow>
                           (json (HealthJSON (if dockerStatus = Inr ''running'' then ''running'' else status) errMsg), s2))
                    else (json (HealthJSON status errMsg), s1))))"

definition handleLogs :: "('w, 'c) outside \<Rightarrow> request \<Rightarrow> ('w, 'c) server \<Rightarrow> reply \<times> ('w, 'c) server" where
  "handleLogs Q r s =
     (case allow_request Q r s of
        (False, s1) \<Rightarrow> (too_many, s1)
      | (True, s1) \<Rightarrow>
          (case resolveConfig r s1 of
             None \<Rightarrow> (bad_request ''unknown container'', s1)
           | Some cfg \<Rightarrow>
               (case on_mgr (on_io (GetContainerLogs (o_env Q) CtxRequest (c_Name cfg)
                       (LogLines (Gateway (sv_cfg s1))))) s1 of
                  (LogsErr _, s2) \<Rightarrow> (json (LogsJSON []), s2)
                | (LogsOk ls, s2) \<Rightarrow> (json (LogsJSON ls), s2)
                | (LogsPanic, s2) \<Rightarrow> (aborted, s2))))"

section \<open>Goroutines\<close>

definition task_context :: "('w, 'c) outside \<Rightarrow> duration \<Rightarrow> ('w, 'c) server \<Rightarrow> ctx \<times> ('w, 'c) server" where
  "task_context Q d = on_mgr (WithTimeout (o_env Q) (wrap64 (d + 10 * second)))"

definition on_mgr_opt :: "('w mgr \<Rightarrow> ('r \<times> 'w mgr) option) \<Rightarrow> ('w, 'c) server \<Rightarrow> ('r \<times> ('w, 'c) server) option" where
  "on_mgr_opt f s = map_option (\<lambda>(r, m). (r, s\<lparr>sv_manager := m\<rparr>)) (f (sv_manager s))"

definition group_timeout :: "(string \<Rightarrow> ContainerConfig option) \<Rightarrow> GroupConfig \<Rightarrow> duration" where
  "group_timeout ctrs grp =
     (let maxTimeout = foldl (\<lambda>d mn. case ctrs mn of
                                Some mc \<Rightarrow> if d < c_StartTimeout mc then c_StartTimeout mc else d
                              | None \<Rightarrow> d) 0 (g_Containers grp)
      in if maxTimeout = 0 then 60 * second else maxTimeout)"

text \<open>The body of a goroutine; \<open>None\<close> is one that does not return.\<close>

definition run_task :: "('w, 'c) outside \<Rightarrow> task \<Rightarrow> ('w, 'c) server \<Rightarrow> (mgr_error option \<times> ('w, 'c) server) option" where
  "run_task Q t s =
     (case t of
        TaskDeps name timeout allContainers \<Rightarrow>
          (case task_context Q timeout s of
             (ctx, s1) \<Rightarrow> on_mgr_opt (EnsureDepsRunning (o_env Q) ctx name allContainers) s1)
      | TaskStart cfg \<Rightarrow>
          (case task_context Q (c_StartTimeout cfg) s of
             (ctx, s1) \<Rightarrow>
               (let allContainers = Containers (GetConfig s1) in
                if 0 < length (c_DependsOn cfg) then
                  (case on_mgr_opt (EnsureDepsRunning (o_env Q) ctx (c_Name cfg) allContainers) s1 of
                     None \<Rightarrow> None
                   | Some (Some err, s2) \<Rightarrow> Some (Some err, s2)
                   | Some (None, s2) \<Rightarrow> on_mgr_opt (EnsureRunning (o_env Q) ctx cfg) s2)
                else on_mgr_opt (EnsureRunning (o_env Q) ctx cfg) s1))
      | TaskGroup grp \<Rightarrow>
          (let allContainers = Containers (GetConfig s) in
           case task_context Q (group_timeout (sv_containerMap s) grp) s of
             (ctx, s1) \<Rightarrow> on_mgr_opt (EnsureGroupRunning (o_env Q) ctx grp allContainers) s1)
      | TaskWake cfg \<Rightarrow>
          (case task_context Q (c_StartTimeout cfg) s of
             (ctx, s1) \<Rightarrow> on_mgr_opt (EnsureRunning (o_env Q) ctx cfg) s1))"

text \<open>A goroutine is taken from the list when it runs; which one is first is not fixed.\<close>

definition run_pending :: "('w, 'c) outside \<Rightarrow> nat \<Rightarrow> ('w, 'c) server \<Rightarrow> (mgr_error option \<times> ('w, 'c) server) option" where
  "run_pending Q i s =
     run_task Q (sv_tasks s ! i) (s\<lparr>sv_tasks := take i (sv_tasks s) @ drop (Suc i) (sv_tasks s)\<rparr>)"

end
