(* ===== verification/Serving.thy ===== *)
theory Serving
  imports Server
begin

text \<open>
  What the handlers of \<open>Server\<close> guarantee: they never start or stop a container themselves,
  they leave the configuration alone, and what they answer follows from the schedule, the
  container's state and its dependencies.
\<close>

section \<open>The contract of a handler\<close>

text \<open>
  \<open>serves A s s'\<close>: a handler that took the server from \<open>s\<close> to \<open>s'\<close> started and stopped
  nothing, changed the activity and the start state of names in \<open>A\<close> at most, kept the
  configuration with all that is derived from it, and only added goroutines.
\<close>

definition same_config :: "('w, 'c) server \<Rightarrow> ('w, 'c) server \<Rightarrow> bool" where
  "same_config s s' \<longleftrightarrow>
     sv_cfg s' = sv_cfg s \<and> sv_hostIndex s' = sv_hostIndex s \<and> sv_groupIndex s' = sv_groupIndex s \<and>
     sv_containerMap s' = sv_containerMap s \<and> sv_trustedCIDRs s' = sv_trustedCIDRs s \<and>
     sv_scheduler s' = sv_scheduler s \<and> sv_schedLoc s' = sv_schedLoc s"

definition serves :: "string set \<Rightarrow> ('w, 'c) server \<Rightarrow> ('w, 'c) server \<Rightarrow> bool" where
  "serves A s s' \<longleftrightarrow>
     effect A [] [] (sv_manager s) (sv_manager s') \<and> same_config s s' \<and>
     (\<exists>ts. sv_tasks s' = sv_tasks s @ ts)"

named_theorems serves_intros \<open>steps of a handler\<close>

lemma serves_refl [simp, intro]: "serves A s s"
  by (simp add: serves_def same_config_def)

lemma serves_trans: "serves A s s' \<Longrightarrow> serves A s' s'' \<Longrightarrow> serves A s s''"
  by (auto simp: serves_def same_config_def intro: effect_then_silent)

lemma serves_mono: "serves A s s' \<Longrightarrow> A \<subseteq> B \<Longrightarrow> serves B s s'"
  by (auto simp: serves_def intro: effect_mono)

lemma serves_config: "serves A s s' \<Longrightarrow> same_config s s'"
  by (simp add: serves_def)

lemma serves_on_mgr:
  assumes "on_mgr f s = (r, s')" and "\<And>m'. f (sv_manager s) = (r, m') \<Longrightarrow> effect A [] [] (sv_manager s) m'"
  shows "serves A s s'"
  using assms by (auto simp: on_mgr_def serves_def same_config_def split: prod.splits)

lemma serves_mgr_do: "effect A [] [] (sv_manager s) (f (sv_manager s)) \<Longrightarrow> serves A s (mgr_do f s)"
  by (simp add: serves_def same_config_def mgr_do_def)

lemma serves_spawn: "serves A s (spawn t s)"
  by (simp add: serves_def same_config_def spawn_def)

lemma serves_clock: "clock_now Q s = (t, s') \<Longrightarrow> serves A s s'"
  unfolding clock_now_def by (erule serves_on_mgr) (rule effect_time_Now)

lemma serves_status:
  "on_mgr (on_io (GetContainerStatus E c n)) s = (r, s') \<Longrightarrow> serves A s s'"
  by (erule serves_on_mgr) (rule effect_status)

lemma serves_address:
  "on_mgr (on_io (GetContainerAddress E c n net)) s = (r, s') \<Longrightarrow> serves A s s'"
  by (erule serves_on_mgr) (rule effect_address)

lemma serves_call:
  "on_mgr (on_io (call f ev)) s = (r, s') \<Longrightarrow> starts (ev r) = [] \<Longrightarrow> stop_calls (ev r) = [] \<Longrightarrow> serves A s s'"
  by (erule serves_on_mgr) (rule effect_call)

lemma serves_LoadingPage: "serves A s (snd (serveLoadingPage Q r cfg s))"
  by (auto simp: serveLoadingPage_def dest: serves_clock split: prod.splits)

lemma serves_ErrorPage: "serves A s (snd (serveErrorPage Q r cfg err s))"
  by (auto simp: serveErrorPage_def dest: serves_clock split: prod.splits)

lemma serves_proxyWebSocket: "serves A s (snd (proxyWebSocket Q w addr s))"
  by (auto simp: proxyWebSocket_def dest: serves_call split: prod.splits option.splits)

lemma serves_proxyRequest: "serves A s (snd (proxyRequest Q w r cfg s))"
proof -
  obtain a s1 where a: "on_mgr (on_io (GetContainerAddress (o_env Q) CtxRequest (c_Name cfg) (c_Network cfg))) s = (a, s1)"
    by (meson surj_pair)
  note first = serves_address [OF a, of A]
  show ?thesis
  proof (cases a)
    case (Inl err)
    then show ?thesis using serves_trans [OF first serves_ErrorPage] a by (simp add: proxyRequest_def)
  next
    case (Inr ip)
    have "serves A s1 s2" if "on_mgr (on_io (call f (\<lambda>_. []))) s1 = (x, s2)" for f x s2
      using serves_call [OF that] by simp
    then have "serves A s1 (snd (on_mgr (on_io (call f (\<lambda>_. []))) s1))" for f
      by (metis prod.collapse)
    then show ?thesis
      using first serves_trans [OF first serves_proxyWebSocket] a Inr
      by (auto simp: proxyRequest_def Let_def intro: serves_trans split: option.splits)
  qed
qed

lemma effect_RecordActivityChain: "effect UNIV [] [] m (RecordActivityChain E roots cs m)"
  using RecordActivityChain_spec [of cs roots m E] by (blast intro: effect_mono)

lemma serves_RecordActivityChain: "serves UNIV s (mgr_do (RecordActivityChain E roots cs) s)"
  by (rule serves_mgr_do) (rule effect_RecordActivityChain)

lemma serves_InitStartState: "serves UNIV s (mgr_do (InitStartState n) s)"
  by (rule serves_mgr_do) (rule effect_InitStartState, simp)

lemma effect_InitStartStates: "effect UNIV [] [] m (foldl (\<lambda>m mn. InitStartState mn m) m ns)"
proof (induction ns arbitrary: m)
  case (Cons n ns)
  have "effect UNIV [] [] m (InitStartState n m)" by (rule effect_InitStartState) simp
  from effect_then_silent [OF this Cons] show ?case by simp
qed simp

lemma serves_InitStartStates: "serves UNIV s (mgr_do (\<lambda>m. foldl (\<lambda>m mn. InitStartState mn m) m ns) s)"
  by (rule serves_mgr_do) (rule effect_InitStartStates)

lemma serves_dep_down: "dep_down Q deps s = (b, s') \<Longrightarrow> serves A s s'"
proof (induction deps arbitrary: s)
  case (Cons d deps)
  then show ?case by (auto intro: serves_trans serves_status split: prod.splits if_splits)
qed simp

lemma serves_wake:
  assumes "serves UNIV s s1"
  shows "serves UNIV s (snd (serveLoadingPage Q r cfg (spawn t (mgr_do (InitStartState n) s1))))"
  using serves_trans [OF serves_trans [OF serves_trans [OF assms serves_InitStartState] serves_spawn] serves_LoadingPage] .

lemma serves_wake_all:
  assumes "serves UNIV s s1"
  shows "serves UNIV s (snd (serveLoadingPage Q r cfg
    (spawn t (mgr_do (\<lambda>m. foldl (\<lambda>m mn. InitStartState mn m) m ns) s1))))"
  using serves_trans [OF serves_trans [OF serves_trans [OF assms serves_InitStartStates] serves_spawn] serves_LoadingPage] .

lemma serves_proxy:
  assumes "serves UNIV s s1"
  shows "serves UNIV s (snd (proxyRequest Q w r cfg (mgr_do (RecordActivityChain E roots cs) s1)))"
  using serves_trans [OF serves_trans [OF assms serves_RecordActivityChain] serves_proxyRequest] .

lemma serves_serve_running: "serves UNIV s (snd (serve_running Q r cfg s))"
proof -
  obtain b s1 where d: "(if 0 < length (c_DependsOn cfg) then dep_down Q (c_DependsOn cfg) s else (False, s)) = (b, s1)"
    by (meson surj_pair)
  then have 1: "serves UNIV s s1" by (auto intro: serves_dep_down split: if_splits)
  show ?thesis
  proof (cases b)
    case True
    then show ?thesis
      using d serves_wake [OF 1] by (simp add: serve_running_def Let_def)
  next
    case False
    then show ?thesis
      using d serves_proxy [OF 1] by (simp add: serve_running_def Let_def)
  qed
qed

lemma serves_serve_container: "serves UNIV s (snd (serve_container Q r cfg s))"
proof -
  obtain st s1 where d: "on_mgr (on_io (GetContainerStatus (o_env Q) CtxRequest (c_Name cfg))) s = (st, s1)"
    by (meson surj_pair)
  note 1 = serves_status [OF d, of UNIV]
  show ?thesis
  proof (cases st)
    case (Inl err)
    then show ?thesis using d 1 by (auto simp: serve_container_def intro: serves_trans serves_ErrorPage)
  next
    case (Inr status)
    then show ?thesis
      using d serves_wake [OF 1] serves_trans [OF 1 serves_serve_running] by (simp add: serve_container_def)
  qed
qed

lemma serves_with_metric: "serves UNIV s (snd rs) \<Longrightarrow> serves UNIV s (snd (with_metric Q name start rs))"
proof -
  assume 1: "serves UNIV s (snd rs)"
  obtain t s1 where c: "clock_now Q (snd rs) = (t, s1)" by (meson surj_pair)
  have "effect UNIV [] [] (sv_manager s1) (snd (on_io (\<lambda>io. ((), RecordRequest n k d io)) (sv_manager s1)))" for n k d
    by (auto simp: effect_def on_io_def RecordRequest_def)
  then have "serves UNIV s1 (snd (with_metric Q name start rs))"
    by (simp add: with_metric_def c) (rule serves_mgr_do)
  with 1 serves_clock [OF c] show ?thesis by (blast intro: serves_trans)
qed

lemma serves_router: "serves A s (s\<lparr>sv_groupRouter := gr\<rparr>)"
  by (simp add: serves_def same_config_def)

lemma serves_limiter: "serves A s (s\<lparr>sv_rateLimiter := rl\<rparr>)"
  by (simp add: serves_def same_config_def)

lemma serves_handleGroupRequest: "serves UNIV s (snd (handleGroupRequest Q r grp s))"
proof -
  obtain n gr where p: "Pick grp (sv_groupRouter s) = (n, gr)" by (meson surj_pair)
  let ?s0 = "s\<lparr>sv_groupRouter := gr\<rparr>"
  have 0: "serves UNIV s ?s0" by (rule serves_router)
  show ?thesis
  proof (cases "sv_containerMap ?s0 n")
    case None
    then show ?thesis using 0 p by (simp add: handleGroupRequest_def Let_def)
  next
    case (Some cfg)
    obtain t s1 where t: "clock_now Q ?s0 = (t, s1)" by (meson surj_pair)
    obtain st s2 where st: "on_mgr (on_io (GetContainerStatus (o_env Q) CtxRequest (c_Name cfg))) s1 = (st, s2)"
      by (meson surj_pair)
    have 2: "serves UNIV s s2"
      using serves_trans [OF serves_trans [OF 0 serves_clock [OF t]] serves_status [OF st]] .
    show ?thesis
      using p Some t st serves_with_metric [OF serves_wake_all [OF 2]] serves_with_metric [OF serves_proxy [OF 2]]
      by (simp add: handleGroupRequest_def Let_def)
  qed
qed

lemma serves_allow_request: "allow_request Q r s = (b, s') \<Longrightarrow> serves A s s'"
proof (cases "l_lastSeen (sv_rateLimiter s) (clientIP (sv_trustedCIDRs s) r)")
  case None
  assume "allow_request Q r s = (b, s')"
  then show ?thesis using None
    by (auto simp: allow_request_def Let_def intro: serves_trans serves_clock serves_limiter split: prod.splits)
next
  case (Some u)
  assume a: "allow_request Q r s = (b, s')"
  obtain since s1 where 1: "clock_now Q s = (since, s1)" by (meson surj_pair)
  obtain t s2 where 2: "clock_now Q s1 = (t, s2)" by (meson surj_pair)
  have "serves A s s1" by (rule serves_clock [OF 1])
  moreover have "serves A s1 s2" by (rule serves_clock [OF 2])
  ultimately show ?thesis using a Some 1 2
    by (auto simp: allow_request_def Let_def intro: serves_trans serves_limiter split: if_splits)
qed

lemma handleRequest_cases:
  assumes "handleRequest Q r s = Some (resp, s')"
  obtains (internal) "internal_path (r_Path r)" and "resp = NotFound" and "s' = s"
    | (grp) grp where "\<not> internal_path (r_Path r)" and "resolveGroup r s = Some grp"
        and "(resp, s') = handleGroupRequest Q r grp s"
    | (unknown) "\<not> internal_path (r_Path r)" and "resolveGroup r s = None" and "resolveConfig r s = None"
        and "resp = NotFound" and "s' = s"
    | (blocked) cfg t s1 nextStart where "\<not> internal_path (r_Path r)" and "resolveGroup r s = None"
        and "resolveConfig r s = Some cfg" and "clock_now Q s = (t, s1)"
        and "IsInScheduleWindow (parse_cron (o_libs Q)) cfg t (effective_loc (o_libs Q) (sv_schedLoc s) cfg) =
          Some (False, nextStart)"
        and "(resp, s') = serveScheduledPage Q cfg nextStart (effective_loc (o_libs Q) (sv_schedLoc s) cfg) s1"
    | (admitted) cfg t s1 nextStart start s2 where "\<not> internal_path (r_Path r)" and "resolveGroup r s = None"
        and "resolveConfig r s = Some cfg" and "clock_now Q s = (t, s1)"
        and "IsInScheduleWindow (parse_cron (o_libs Q)) cfg t (effective_loc (o_libs Q) (sv_schedLoc s) cfg) =
          Some (True, nextStart)"
        and "clock_now Q s1 = (start, s2)"
        and "(resp, s') = with_metric Q (c_Name cfg) start (serve_container Q r cfg s2)"
proof (cases "internal_path (r_Path r)")
  case True
  with assms show thesis by (intro internal) (simp_all add: handleRequest_def)
next
  case np: False
  show thesis
  proof (cases "resolveGroup r s")
    case (Some g)
    with assms np show thesis by (intro grp [of g]) (simp_all add: handleRequest_def)
  next
    case ng: None
    show thesis
    proof (cases "resolveConfig r s")
      case None
      with assms np ng show thesis by (intro unknown) (simp_all add: handleRequest_def)
    next
      case (Some cfg)
      let ?loc = "effective_loc (o_libs Q) (sv_schedLoc s) cfg"
      obtain t s1 where t: "clock_now Q s = (t, s1)" by (meson surj_pair)
      obtain start s2 where st: "clock_now Q s1 = (start, s2)" by (meson surj_pair)
      obtain a n where w: "IsInScheduleWindow (parse_cron (o_libs Q)) cfg t ?loc = Some (a, n)"
        using assms np ng Some t by (auto simp: handleRequest_def Let_def split: option.splits)
      show thesis
      proof (cases a)
        case True
        with assms np ng Some t w st show thesis
          by (intro admitted [of cfg t s1 n start s2]) (simp_all add: handleRequest_def Let_def)
      next
        case False
        with assms np ng Some t w show thesis
          by (intro blocked [of cfg t s1 n]) (simp_all add: handleRequest_def Let_def)
      qed
    qed
  qed
qed

lemma serves_handleRequest:
  assumes "handleRequest Q r s = Some (resp, s')"
  shows "serves UNIV s s'"
  using assms
proof (cases rule: handleRequest_cases)
  case (grp g)
  then show ?thesis using serves_handleGroupRequest by (metis snd_conv)
next
  case (blocked cfg t s1 nextStart)
  then show ?thesis using serves_clock by (auto simp: serveScheduledPage_def)
next
  case (admitted cfg t s1 nextStart start s2)
  have "serves UNIV s2 (snd (serve_container Q r cfg s2))" by (rule serves_serve_container)
  then have "serves UNIV s (snd (serve_container Q r cfg s2))"
    using serves_clock [OF admitted(4)] serves_clock [OF admitted(6)] by (blast intro: serves_trans)
  from serves_with_metric [OF this] admitted(7) show ?thesis by (metis snd_conv)
qed auto

section \<open>Main handler\<close>

text \<open>
  \<^verbatim>\<open>handleRequest\<close>: a request never waits for a container: the handler itself
  starts and stops nothing, whatever the state, and leaves the configuration and everything
  derived from it alone; the goroutines already running stay, and new ones come after them.
\<close>

theorem handleRequest_starts_nothing:
  assumes "handleRequest Q r s = Some (resp, s')"
  shows "effect UNIV [] [] (sv_manager s) (sv_manager s') \<and> same_config s s' \<and>
    (\<exists>ts. sv_tasks s' = sv_tasks s @ ts)"
  using serves_handleRequest [OF assms] by (simp add: serves_def)

lemma clock_now_fields:
  assumes "clock_now Q s = (t, s')"
  shows "trace (mg_io (sv_manager s')) = trace (mg_io (sv_manager s))" "sv_tasks s' = sv_tasks s"
    "startStates (sv_manager s') = startStates (sv_manager s)" "lastSeen (sv_manager s') = lastSeen (sv_manager s)"
    "sv_cfg s' = sv_cfg s" "sv_schedLoc s' = sv_schedLoc s"
  using assms by (auto simp: clock_now_def on_mgr_def time_Now_def on_io_def call_def split: prod.splits)

lemma serve_blocked:
  assumes "handleRequest Q r s = Some (resp, s')" and "\<not> internal_path (r_Path r)"
    and "resolveGroup r s = None" and "resolveConfig r s = Some cfg"
    and "IsInScheduleWindow (parse_cron (o_libs Q)) cfg (fst (clock_now Q s))
      (effective_loc (o_libs Q) (sv_schedLoc s) cfg) = Some (False, nextStart)"
  shows "p_Status resp = 503 \<and> (\<exists>d. p_Body resp = Payload (ScheduledPage d)) \<and>
    trace (mg_io (sv_manager s')) = trace (mg_io (sv_manager s)) \<and> sv_tasks s' = sv_tasks s \<and>
    startStates (sv_manager s') = startStates (sv_manager s) \<and> lastSeen (sv_manager s') = lastSeen (sv_manager s)"
  using assms(1)
proof (cases rule: handleRequest_cases)
  case (blocked c t s1 n)
  then show ?thesis
    using clock_now_fields [OF blocked(4)] by (simp add: serveScheduledPage_def html_def)
next
  case (admitted c t s1 n start s2)
  then show ?thesis using assms(3-5) by simp
qed (use assms(2-4) in auto)

text \<open>
  C24 (safety, \<^verbatim>\<open>handleRequest\<close>): a container that is asked for itself, by its host or in
  the query and not through a group, is not reachable and not woken outside its schedule
  window: the answer is the 503 page, Docker is not asked anything, no goroutine starts and
  neither activity nor start states change. Requests to a group are not gated.
\<close>

theorem schedule_gate:
  assumes "handleRequest Q r s = Some (resp, s')" and "\<not> internal_path (r_Path r)"
    and "resolveGroup r s = None" and "resolveConfig r s = Some cfg"
    and "IsInScheduleWindow (parse_cron (o_libs Q)) cfg (fst (clock_now Q s))
      (effective_loc (o_libs Q) (sv_schedLoc s) cfg) = Some (False, nextStart)"
  shows "p_Status resp = 503 \<and> (\<exists>d. p_Body resp = Payload (ScheduledPage d)) \<and>
    trace (mg_io (sv_manager s')) = trace (mg_io (sv_manager s)) \<and> sv_tasks s' = sv_tasks s \<and>
    startStates (sv_manager s') = startStates (sv_manager s) \<and> lastSeen (sv_manager s') = lastSeen (sv_manager s)"
  using assms by (rule serve_blocked)

section \<open>Waking\<close>

lemma LoadingPage_reply:
  "\<exists>d. fst (serveLoadingPage Q r cfg s) = html 200 (LoadingPage d)"
  by (auto simp: serveLoadingPage_def split: prod.split)

lemma LoadingPage_fields [simp]:
  "sv_tasks (snd (serveLoadingPage Q r cfg s)) = sv_tasks s"
  "startStates (sv_manager (snd (serveLoadingPage Q r cfg s))) = startStates (sv_manager s)"
  using clock_now_fields by (auto simp: serveLoadingPage_def split: prod.splits)

lemma with_metric_fields [simp]:
  "fst (with_metric Q n start rs) = fst rs"
  "sv_tasks (snd (with_metric Q n start rs)) = sv_tasks (snd rs)"
  "startStates (sv_manager (snd (with_metric Q n start rs))) = startStates (sv_manager (snd rs))"
  using clock_now_fields by (auto simp: with_metric_def mgr_do_def split: prod.splits)

lemma on_mgr_io_fields:
  assumes "on_mgr (on_io f) s = (r, s')"
  shows "sv_tasks s' = sv_tasks s" "startStates (sv_manager s') = startStates (sv_manager s)"
    "lastSeen (sv_manager s') = lastSeen (sv_manager s)" "sv_cfg s' = sv_cfg s"
  using assms by (auto simp: on_mgr_def on_io_def split: prod.splits)

lemma wake_fields [simp]:
  "sv_tasks (spawn t (mgr_do (InitStartState n) s)) = sv_tasks s @ [t]"
  "startStates (sv_manager (spawn t (mgr_do (InitStartState n) s))) =
     (startStates (sv_manager s))(n \<mapsto> \<lparr>ss_Status = ''starting'', ss_Err = ''''\<rparr>)"
  by (simp_all add: spawn_def mgr_do_def InitStartState_def status_defs)

lemma serve_container_sleeping:
  assumes "on_mgr (on_io (GetContainerStatus (o_env Q) CtxRequest (c_Name cfg))) s = (Inr status, s1)"
    and "status \<noteq> ''running''" and "serve_container Q r cfg s = (resp, s')"
  shows "(\<exists>d. resp = html 200 (LoadingPage d)) \<and> sv_tasks s' = sv_tasks s @ [TaskStart cfg] \<and>
    startStates (sv_manager s') = (startStates (sv_manager s))(c_Name cfg \<mapsto> \<lparr>ss_Status = ''starting'', ss_Err = ''''\<rparr>)"
proof -
  let ?w = "spawn (TaskStart cfg) (mgr_do (InitStartState (c_Name cfg)) s1)"
  have "(resp, s') = serveLoadingPage Q r cfg ?w" using assms by (simp add: serve_container_def)
  then show ?thesis
    using LoadingPage_reply [of Q r cfg ?w] LoadingPage_fields [of Q r cfg ?w] wake_fields [of "TaskStart cfg" "c_Name cfg" s1]
      on_mgr_io_fields [OF assms(1)] by (metis fst_conv snd_conv)
qed

text \<open>
  C23 (functional, \<^verbatim>\<open>handleRequest\<close>): an admitted request for a container that Docker reports
  in any other status than running is answered at once with the loading page; exactly one
  goroutine is started, the one that wakes this container, and its recorded state is
  "starting" from then on, with no error text.
\<close>

theorem sleeping_container_woken:
  assumes "handleRequest Q r s = Some (resp, s')" and "\<not> internal_path (r_Path r)"
    and "resolveGroup r s = None" and "resolveConfig r s = Some cfg"
    and "clock_now Q s = (t, s1)" and "clock_now Q s1 = (start, s2)"
    and "on_mgr (on_io (GetContainerStatus (o_env Q) CtxRequest (c_Name cfg))) s2 = (Inr status, s3)"
    and "status \<noteq> ''running''"
    and "IsInScheduleWindow (parse_cron (o_libs Q)) cfg t (effective_loc (o_libs Q) (sv_schedLoc s) cfg) = Some (True, n)"
  shows "(\<exists>d. resp = html 200 (LoadingPage d)) \<and> sv_tasks s' = sv_tasks s @ [TaskStart cfg] \<and>
    GetStartState (c_Name cfg) (sv_manager s') = (''starting'', '''') \<and>
    (\<forall>m. m \<noteq> c_Name cfg \<longrightarrow> startStates (sv_manager s') m = startStates (sv_manager s) m)"
  using assms(1)
proof (cases rule: handleRequest_cases)
  case (admitted c t' s1' n' start' s2')
  have eq: "c = cfg" "s1' = s1" "start' = start" "s2' = s2" using admitted assms(4-6) by auto
  obtain resp0 s0 where sc: "serve_container Q r cfg s2 = (resp0, s0)" by (meson surj_pair)
  have w: "(resp, s') = with_metric Q (c_Name cfg) start (resp0, s0)" using admitted(7) sc eq by simp
  have r: "resp = resp0" using w with_metric_fields(1) by (metis fst_conv)
  have t: "sv_tasks s' = sv_tasks s0" "startStates (sv_manager s') = startStates (sv_manager s0)"
    using w with_metric_fields(2,3) by (metis snd_conv)+
  show ?thesis
    using serve_container_sleeping [OF assms(7,8) sc] clock_now_fields [OF assms(5)] clock_now_fields [OF assms(6)]
    by (simp add: r t GetStartState_def)
next
  case (blocked c t' s1' n')
  then show ?thesis using assms(4,5,9) by auto
qed (use assms(2-4) in auto)

lemma dep_down_fields:
  "dep_down Q deps s = (b, s') \<Longrightarrow> startStates (sv_manager s') = startStates (sv_manager s) \<and> sv_tasks s' = sv_tasks s"
proof (induction deps arbitrary: s)
  case (Cons d deps)
  obtain st s1 where st: "on_mgr (on_io (GetContainerStatus (o_env Q) CtxRequest d)) s = (st, s1)" by (meson surj_pair)
  then show ?case
    using Cons on_mgr_io_fields [OF st] by (auto split: if_splits)
qed simp

text \<open>The goroutines a handler may add, with what it recorded for them.\<close>

definition wakes :: "('w, 'c) server \<Rightarrow> ('w, 'c) server \<Rightarrow> bool" where
  "wakes s s' \<longleftrightarrow>
     sv_tasks s' = sv_tasks s \<or>
     (\<exists>t. sv_tasks s' = sv_tasks s @ [t] \<and>
        (\<forall>n d cs. t = TaskDeps n d cs \<longrightarrow>
           startStates (sv_manager s') n = Some \<lparr>ss_Status = ''starting'', ss_Err = ''''\<rparr>))"

lemma on_mgr_tasks [simp]: "sv_tasks (snd (on_mgr f s)) = sv_tasks s"
  by (simp add: on_mgr_def split: prod.split)

lemma proxyRequest_tasks: "sv_tasks (snd (proxyRequest Q w r cfg s)) = sv_tasks s"
  by (simp add: proxyRequest_def serveErrorPage_def proxyWebSocket_def clock_now_def Let_def split_beta
      split: sum.split option.split)

lemma proxyRequest_tasks': "sv_tasks (snd (proxyRequest Q w r cfg (mgr_do f s))) = sv_tasks s"
  by (simp add: proxyRequest_tasks mgr_do_def)

lemma serve_running_wakes: "wakes s (snd (serve_running Q r cfg s))"
proof -
  obtain b s1 where d: "(if 0 < length (c_DependsOn cfg) then dep_down Q (c_DependsOn cfg) s else (False, s)) = (b, s1)"
    by (meson surj_pair)
  then have 1: "sv_tasks s1 = sv_tasks s" by (auto dest: dep_down_fields split: if_splits)
  show ?thesis
  proof (cases b)
    case True
    then show ?thesis
      using d 1 by (simp add: serve_running_def Let_def wakes_def)
  next
    case False
    then show ?thesis using d 1 by (simp add: serve_running_def Let_def wakes_def proxyRequest_tasks')
  qed
qed

lemma serve_container_wakes: "wakes s (snd (serve_container Q r cfg s))"
proof -
  obtain st s1 where st: "on_mgr (on_io (GetContainerStatus (o_env Q) CtxRequest (c_Name cfg))) s = (st, s1)"
    by (meson surj_pair)
  note f = on_mgr_io_fields [OF st]
  show ?thesis
  proof (cases st)
    case (Inl err)
    have "sv_tasks (snd (serveErrorPage Q r cfg e s1)) = sv_tasks s1" for e
      by (auto simp: serveErrorPage_def dest: clock_now_fields(2) split: prod.splits)
    then show ?thesis using Inl st f by (simp add: serve_container_def wakes_def)
  next
    case (Inr status)
    show ?thesis
    proof (cases "status = ''running''")
      case True
      then show ?thesis
        using serve_running_wakes [of s1 Q r cfg] st Inr f by (simp add: serve_container_def wakes_def)
    next
      case False
      then show ?thesis
        using st Inr f by (simp add: serve_container_def wakes_def)
    qed
  qed
qed

lemma handleGroupRequest_wakes: "wakes s (snd (handleGroupRequest Q r grp s))"
proof -
  obtain n gr where p: "Pick grp (sv_groupRouter s) = (n, gr)" by (meson surj_pair)
  let ?s0 = "s\<lparr>sv_groupRouter := gr\<rparr>"
  show ?thesis
  proof (cases "sv_containerMap ?s0 n")
    case None
    then show ?thesis using p by (simp add: handleGroupRequest_def Let_def wakes_def)
  next
    case (Some cfg)
    obtain t s1 where t: "clock_now Q ?s0 = (t, s1)" by (meson surj_pair)
    obtain st s2 where st: "on_mgr (on_io (GetContainerStatus (o_env Q) CtxRequest (c_Name cfg))) s1 = (st, s2)"
      by (meson surj_pair)
    have f: "sv_tasks s2 = sv_tasks s" using clock_now_fields(2) [OF t] on_mgr_io_fields(1) [OF st] by simp
    show ?thesis
      using p Some t st f
      by (simp add: handleGroupRequest_def Let_def wakes_def proxyRequest_tasks proxyRequest_tasks' spawn_def mgr_do_def)
  qed
qed

lemma handleRequest_wakes:
  assumes "handleRequest Q r s = Some (resp, s')"
  shows "wakes s s'"
  using assms
proof (cases rule: handleRequest_cases)
  case (grp g)
  then show ?thesis using handleGroupRequest_wakes by (metis snd_conv)
next
  case (blocked c t s1 n)
  then show ?thesis using clock_now_fields(2) [OF blocked(4)] by (simp add: serveScheduledPage_def wakes_def)
next
  case (admitted c t s1 n start s2)
  have "wakes s2 (snd (serve_container Q r c s2))" by (rule serve_container_wakes)
  moreover have "sv_tasks s2 = sv_tasks s" using clock_now_fields(2) [OF admitted(4)] clock_now_fields(2) [OF admitted(6)] by simp
  moreover have "s' = snd (with_metric Q (c_Name c) start (serve_container Q r c s2))" using admitted(7) by (metis snd_conv)
  ultimately show ?thesis by (simp add: wakes_def)
qed (simp_all add: wakes_def)

lemma resolveConfig_same: "same_config s s' \<Longrightarrow> resolveConfig r s' = resolveConfig r s"
  by (simp add: resolveConfig_def same_config_def Let_def split: option.split)

lemma serves_startStates: "serves {} s s' \<Longrightarrow> startStates (sv_manager s') = startStates (sv_manager s)"
  by (auto simp: serves_def effect_def fun_eq_iff)

text \<open>While a state other than "unknown" is recorded, Docker is not asked for the answer.\<close>

lemma handleHealth_recorded:
  assumes "startStates (sv_manager s) (c_Name cfg) = Some st" and "ss_Status st \<noteq> ''unknown''"
    and "resolveConfig r s = Some cfg" and "fst (allow_request Q r s)"
  shows "fst (handleHealth Q r s) = json (HealthJSON (ss_Status st) (ss_Err st))"
proof -
  obtain s1 where a: "allow_request Q r s = (True, s1)" using assms(4) by (cases "allow_request Q r s") auto
  have v: "serves {} s s1" by (rule serves_allow_request [OF a])
  have "resolveConfig r s1 = Some cfg"
    using resolveConfig_same [OF serves_config [OF v]] assms(3) by simp
  moreover have "GetStartState (c_Name cfg) (sv_manager s1) = (ss_Status st, ss_Err st)"
    using serves_startStates [OF v] assms(1) by (simp add: GetStartState_def)
  ultimately show ?thesis using a assms(2) by (simp add: handleHealth_def)
qed

lemma run_TaskDeps_frame:
  assumes "run_task Q (TaskDeps n d cs) s = Some (res, s')"
  shows "startStates (sv_manager s') n = startStates (sv_manager s) n"
proof -
  obtain c s1 where c: "task_context Q d s = (c, s1)" by (meson surj_pair)
  have 1: "startStates (sv_manager s1) = startStates (sv_manager s)"
    using c by (auto simp: task_context_def on_mgr_def WithTimeout_def dest: time_Now_fields split: prod.splits)
  from assms c obtain m' where "EnsureDepsRunning (o_env Q) c n cs (sv_manager s1) = Some (res, m')"
    and s': "s' = s1\<lparr>sv_manager := m'\<rparr>"
    by (auto simp: run_task_def on_mgr_opt_def)
  from EnsureDepsRunning_spec [OF this(1)] obtain ns where
    "effect ((dep_rel cs)\<^sup>+ `` {n} - {n}) ns [] (sv_manager s1) m'" by blast
  then show ?thesis using 1 by (simp add: effect_def s')
qed

text \<open>
  C20 (safety, \<^verbatim>\<open>handleRequest\<close>): a request that finds its container running with a stopped
  dependency records the container as "starting" and wakes the dependencies only. When that
  goroutine has ended, with success or not, the state is still "starting", and the health
  endpoint the loading page polls says so although the container runs.
\<close>

theorem running_target_stays_starting:
  assumes "handleRequest Q r s = Some (resp, s1)" and "sv_tasks s1 = sv_tasks s @ [TaskDeps n d cs]"
    and "run_pending Q (length (sv_tasks s)) s1 = Some (res, s2)"
    and "resolveConfig r2 s2 = Some cfg" and "c_Name cfg = n" and "fst (allow_request Q r2 s2)"
  shows "fst (handleHealth Q r2 s2) = json (HealthJSON ''starting'' '''')"
proof -
  have "startStates (sv_manager s1) n = Some \<lparr>ss_Status = ''starting'', ss_Err = ''''\<rparr>"
    using handleRequest_wakes [OF assms(1)] assms(2) by (auto simp: wakes_def)
  moreover have "run_task Q (TaskDeps n d cs) (s1\<lparr>sv_tasks := sv_tasks s\<rparr>) = Some (res, s2)"
    using assms(2,3) by (simp add: run_pending_def)
  ultimately have "startStates (sv_manager s2) (c_Name cfg) = Some \<lparr>ss_Status = ''starting'', ss_Err = ''''\<rparr>"
    using run_TaskDeps_frame assms(5) by fastforce
  then show ?thesis
    using handleHealth_recorded [OF _ _ assms(4,6)] by simp
qed

section \<open>Proxying\<close>

lemma proxyRequest_websocket:
  assumes "isWebSocketRequest r"
  shows "fst (proxyRequest Q MetricsWriter r cfg s) = http_Error [] ''WebSocket proxying not supported by this server'' 500 \<or>
    (\<exists>d. fst (proxyRequest Q MetricsWriter r cfg s) = html 502 (ErrorPage d))"
  using assms by (auto simp: proxyRequest_def proxyWebSocket_def serveErrorPage_def Let_def split: prod.splits sum.splits)

lemma websocket_replies:
  assumes "isWebSocketRequest r" and "handleRequest Q r s = Some (resp, s')"
  shows "p_Status resp \<noteq> 101 \<and> (\<forall>a. p_Body resp \<noteq> Payload (Tunnel a))"
proof -
  have px: "p_Status (fst (proxyRequest Q MetricsWriter r cfg s)) \<noteq> 101 \<and>
      (\<forall>a. p_Body (fst (proxyRequest Q MetricsWriter r cfg s)) \<noteq> Payload (Tunnel a))" for cfg s
    using proxyRequest_websocket [OF assms(1), of Q cfg s] by (auto simp: html_def http_Error_def)
  have ld: "p_Status (fst (serveLoadingPage Q r cfg s)) \<noteq> 101 \<and>
      (\<forall>a. p_Body (fst (serveLoadingPage Q r cfg s)) \<noteq> Payload (Tunnel a))" for cfg s
    by (auto simp: serveLoadingPage_def html_def split: prod.splits)
  have er: "p_Status (fst (serveErrorPage Q r cfg e s)) \<noteq> 101 \<and>
      (\<forall>a. p_Body (fst (serveErrorPage Q r cfg e s)) \<noteq> Payload (Tunnel a))" for cfg e s
    by (auto simp: serveErrorPage_def html_def split: prod.splits)
  have sc: "p_Status (fst (serve_container Q r cfg s)) \<noteq> 101 \<and>
      (\<forall>a. p_Body (fst (serve_container Q r cfg s)) \<noteq> Payload (Tunnel a))" for cfg s
    using px ld er
    by (simp add: serve_container_def serve_running_def Let_def split_beta split: sum.split bool.split)
  have gr: "p_Status (fst (handleGroupRequest Q r g s)) \<noteq> 101 \<and>
      (\<forall>a. p_Body (fst (handleGroupRequest Q r g s)) \<noteq> Payload (Tunnel a))" for g s
    using px ld by (simp add: handleGroupRequest_def error_reply_def http_Error_def Let_def split_beta split: option.split)
  show ?thesis
    using assms(2)
  proof (cases rule: handleRequest_cases)
    case (grp g)
    then show ?thesis using gr [of g s] by (metis fst_conv)
  next
    case (blocked c t s1 n)
    then show ?thesis by (simp add: serveScheduledPage_def html_def)
  next
    case (admitted c t s1 n start s2)
    then have "resp = fst (serve_container Q r c s2)" by (metis fst_conv with_metric_fields(1))
    then show ?thesis using sc by simp
  qed (simp_all add: NotFound_def http_Error_def)
qed

text \<open>
  \<open>found_running Q r s c\<close>: the request is for \<open>c\<close>, which the handler finds running and
  serves: the member the group's round robin picks, or the container that is asked for,
  inside its window and with all its dependencies running.
\<close>

definition found_running :: "('w, 'c) outside \<Rightarrow> request \<Rightarrow> ('w, 'c) server \<Rightarrow> ContainerConfig \<Rightarrow> bool" where
  "found_running Q r s c \<longleftrightarrow>
     (let status = (\<lambda>k. on_mgr (on_io (GetContainerStatus (o_env Q) CtxRequest (c_Name c))) k) in
      case resolveGroup r s of
        Some grp \<Rightarrow>
          sv_containerMap s (fst (Pick grp (sv_groupRouter s))) = Some c \<and>
          fst (status (snd (clock_now Q (s\<lparr>sv_groupRouter := snd (Pick grp (sv_groupRouter s))\<rparr>)))) = Inr ''running''
      | None \<Rightarrow>
          resolveConfig r s = Some c \<and>
          (\<exists>nextStart. IsInScheduleWindow (parse_cron (o_libs Q)) c (fst (clock_now Q s))
             (effective_loc (o_libs Q) (sv_schedLoc s) c) = Some (True, nextStart)) \<and>
          (case status (snd (clock_now Q (snd (clock_now Q s)))) of
             (st, k) \<Rightarrow> st = Inr ''running'' \<and> \<not> fst (dep_down Q (c_DependsOn c) k)))"

lemma serve_running_proxied:
  assumes "\<not> fst (dep_down Q (c_DependsOn cfg) s)"
  shows "\<exists>k. fst (serve_running Q r cfg s) = fst (proxyRequest Q MetricsWriter r cfg k)"
proof -
  obtain k where "dep_down Q (c_DependsOn cfg) s = (False, k)"
    using assms by (cases "dep_down Q (c_DependsOn cfg) s") auto
  then have "(if 0 < length (c_DependsOn cfg) then dep_down Q (c_DependsOn cfg) s else (False, s)) = (False, k)"
    by (cases "c_DependsOn cfg") auto
  then show ?thesis by (auto simp: serve_running_def Let_def)
qed

lemma found_running_proxied:
  assumes "handleRequest Q r s = Some (resp, s')" and "\<not> internal_path (r_Path r)" and "found_running Q r s c"
  shows "\<exists>k. resp = fst (proxyRequest Q MetricsWriter r c k)"
  using assms(1)
proof (cases rule: handleRequest_cases)
  case (grp g)
  have "resp = fst (handleGroupRequest Q r g s)" using grp(3) by (metis fst_conv)
  then show ?thesis
    using assms(3) grp(2) by (auto simp: found_running_def handleGroupRequest_def Let_def split: prod.splits)
next
  case (admitted cfg t s1 n start s2)
  then have r: "resp = fst (serve_container Q r cfg s2)" by (metis fst_conv with_metric_fields(1))
  obtain k where "cfg = c" and k: "on_mgr (on_io (GetContainerStatus (o_env Q) CtxRequest (c_Name c))) s2 = (Inr ''running'', k)"
    and d: "\<not> fst (dep_down Q (c_DependsOn c) k)"
    using assms(3) admitted(2-6) by (auto simp: found_running_def Let_def split: prod.splits)
  then have "resp = fst (serve_running Q r c k)" using r by (simp add: serve_container_def)
  then show ?thesis using serve_running_proxied [OF d] by metis
next
  case (blocked cfg t s1 n)
  then show ?thesis using assms(3) by (auto simp: found_running_def Let_def)
qed (use assms(2,3) in \<open>auto simp: found_running_def Let_def\<close>)

text \<open>A reply with an error status and no goroutine, or the loading page and one goroutine.\<close>

definition refused_or_waking :: "('w, 'c) server \<Rightarrow> reply \<Rightarrow> ('w, 'c) server \<Rightarrow> bool" where
  "refused_or_waking s resp s' \<longleftrightarrow>
     p_Status resp \<in> {404, 500, 502, 503} \<and> sv_tasks s' = sv_tasks s \<or>
     (\<exists>d t. resp = html 200 (LoadingPage d) \<and> sv_tasks s' = sv_tasks s @ [t])"

lemma refused_or_waking_page:
  "sv_tasks k = sv_tasks s @ [t] \<Longrightarrow>
   refused_or_waking s (fst (serveLoadingPage Q r cfg k)) (snd (serveLoadingPage Q r cfg k))"
  using LoadingPage_reply [of Q r cfg k] by (auto simp: refused_or_waking_def)

lemma refused_or_waking_proxy:
  assumes "isWebSocketRequest r" and "sv_tasks k = sv_tasks s"
  shows "refused_or_waking s (fst (proxyRequest Q MetricsWriter r cfg k)) (snd (proxyRequest Q MetricsWriter r cfg k))"
  using proxyRequest_websocket [OF assms(1), of Q cfg k] assms(2)
  by (auto simp: refused_or_waking_def proxyRequest_tasks html_def http_Error_def)

lemma refused_or_waking_error:
  "sv_tasks k = sv_tasks s \<Longrightarrow>
   refused_or_waking s (fst (serveErrorPage Q r cfg e k)) (snd (serveErrorPage Q r cfg e k))"
  by (auto simp: refused_or_waking_def serveErrorPage_def html_def dest: clock_now_fields(2) split: prod.splits)

lemma serve_running_upgrade:
  assumes "isWebSocketRequest r"
  shows "refused_or_waking s (fst (serve_running Q r cfg s)) (snd (serve_running Q r cfg s))"
proof -
  obtain b s1 where d: "(if 0 < length (c_DependsOn cfg) then dep_down Q (c_DependsOn cfg) s else (False, s)) = (b, s1)"
    by (meson surj_pair)
  then have t: "sv_tasks s1 = sv_tasks s" by (auto dest: dep_down_fields split: if_splits)
  show ?thesis
  proof (cases b)
    case True
    then show ?thesis using d t by (simp add: serve_running_def Let_def refused_or_waking_page)
  next
    case False
    then show ?thesis
      using d t assms by (simp add: serve_running_def Let_def refused_or_waking_proxy mgr_do_def)
  qed
qed

lemma serve_container_upgrade:
  assumes "isWebSocketRequest r"
  shows "refused_or_waking s (fst (serve_container Q r cfg s)) (snd (serve_container Q r cfg s))"
proof -
  obtain st s1 where st: "on_mgr (on_io (GetContainerStatus (o_env Q) CtxRequest (c_Name cfg))) s = (st, s1)"
    by (meson surj_pair)
  have t: "sv_tasks s1 = sv_tasks s" by (rule on_mgr_io_fields(1) [OF st])
  then have same: "refused_or_waking s = refused_or_waking s1" by (simp add: refused_or_waking_def fun_eq_iff)
  show ?thesis
  proof (cases st)
    case (Inl err)
    then show ?thesis using st t by (simp add: serve_container_def refused_or_waking_error)
  next
    case (Inr status)
    then show ?thesis
      using st t serve_running_upgrade [OF assms, of s1 Q cfg]
      by (simp add: serve_container_def same refused_or_waking_page)
  qed
qed

lemma handleGroupRequest_upgrade:
  assumes "isWebSocketRequest r"
  shows "refused_or_waking s (fst (handleGroupRequest Q r grp s)) (snd (handleGroupRequest Q r grp s))"
proof -
  obtain n gr where p: "Pick grp (sv_groupRouter s) = (n, gr)" by (meson surj_pair)
  let ?s0 = "s\<lparr>sv_groupRouter := gr\<rparr>"
  show ?thesis
  proof (cases "sv_containerMap ?s0 n")
    case None
    then show ?thesis
      using p by (simp add: handleGroupRequest_def Let_def refused_or_waking_def error_reply_def http_Error_def)
  next
    case (Some cfg)
    obtain t s1 where t: "clock_now Q ?s0 = (t, s1)" by (meson surj_pair)
    obtain st s2 where st: "on_mgr (on_io (GetContainerStatus (o_env Q) CtxRequest (c_Name cfg))) s1 = (st, s2)"
      by (meson surj_pair)
    have f: "sv_tasks s2 = sv_tasks s" using clock_now_fields(2) [OF t] on_mgr_io_fields(1) [OF st] by simp
    have m: "refused_or_waking s resp (snd (with_metric Q n' k rs)) = refused_or_waking s resp (snd rs)" for resp n' k rs
      by (simp add: refused_or_waking_def)
    show ?thesis
      using p Some t st f assms
      by (simp add: handleGroupRequest_def Let_def m refused_or_waking_page refused_or_waking_proxy spawn_def mgr_do_def)
  qed
qed

lemma handleRequest_upgrade:
  assumes "isWebSocketRequest r" and "handleRequest Q r s = Some (resp, s')"
  shows "refused_or_waking s resp s'"
  using assms(2)
proof (cases rule: handleRequest_cases)
  case (grp g)
  then show ?thesis using handleGroupRequest_upgrade [OF assms(1), of s Q g] by (metis fst_conv snd_conv)
next
  case (blocked c t s1 n)
  then show ?thesis
    using clock_now_fields(2) [OF blocked(4)] by (simp add: serveScheduledPage_def html_def refused_or_waking_def)
next
  case (admitted c t s1 n start s2)
  have "sv_tasks s2 = sv_tasks s"
    using clock_now_fields(2) [OF admitted(4)] clock_now_fields(2) [OF admitted(6)] by simp
  then have "refused_or_waking s = refused_or_waking s2" by (simp add: refused_or_waking_def fun_eq_iff)
  moreover have "resp = fst (serve_container Q r c s2)" "sv_tasks s' = sv_tasks (snd (serve_container Q r c s2))"
    using admitted(7) by (metis fst_conv with_metric_fields(1), metis snd_conv with_metric_fields(2))
  ultimately show ?thesis using serve_container_upgrade [OF assms(1), of s2 Q c] by (simp add: refused_or_waking_def)
qed (simp_all add: NotFound_def http_Error_def refused_or_waking_def)

text \<open>
  C21 (safety, \<^verbatim>\<open>handleRequest\<close>): no WebSocket upgrade ever gets through, because the writer
  the handlers pass on is no \<^verbatim>\<open>http.Hijacker\<close>. No answer to one switches protocols or carries
  a tunnel; it is an error (404, 500, 502 or 503), or, when the request wakes something, the
  loading page. When the container asked for, or the group member picked, is found running
  with its dependencies, the answer is status 500 with the refusal, or the 502 page.
\<close>

theorem websocket_never_tunnelled:
  assumes "isWebSocketRequest r" and "handleRequest Q r s = Some (resp, s')"
  shows "p_Status resp \<noteq> 101 \<and> (\<forall>a. p_Body resp \<noteq> Payload (Tunnel a)) \<and>
    (p_Status resp \<in> {404, 500, 502, 503} \<and> sv_tasks s' = sv_tasks s \<or>
     (\<exists>d t. resp = html 200 (LoadingPage d) \<and> sv_tasks s' = sv_tasks s @ [t])) \<and>
    (\<not> internal_path (r_Path r) \<and> found_running Q r s c \<longrightarrow>
       resp = http_Error [] ''WebSocket proxying not supported by this server'' 500 \<or>
       (\<exists>d. resp = html 502 (ErrorPage d)))"
proof -
  have "resp = http_Error [] ''WebSocket proxying not supported by this server'' 500 \<or> (\<exists>d. resp = html 502 (ErrorPage d))"
    if "\<not> internal_path (r_Path r)" "found_running Q r s c"
    using found_running_proxied [OF assms(2) that] proxyRequest_websocket [OF assms(1), of Q c] by metis
  with websocket_replies [OF assms] handleRequest_upgrade [OF assms] show ?thesis
    unfolding refused_or_waking_def by blast
qed

section \<open>Groups and the schedule\<close>

lemma InitStartStates_starting:
  "mn \<in> set ns \<or> startStates m mn = Some \<lparr>ss_Status = ''starting'', ss_Err = ''''\<rparr> \<Longrightarrow>
   startStates (foldl (\<lambda>m n. InitStartState n m) m ns) mn = Some \<lparr>ss_Status = ''starting'', ss_Err = ''''\<rparr>"
proof (induction ns arbitrary: m)
  case (Cons n ns)
  show ?case
    unfolding foldl_Cons by (rule Cons.IH) (use Cons.prems in \<open>auto simp: InitStartState_def status_defs\<close>)
qed simp

lemma handleGroupRequest_sleeping:
  assumes "sv_containerMap s (fst (Pick grp (sv_groupRouter s))) = Some cfg"
    and "fst (on_mgr (on_io (GetContainerStatus (o_env Q) CtxRequest (c_Name cfg)))
      (snd (clock_now Q (s\<lparr>sv_groupRouter := snd (Pick grp (sv_groupRouter s))\<rparr>)))) \<noteq> Inr ''running''"
    and "handleGroupRequest Q r grp s = (resp, s')"
  shows "(\<exists>d. resp = html 200 (LoadingPage d)) \<and> sv_tasks s' = sv_tasks s @ [TaskGroup grp] \<and>
    (\<forall>mn \<in> set (g_Containers grp). GetStartState mn (sv_manager s') = (''starting'', ''''))"
proof -
  let ?s0 = "s\<lparr>sv_groupRouter := snd (Pick grp (sv_groupRouter s))\<rparr>"
  obtain t s1 where t: "clock_now Q ?s0 = (t, s1)" by (meson surj_pair)
  obtain st s2 where st: "on_mgr (on_io (GetContainerStatus (o_env Q) CtxRequest (c_Name cfg))) s1 = (st, s2)"
    by (meson surj_pair)
  have f: "sv_tasks s2 = sv_tasks s" using clock_now_fields(2) [OF t] on_mgr_io_fields(1) [OF st] by simp
  let ?w = "spawn (TaskGroup grp) (mgr_do (\<lambda>m. foldl (\<lambda>m mn. InitStartState mn m) m (g_Containers grp)) s2)"
  have h: "(resp, s') = with_metric Q (c_Name cfg) t (serveLoadingPage Q r cfg ?w)"
    using assms t st by (simp add: handleGroupRequest_def Let_def split_beta)
  then have "resp = fst (serveLoadingPage Q r cfg ?w)" by (metis fst_conv with_metric_fields(1))
  moreover have "sv_tasks s' = sv_tasks ?w" "startStates (sv_manager s') = startStates (sv_manager ?w)"
    using h LoadingPage_fields [of Q r cfg ?w] by (metis snd_conv with_metric_fields(2,3))+
  ultimately show ?thesis
    using LoadingPage_reply [of Q r cfg ?w] f InitStartStates_starting [of _ "g_Containers grp" "sv_manager s2"]
    by (simp add: spawn_def mgr_do_def GetStartState_def)
qed

text \<open>
  C5 (safety, \<^verbatim>\<open>handleGroupRequest\<close>): the schedule does not gate requests to a group. When the
  member the round robin picks is outside its own window, it is proxied to all the same if it
  runs; otherwise the client gets the loading page, one goroutine is started that wakes the
  whole group, and every member is recorded as starting.
\<close>

theorem group_bypasses_schedule:
  assumes "handleRequest Q r s = Some (resp, s')" and "\<not> internal_path (r_Path r)"
    and "resolveGroup r s = Some grp"
    and "sv_containerMap s (fst (Pick grp (sv_groupRouter s))) = Some cfg"
    and "IsInScheduleWindow (parse_cron (o_libs Q)) cfg (fst (clock_now Q s))
      (effective_loc (o_libs Q) (sv_schedLoc s) cfg) = Some (False, nextStart)"
    and "status = fst (on_mgr (on_io (GetContainerStatus (o_env Q) CtxRequest (c_Name cfg)))
      (snd (clock_now Q (s\<lparr>sv_groupRouter := snd (Pick grp (sv_groupRouter s))\<rparr>))))"
  shows "(status = Inr ''running'' \<longrightarrow> (\<exists>k. resp = fst (proxyRequest Q MetricsWriter r cfg k))) \<and>
    (status \<noteq> Inr ''running'' \<longrightarrow>
       (\<exists>d. resp = html 200 (LoadingPage d)) \<and> sv_tasks s' = sv_tasks s @ [TaskGroup grp] \<and>
       (\<forall>mn \<in> set (g_Containers grp). GetStartState mn (sv_manager s') = (''starting'', '''')))"
proof (intro conjI impI)
  assume "status = Inr ''running''"
  then have "found_running Q r s cfg" using assms(3,4,6) by (simp add: found_running_def)
  from found_running_proxied [OF assms(1,2) this] show "\<exists>k. resp = fst (proxyRequest Q MetricsWriter r cfg k)" .
next
  assume n: "status \<noteq> Inr ''running''"
  have "handleGroupRequest Q r grp s = (resp, s')" using assms(1-3) by (simp add: handleRequest_def)
  from handleGroupRequest_sleeping [OF assms(4) _ this] n assms(6)
  show "\<exists>d. resp = html 200 (LoadingPage d)" "sv_tasks s' = sv_tasks s @ [TaskGroup grp]"
    "\<forall>mn \<in> set (g_Containers grp). GetStartState mn (sv_manager s') = (''starting'', '''')" by blast+
qed

lemma on_mgr_call: "fst (on_mgr (on_io (call f ev)) s) = fst (f (world (mg_io (sv_manager s))))"
  by (simp add: on_mgr_def on_io_def call_def split_beta)

text \<open>
  \<^verbatim>\<open>proxyRequest\<close>: an ordinary request to a container with an address and a
  numeric port is sent to that address and port, with the host the client asked for in
  \<open>X-Forwarded-Host\<close>; but the client's address ends up in \<open>X-Forwarded-For\<close> twice, once from
  \<^verbatim>\<open>setForwardedHeaders\<close> and once from the reverse proxy.
\<close>

theorem proxied_request:
  assumes "on_mgr (on_io (GetContainerAddress (o_env Q) CtxRequest (c_Name cfg) (c_Network cfg))) s = (Inr ip, s1)"
    and "\<not> isWebSocketRequest r" and "list_all is_digit (c_TargetPort cfg)"
    and "SplitHostPort (r_RemoteAddr r) = Some (peer, port)" and "peer \<noteq> ''''"
  shows "\<exists>r'. fst (proxyRequest Q w r cfg s) = fst (o_exchange Q (ip @ '':'' @ c_TargetPort cfg) r' (world (mg_io (sv_manager s1)))) \<and>
    r_Host r' = ip @ '':'' @ c_TargetPort cfg \<and> r_Path r' = r_Path r \<and> r_Method r' = r_Method r \<and>
    r_Header r' ''X-Forwarded-Host'' = r_Host r \<and>
    r_Header r' ''X-Forwarded-For'' =
      (if r_Header r ''X-Forwarded-For'' = '''' then peer else r_Header r ''X-Forwarded-For'' @ '', '' @ peer) @ '', '' @ peer"
proof -
  let ?addr = "ip @ '':'' @ c_TargetPort cfg"
  let ?r = "ReverseProxy ((setForwardedHeaders r)\<lparr>r_Host := ?addr\<rparr>)"
  have "CHR '':'' \<notin> set (c_TargetPort cfg)"
    using assms(3) is_digit_props by (auto simp: list_all_iff)
  then have "LastIndex ?addr (CHR '':'') = Some (length ip)"
    using LastIndex_append by fastforce
  then have t: "target_host ?addr = Some ?addr" using assms(3) by (simp add: target_host_def)
  have "fst (proxyRequest Q w r cfg s) = fst (o_exchange Q ?addr ?r (world (mg_io (sv_manager s1))))"
    using assms(1,2) t by (simp add: proxyRequest_def on_mgr_call)
  moreover have "r_Host ?r = ?addr \<and> r_Path ?r = r_Path r \<and> r_Method ?r = r_Method r \<and>
      r_Header ?r ''X-Forwarded-Host'' = r_Host r \<and>
      r_Header ?r ''X-Forwarded-For'' =
      (if r_Header r ''X-Forwarded-For'' = '''' then peer else r_Header r ''X-Forwarded-For'' @ '', '' @ peer) @ '', '' @ peer"
  proof -
    have "host_of (r_RemoteAddr r) = peer" using assms(4) by (simp add: host_of_def)
    then show ?thesis
      using assms(4,5) by (simp add: ReverseProxy_def set_header_def setForwardedHeaders_get)
  qed
  ultimately show ?thesis by blast
qed

text \<open>
  \<^verbatim>\<open>proxyRequest\<close>: with a port that is not a number, which validation lets pass, and in which
  no other part of a URL begins, the parsed URL is nil and the handler panics: the client gets no answer at all, and the
  request is counted with status 200.
\<close>

theorem nonnumeric_port_aborts:
  assumes "on_mgr (on_io (GetContainerAddress (o_env Q) CtxRequest (c_Name cfg) (c_Network cfg))) s = (Inr ip, s1)"
    and "\<not> isWebSocketRequest r" and "\<not> list_all is_digit (c_TargetPort cfg)"
    and "set (c_TargetPort cfg) \<inter> set '':/?#@'' = {}"
  shows "fst (proxyRequest Q w r cfg s) = aborted \<and>
    MetricRequest (c_Name cfg) ''200'' \<in>
      set (trace (mg_io (sv_manager (snd (with_metric Q (c_Name cfg) start (proxyRequest Q w r cfg s))))))"
proof -
  have "LastIndex (ip @ '':'' @ c_TargetPort cfg) (CHR '':'') = Some (length ip)"
    using LastIndex_append [of "CHR '':''" "c_TargetPort cfg" ip] assms(4) by auto
  then have p: "proxyRequest Q w r cfg s = (aborted, s1)"
    using assms(1-3) by (simp add: proxyRequest_def target_host_def Let_def)
  have "format_d 200 = ''200''" by code_simp
  then show ?thesis
    by (auto simp: p with_metric_def metric_status_def aborted_def mgr_do_def on_io_def RecordRequest_def split: prod.split)
qed

section \<open>Routing\<close>

text \<open>The indexes, the proxies and the location belong to the configuration in use.\<close>

definition consistent :: "libs \<Rightarrow> ('w, 'c) server \<Rightarrow> bool" where
  "consistent L s \<longleftrightarrow>
     sv_hostIndex s = BuildHostIndex (sv_cfg s) \<and> sv_groupIndex s = BuildGroupHostIndex (sv_cfg s) \<and>
     sv_containerMap s = BuildContainerMap (sv_cfg s) \<and>
     sv_trustedCIDRs s = parseTrustedProxies (TrustedProxies (Gateway (sv_cfg s))) \<and>
     sv_schedLoc s = resolveLocation L (ScheduleTimezone (Gateway (sv_cfg s)))"

lemma consistent_NewServer: "consistent L (NewServer L m sm cfg)"
  by (simp add: consistent_def NewServer_def)

lemma consistent_ReloadConfig: "consistent (o_libs Q) (ReloadConfig Q cfg s)"
  by (simp add: consistent_def ReloadConfig_def Let_def)

lemma consistent_same: "same_config s s' \<Longrightarrow> consistent L s \<Longrightarrow> consistent L s'"
  by (simp add: consistent_def same_config_def)

definition host_matches :: "string \<Rightarrow> string \<Rightarrow> bool" where
  "host_matches host h \<longleftrightarrow> host = h \<or> (\<exists>port. CHR '':'' \<notin> set port \<and> host = h @ CHR '':'' # port)"

lemma LastIndex_Some: "LastIndex s c = Some i \<Longrightarrow> \<exists>p. c \<notin> set p \<and> s = take i s @ c # p"
proof -
  assume l: "LastIndex s c = Some i"
  then have "c \<in> set s" by (auto simp: LastIndex_def split: if_splits)
  then obtain h p where s: "s = h @ c # p" "c \<notin> set p" using split_list_last by fastforce
  then have "i = length h" using l LastIndex_append by simp
  then show ?thesis using s by auto
qed

lemma host_lookup_Some: "host_lookup idx host = Some x \<Longrightarrow> \<exists>h. idx h = Some x \<and> host_matches host h"
proof (cases "idx host")
  case None
  assume "host_lookup idx host = Some x"
  with None obtain i where i: "LastIndex host (CHR '':'') = Some i" "idx (take i host) = Some x"
    by (auto simp: host_lookup_def split: option.splits)
  then show ?thesis using LastIndex_Some [OF i(1)] by (auto simp: host_matches_def)
qed (auto simp: host_lookup_def host_matches_def)

lemma routing_spec:
  assumes "consistent L s" and "valid_config L (sv_cfg s)"
  shows "(resolveGroup r s = Some g \<longrightarrow> g \<in> set (Groups (sv_cfg s)) \<and> host_matches (r_Host r) (g_Host g)) \<and>
    (resolveConfig r s = Some c \<longrightarrow> c \<in> set (Containers (sv_cfg s)) \<and>
       (c_Host c \<noteq> '''' \<and> host_matches (r_Host r) (c_Host c) \<or> r_Query r ''container'' = c_Name c)) \<and>
    (d \<in> set (Containers (sv_cfg s)) \<and> c_Host d \<noteq> '''' \<and> CHR '':'' \<notin> set (c_Host d) \<and> r_Host r = c_Host d \<longrightarrow>
       resolveConfig r s = Some d \<and> resolveGroup r s = None)"
proof (intro conjI impI)
  assume "resolveGroup r s = Some g"
  then obtain h where h: "BuildGroupHostIndex (sv_cfg s) h = Some g" "host_matches (r_Host r) h"
    using assms(1) by (auto simp: resolveGroup_def consistent_def dest: host_lookup_Some)
  then show "g \<in> set (Groups (sv_cfg s))" "host_matches (r_Host r) (g_Host g)"
    using group_index.index_SomeD [OF h(1)] by auto
next
  assume rc: "resolveConfig r s = Some c"
  have "c \<in> set (Containers (sv_cfg s)) \<and>
       (c_Host c \<noteq> '''' \<and> host_matches (r_Host r) (c_Host c) \<or> r_Query r ''container'' = c_Name c)"
  proof (cases "host_lookup (BuildHostIndex (sv_cfg s)) (r_Host r)")
    case None
    with rc assms(1) show ?thesis
      by (auto simp: resolveConfig_def consistent_def Let_def dest: find_SomeD split: if_splits)
  next
    case (Some c')
    with rc assms(1) have "c' = c" by (simp add: resolveConfig_def consistent_def)
    with host_lookup_Some [OF Some] show ?thesis by (auto dest!: host_index.index_SomeD)
  qed
  then show "c \<in> set (Containers (sv_cfg s))"
    "c_Host c \<noteq> '''' \<and> host_matches (r_Host r) (c_Host c) \<or> r_Query r ''container'' = c_Name c" by blast+
next
  assume d: "d \<in> set (Containers (sv_cfg s)) \<and> c_Host d \<noteq> '''' \<and> CHR '':'' \<notin> set (c_Host d) \<and> r_Host r = c_Host d"
  have "BuildHostIndex (sv_cfg s) (c_Host d) = Some d"
    using d valid_hosts(1) [OF assms(2)] by (intro host_index.index_unique) auto
  then show "resolveConfig r s = Some d"
    using d assms(1) by (simp add: resolveConfig_def host_lookup_def consistent_def)
  have "LastIndex (r_Host r) (CHR '':'') = None" using d by (simp add: LastIndex_None)
  moreover have "BuildGroupHostIndex (sv_cfg s) (c_Host d) = None"
    using d valid_hosts(3) [OF assms(2), of d] unfolding group_index.index_None by metis
  ultimately show "resolveGroup r s = None"
    using d assms(1) by (simp add: resolveGroup_def host_lookup_def consistent_def)
qed

text \<open>
  \<open>host_leads_to xs key host x\<close>: \<open>x\<close> is the entry of \<open>xs\<close> whose host is the one asked for; or,
  when no entry has that host, the one whose host is asked for with a port behind it.
\<close>

definition host_leads_to :: "'a list \<Rightarrow> ('a \<Rightarrow> string) \<Rightarrow> string \<Rightarrow> 'a \<Rightarrow> bool" where
  "host_leads_to xs key host x \<longleftrightarrow> x \<in> set xs \<and> key x \<noteq> '''' \<and>
     (key x = host \<or>
      (\<forall>y \<in> set xs. key y \<noteq> host) \<and> (\<exists>port. CHR '':'' \<notin> set port \<and> host = key x @ CHR '':'' # port))"

lemma LastIndex_take:
  "(\<exists>i. LastIndex s c = Some i \<and> take i s = h) \<longleftrightarrow> (\<exists>p. c \<notin> set p \<and> s = h @ c # p)"
proof
  assume "\<exists>p. c \<notin> set p \<and> s = h @ c # p"
  then obtain p where "c \<notin> set p" "s = h @ c # p" by blast
  then show "\<exists>i. LastIndex s c = Some i \<and> take i s = h" using LastIndex_append by fastforce
qed (use LastIndex_Some in blast)

lemma host_lookup_iff:
  assumes "\<And>h x. idx h = Some x \<longleftrightarrow> x \<in> set xs \<and> key x = h \<and> h \<noteq> ''''"
  shows "host_lookup idx host = Some x \<longleftrightarrow> host_leads_to xs key host x"
proof (cases "idx host")
  case (Some y)
  then have y: "y \<in> set xs" "key y = host" using assms by simp_all
  have "host_lookup idx host = Some x \<longleftrightarrow> idx host = Some x" using Some by (simp add: host_lookup_def)
  also have "\<dots> \<longleftrightarrow> host_leads_to xs key host x" using y assms by (auto simp: host_leads_to_def)
  finally show ?thesis .
next
  case None
  then have n: "\<not> (y \<in> set xs \<and> key y = host)" if "host \<noteq> ''''" for y
    using assms that by (metis option.distinct(1))
  have "host_lookup idx host = Some x \<longleftrightarrow> (\<exists>i. LastIndex host (CHR '':'') = Some i \<and> idx (take i host) = Some x)"
    using None by (simp add: host_lookup_def split: option.split)
  also have "\<dots> \<longleftrightarrow> x \<in> set xs \<and> key x \<noteq> '''' \<and> (\<exists>i. LastIndex host (CHR '':'') = Some i \<and> take i host = key x)"
    using assms by (metis (no_types, lifting))
  also have "\<dots> \<longleftrightarrow> host_leads_to xs key host x"
    unfolding LastIndex_take host_leads_to_def using n by (cases "host = ''''") auto
  finally show ?thesis .
qed

lemma named_find:
  assumes "distinct (map key xs)"
  shows "find (\<lambda>x. key x = n) xs = Some x \<longleftrightarrow> x \<in> set xs \<and> key x = n"
proof
  assume x: "x \<in> set xs \<and> key x = n"
  then obtain y where y: "find (\<lambda>x. key x = n) xs = Some y" by (cases "find (\<lambda>x. key x = n) xs") (auto simp: find_None_iff)
  then have "y \<in> set xs \<and> key y = n" by (rule find_SomeD)
  with x y assms show "find (\<lambda>x. key x = n) xs = Some x" by (auto simp: distinct_map dest: inj_onD)
qed (rule find_SomeD)

text \<open>
  C26 (functional, \<^verbatim>\<open>resolveConfig\<close> and \<^verbatim>\<open>resolveGroup\<close>): with a validated configuration routing
  is exactly this. A request leads to the group whose host it asks for, the exact host first
  and then the host without its port; to the container whose host it asks for, likewise; and,
  when no container's host is asked for, to the container that the query names. A host without
  a port that belongs to a container leads to that container and to no group.
\<close>

theorem routing_exact:
  assumes "consistent L s" and "valid_config L (sv_cfg s)"
  shows "(resolveGroup r s = Some g \<longleftrightarrow> host_leads_to (Groups (sv_cfg s)) g_Host (r_Host r) g) \<and>
    (resolveConfig r s = Some c \<longleftrightarrow>
       host_leads_to (Containers (sv_cfg s)) c_Host (r_Host r) c \<or>
       list_all (\<lambda>d. \<not> host_leads_to (Containers (sv_cfg s)) c_Host (r_Host r) d) (Containers (sv_cfg s)) \<and>
       c \<in> set (Containers (sv_cfg s)) \<and> c_Name c = r_Query r ''container'') \<and>
    (d \<in> set (Containers (sv_cfg s)) \<and> c_Host d \<noteq> '''' \<and> CHR '':'' \<notin> set (c_Host d) \<and> r_Host r = c_Host d \<longrightarrow>
       resolveConfig r s = Some d \<and> resolveGroup r s = None)"
proof -
  let ?cs = "Containers (sv_cfg s)"
  have names: "distinct (map c_Name ?cs)" "\<And>c. c \<in> set ?cs \<Longrightarrow> c_Name c \<noteq> ''''"
    and gne: "\<And>g. g \<in> set (Groups (sv_cfg s)) \<Longrightarrow> g_Host g \<noteq> ''''"
    using assms(2) by (auto simp: valid_config_def container_ok_def group_ok_def)
  have ci: "BuildHostIndex (sv_cfg s) h = Some x \<longleftrightarrow> x \<in> set ?cs \<and> c_Host x = h \<and> h \<noteq> ''''" for h x
    using valid_config_indexes [OF assms(2)] by blast
  have gi: "BuildGroupHostIndex (sv_cfg s) h = Some x \<longleftrightarrow> x \<in> set (Groups (sv_cfg s)) \<and> g_Host x = h \<and> h \<noteq> ''''" for h x
    using valid_config_indexes [OF assms(2)] gne by blast
  have c: "host_lookup (sv_hostIndex s) (r_Host r) = Some x \<longleftrightarrow> host_leads_to ?cs c_Host (r_Host r) x" for x
    using assms(1) host_lookup_iff [OF ci] by (simp add: consistent_def)
  have "resolveConfig r s = Some c \<longleftrightarrow>
       host_leads_to ?cs c_Host (r_Host r) c \<or>
       list_all (\<lambda>d. \<not> host_leads_to ?cs c_Host (r_Host r) d) ?cs \<and> c \<in> set ?cs \<and> c_Name c = r_Query r ''container''"
  proof (cases "host_lookup (sv_hostIndex s) (r_Host r)")
    case None
    then have n: "\<not> host_leads_to ?cs c_Host (r_Host r) x" for x using c by (metis option.distinct(1))
    have "resolveConfig r s = Some c \<longleftrightarrow> r_Query r ''container'' \<noteq> '''' \<and> find (\<lambda>c. c_Name c = r_Query r ''container'') ?cs = Some c"
      using None by (simp add: resolveConfig_def Let_def)
    also have "\<dots> \<longleftrightarrow> c \<in> set ?cs \<and> c_Name c = r_Query r ''container''"
      unfolding named_find [OF names(1)] using names(2) by auto
    finally show ?thesis using n by (simp add: list_all_iff)
  next
    case (Some x)
    then have x: "host_leads_to ?cs c_Host (r_Host r) x" "x \<in> set ?cs" using c by (auto simp: host_leads_to_def)
    have "resolveConfig r s = Some c \<longleftrightarrow> host_lookup (sv_hostIndex s) (r_Host r) = Some c"
      using Some by (simp add: resolveConfig_def)
    with c x show ?thesis by (auto simp: list_all_iff)
  qed
  moreover have "resolveGroup r s = Some g \<longleftrightarrow> host_leads_to (Groups (sv_cfg s)) g_Host (r_Host r) g"
    using assms(1) host_lookup_iff [OF gi] by (simp add: resolveGroup_def consistent_def)
  moreover note routing_spec [OF assms]
  ultimately show ?thesis by blast
qed

text \<open>
  \<^verbatim>\<open>resolveConfig\<close>: the query fallback reaches every container by its name from
  any host that is not indexed, also the ones without a host of their own that only serve
  as dependencies.
\<close>

theorem query_reaches_any_container:
  assumes "consistent L s" and "valid_config L (sv_cfg s)" and "c \<in> set (Containers (sv_cfg s))"
    and "host_lookup (sv_hostIndex s) (r_Host r) = None" and "r_Query r ''container'' = c_Name c"
  shows "resolveConfig r s = Some c"
proof -
  have n: "distinct (map c_Name (Containers (sv_cfg s)))" "c_Name c \<noteq> ''''"
    using assms(2,3) by (auto simp: valid_config_def container_ok_def)
  have "find (\<lambda>d. c_Name d = c_Name c) (Containers (sv_cfg s)) = Some c"
  proof (cases "find (\<lambda>d. c_Name d = c_Name c) (Containers (sv_cfg s))")
    case None
    then show ?thesis using assms(3) by (auto simp: find_None_iff)
  next
    case (Some d)
    then have "d \<in> set (Containers (sv_cfg s))" "c_Name d = c_Name c" by (auto dest: find_SomeD)
    then show ?thesis using Some n(1) assms(3) by (auto simp: distinct_map dest: inj_onD)
  qed
  then show ?thesis using assms(4,5) n(2) by (simp add: resolveConfig_def)
qed

text \<open>
  \<^verbatim>\<open>handleGroupRequest\<close>: with a validated configuration the member the round
  robin picks is one of the group and is configured, so the "member not found" answer is
  never given, whatever the counters hold.
\<close>

theorem picked_member_configured:
  assumes "consistent L s" and "valid_config L (sv_cfg s)" and "resolveGroup r s = Some g"
    and "length (g_Containers g) < 2 ^ 63"
  shows "\<exists>cfg. sv_containerMap s (fst (Pick g (sv_groupRouter s))) = Some cfg \<and>
    cfg \<in> set (Containers (sv_cfg s)) \<and> c_Name cfg \<in> set (g_Containers g)"
proof -
  have g: "g \<in> set (Groups (sv_cfg s))" using routing_spec [OF assms(1,2), of r g] assms(3) by blast
  then have ok: "g_Containers g \<noteq> []" "set (g_Containers g) \<subseteq> nameSet (sv_cfg s)"
    using assms(2) by (auto simp: valid_config_def group_ok_def)
  let ?n = "fst (Pick g (sv_groupRouter s))"
  have n: "?n \<in> set (g_Containers g)" using Pick_member_spec [OF ok(1) assms(4)] by blast
  with ok(2) have "?n \<in> c_Name ` set (Containers (sv_cfg s))" by (auto simp: nameSet_def)
  then obtain cfg where "container_map (Containers (sv_cfg s)) ?n = Some cfg"
    using container_map_None by (metis option.exhaust)
  with n assms(1) show ?thesis
    by (auto simp: consistent_def BuildContainerMap_def dest: container_map_Some)
qed

section \<open>The endpoints the loading page polls\<close>

lemma allow_refused_frame:
  assumes "allow_request Q r s = (False, s1)"
  shows "trace (mg_io (sv_manager s1)) = trace (mg_io (sv_manager s)) \<and> sv_rateLimiter s1 = sv_rateLimiter s"
proof -
  obtain since s2 where c: "clock_now Q s = (since, s2)" by (meson surj_pair)
  then have "s1 = s2" using assms by (auto simp: allow_request_def Let_def split: option.splits prod.splits if_splits)
  then show ?thesis
    using c clock_now_fields(1) [OF c] by (auto simp: clock_now_def on_mgr_def split: prod.splits)
qed

text \<open>
  \<^verbatim>\<open>handleHealth\<close> and \<^verbatim>\<open>handleLogs\<close>: a request over the limit gets 429 and
  Docker is not asked; an admitted health request answers with the recorded state, and only
  when none is recorded with what Docker says.
\<close>

theorem polling_answers:
  assumes "startStates (sv_manager s) (c_Name cfg) = st" and "resolveConfig r s = Some cfg"
    and "\<And>x. st = Some x \<Longrightarrow> ss_Status x \<noteq> ''unknown''"
  shows "(\<not> fst (allow_request Q r s) \<longrightarrow>
      fst (handleHealth Q r s) = too_many \<and> fst (handleLogs Q r s) = too_many \<and>
      trace (mg_io (sv_manager (snd (handleHealth Q r s)))) = trace (mg_io (sv_manager s)) \<and>
      trace (mg_io (sv_manager (snd (handleLogs Q r s)))) = trace (mg_io (sv_manager s))) \<and>
    (fst (allow_request Q r s) \<longrightarrow>
      (case st of
         Some x \<Rightarrow> fst (handleHealth Q r s) = json (HealthJSON (ss_Status x) (ss_Err x))
       | None \<Rightarrow> fst (handleHealth Q r s) \<in> {json (HealthJSON ''running'' ''''), json (HealthJSON ''unknown'' '''')}))"
proof (intro conjI impI)
  assume "\<not> fst (allow_request Q r s)"
  then obtain s1 where a: "allow_request Q r s = (False, s1)" by (cases "allow_request Q r s") auto
  then show "fst (handleHealth Q r s) = too_many" "fst (handleLogs Q r s) = too_many"
    "trace (mg_io (sv_manager (snd (handleHealth Q r s)))) = trace (mg_io (sv_manager s))"
    "trace (mg_io (sv_manager (snd (handleLogs Q r s)))) = trace (mg_io (sv_manager s))"
    using allow_refused_frame [OF a] by (simp_all add: handleHealth_def handleLogs_def)
next
  assume al: "fst (allow_request Q r s)"
  show "case st of
      Some x \<Rightarrow> fst (handleHealth Q r s) = json (HealthJSON (ss_Status x) (ss_Err x))
    | None \<Rightarrow> fst (handleHealth Q r s) \<in> {json (HealthJSON ''running'' ''''), json (HealthJSON ''unknown'' '''')}"
  proof (cases st)
    case (Some x)
    then show ?thesis using handleHealth_recorded [OF _ _ assms(2) al] assms(1,3) by simp
  next
    case None
    obtain s1 where a: "allow_request Q r s = (True, s1)" using al by (cases "allow_request Q r s") auto
    have v: "serves {} s s1" by (rule serves_allow_request [OF a])
    have "resolveConfig r s1 = Some cfg" using resolveConfig_same [OF serves_config [OF v]] assms(2) by simp
    moreover have "GetStartState (c_Name cfg) (sv_manager s1) = (''unknown'', '''')"
      using serves_startStates [OF v] assms(1) None by (simp add: GetStartState_def)
    ultimately show ?thesis using a None by (simp add: handleHealth_def split: prod.split)
  qed
qed

section \<open>A server to run\<close>

text \<open>
  A server with the simulated daemon of \<open>Docker\<close>, in which \<open>up\<close> run at first and the clock
  shows \<open>k\<close> seconds. Its backend answers with its address and the forwarding chain it got.
\<close>

type_synonym sim_cron = "nat \<times> (nat \<Rightarrow> (string \<times> job) option)"

definition sim_outside :: "(string list \<times> nat, sim_cron) outside" where
  "sim_outside =
     \<lparr>o_libs = demo_libs, o_env = sim_env, o_cron = list_cron demo_libs, o_parse_time = (\<lambda>_. None),
      o_exchange = (\<lambda>addr r w. (\<lparr>p_Status = 200, p_Header = [],
        p_Body = Payload (Backend (addr @ '' for '' @ r_Header r ''X-Forwarded-For''))\<rparr>, w)),
      o_url_host = (\<lambda>u. if HasPrefix u ''http://'' then Some (drop 7 u) else None),
      o_url_string = (\<lambda>p q. if q = '''' then p else p @ ''?'' @ q),
      o_fmt_time = (\<lambda>_ _. ''later''), o_fmt_rfc3339 = (\<lambda>_. ''then''), o_fmt_duration = (\<lambda>_. ''1m0s'')\<rparr>"

definition sim_server :: "GatewayConfig \<Rightarrow> string list \<Rightarrow> nat \<Rightarrow> (string list \<times> nat, sim_cron) server" where
  "sim_server cfg up k =
     NewServer demo_libs (NewContainerManager (up, k)) (NewScheduleManager (0, Map.empty)) cfg"

definition get_request :: "string \<Rightarrow> string \<Rightarrow> request" where
  "get_request host name =
     \<lparr>r_Method = ''GET'', r_Host = host, r_Path = ''/'', r_RawQuery = (if name = '''' then '''' else ''container='' @ name),
      r_Query = (\<lambda>q. if q = ''container'' then name else ''''),
      r_Header = (\<lambda>_. ''''), r_RemoteAddr = ''10.9.9.9:4711''\<rparr>"

lemma sim_outside_sel [simp]:
  "o_libs sim_outside = demo_libs" "o_env sim_outside = sim_env"
  by (simp_all add: sim_outside_def)

lemma sim_server_sel [simp]:
  "sv_manager (sim_server cfg up k) = NewContainerManager (up, k)" "sv_cfg (sim_server cfg up k) = cfg"
  "sv_tasks (sim_server cfg up k) = []" "sv_hostIndex (sim_server cfg up k) = BuildHostIndex cfg"
  "sv_groupIndex (sim_server cfg up k) = BuildGroupHostIndex cfg"
  "sv_schedLoc (sim_server cfg up k) = resolveLocation demo_libs (ScheduleTimezone (Gateway cfg))"
  "sv_rateLimiter (sim_server cfg up k) = newRateLimiter (1 * second)"
  "sv_trustedCIDRs (sim_server cfg up k) = parseTrustedProxies (TrustedProxies (Gateway cfg))"
  by (simp_all add: sim_server_def NewServer_def)

lemma get_request_sel [simp]:
  "r_Host (get_request h n) = h" "r_Path (get_request h n) = ''/''" "r_RemoteAddr (get_request h n) = ''10.9.9.9:4711''"
  "r_Query (get_request h n) q = (if q = ''container'' then n else '''')" "r_Header (get_request h n) x = ''''"
  "r_Method (get_request h n) = ''GET''"
  by (simp_all add: get_request_def)

lemma sim_consistent: "consistent demo_libs (sim_server cfg up k)"
  by (simp add: sim_server_def consistent_NewServer)

lemma sim_clock:
  "clock_now sim_outside s = (int (snd (world (mg_io (sv_manager s)))) * second, s)"
  by (simp add: clock_now_def on_mgr_def time_Now_def on_io_def call_def)

lemma root_not_internal [simp]: "\<not> internal_path ''/''"
  by (simp add: internal_path_def HasPrefix_def)

lemma demo_routes:
  "resolveGroup (get_request ''app.localhost'' n) (sim_server demo_cfg up k) = None"
  "resolveConfig (get_request ''app.localhost'' n) (sim_server demo_cfg up k) =
     Some (mk_ctr ''app'' ''app.localhost'' [''api''])"
  by (simp_all add: resolveGroup_def resolveConfig_def host_lookup_def BuildGroupHostIndex_def BuildHostIndex_def
      demo_cfg_def split: option.split)

lemma app_always_open:
  "IsInScheduleWindow p (mk_ctr n h d) t loc = Some (True, 0)"
  by (simp add: IsInScheduleWindow_def)

lemma sim_sleeping_request:
  "\<exists>resp s'. handleRequest sim_outside (get_request ''app.localhost'' '''') (sim_server demo_cfg [] 0) = Some (resp, s')"
  by (simp add: handleRequest_def demo_routes sim_clock app_always_open Let_def)

lemma sim_sleeping_status:
  "\<exists>s3. on_mgr (on_io (GetContainerStatus (o_env sim_outside) CtxRequest ''app'')) (sim_server demo_cfg [] 0) = (Inr ''exited'', s3)"
  by (simp add: on_mgr_def on_io_def GetContainerStatus_def call_def NewContainerManager_def)

theorem handleRequest_starts_nothing_witness:
  "\<exists>resp s'. handleRequest sim_outside (get_request ''app.localhost'' '''') (sim_server demo_cfg [] 0) = Some (resp, s') \<and>
     same_config (sim_server demo_cfg [] 0) s'"
proof -
  obtain resp s' where h: "handleRequest sim_outside (get_request ''app.localhost'' '''') (sim_server demo_cfg [] 0) = Some (resp, s')"
    using sim_sleeping_request by blast
  with handleRequest_starts_nothing [OF h] show ?thesis by blast
qed

theorem sleeping_container_woken_witness:
  "\<exists>resp s'. handleRequest sim_outside (get_request ''app.localhost'' '''') (sim_server demo_cfg [] 0) = Some (resp, s') \<and>
     sv_tasks s' = [TaskStart (mk_ctr ''app'' ''app.localhost'' [''api''])] \<and>
     GetStartState ''app'' (sv_manager s') = (''starting'', '''')"
proof -
  obtain resp s' where h: "handleRequest sim_outside (get_request ''app.localhost'' '''') (sim_server demo_cfg [] 0) = Some (resp, s')"
    using sim_sleeping_request by blast
  obtain s3 where st: "on_mgr (on_io (GetContainerStatus (o_env sim_outside) CtxRequest
      (c_Name (mk_ctr ''app'' ''app.localhost'' [''api''])))) (sim_server demo_cfg [] 0) = (Inr ''exited'', s3)"
    using sim_sleeping_status by auto
  have "sv_tasks s' = [TaskStart (mk_ctr ''app'' ''app.localhost'' [''api''])] \<and>
     GetStartState ''app'' (sv_manager s') = (''starting'', '''')"
    using sleeping_container_woken [OF h _ demo_routes sim_clock sim_clock st _ app_always_open] by simp
  with h show ?thesis by blast
qed

definition office_cfg :: GatewayConfig where
  "office_cfg = \<lparr>Gateway = demo_global, Containers = [office], Groups = []\<rparr>"

lemma office_sel [simp]:
  "c_Name office = ''app''" "c_Host office = ''app.localhost''" "c_ScheduleTimezone office = ''''"
  by (simp_all add: office_def zero_container_def)

lemma office_closed:
  "\<exists>n. IsInScheduleWindow demo_parse office (2421 * hour) (Some LocLocal) = Some (False, n)"
  by (simp add: IsInScheduleWindow_def office_def demo_parse_def cronExprFromLoc_def prevFiring_def every_def
      last_firing.simps duration_defs)

theorem schedule_gate_witness:
  "\<exists>resp s'. handleRequest sim_outside (get_request ''app.localhost'' '''')
      (sim_server office_cfg [] 8715600) = Some (resp, s') \<and>
    p_Status resp = 503 \<and> sv_tasks s' = [] \<and> trace (mg_io (sv_manager s')) = []"
proof -
  let ?r = "get_request ''app.localhost'' ''''" and ?s = "sim_server office_cfg [] 8715600"
  obtain n where w: "IsInScheduleWindow demo_parse office (2421 * hour) (Some LocLocal) = Some (False, n)"
    using office_closed by blast
  have c: "clock_now sim_outside ?s = (2421 * hour, ?s)"
    by (simp add: sim_clock NewContainerManager_def duration_defs)
  have g: "resolveGroup ?r ?s = None" and rc: "resolveConfig ?r ?s = Some office"
    by (simp_all add: resolveGroup_def resolveConfig_def host_lookup_def BuildGroupHostIndex_def BuildHostIndex_def
        office_cfg_def split: option.split)
  have l: "effective_loc demo_libs (resolveLocation demo_libs (ScheduleTimezone (Gateway office_cfg))) office = Some LocLocal"
    by (simp add: effective_loc_def office_cfg_def demo_global_def resolveLocation_def ResolveLocation_def)
  have p: "parse_cron demo_libs = demo_parse" by (simp add: demo_libs_def)
  obtain resp s' where h: "handleRequest sim_outside ?r ?s = Some (resp, s')"
    by (simp add: handleRequest_def g rc c w l p Let_def) (metis surj_pair)
  have "p_Status resp = 503 \<and> sv_tasks s' = [] \<and> trace (mg_io (sv_manager s')) = []"
    using schedule_gate [OF h _ g rc] c w l p by (simp add: NewContainerManager_def)
  with h show ?thesis by blast
qed

definition upgrade_request :: "string \<Rightarrow> request" where
  "upgrade_request host = (get_request host '''')\<lparr>r_Header := (\<lambda>h. if h = ''Upgrade'' then ''WebSocket''
     else if h = ''Connection'' then ''keep-alive, Upgrade'' else '''')\<rparr>"

lemma upgrade_websocket: "isWebSocketRequest (upgrade_request host)"
proof -
  have "fold_eq ''WebSocket'' ''websocket''" "Contains (map lower ''keep-alive, Upgrade'') ''upgrade''"
    by code_simp+
  then show ?thesis by (simp add: isWebSocketRequest_def upgrade_request_def)
qed

lemma not_websocket: "\<not> isWebSocketRequest (get_request h n)"
  by (simp add: isWebSocketRequest_def)

lemma sim_address:
  "\<exists>s1. on_mgr (on_io (GetContainerAddress (o_env sim_outside) CtxRequest n '''')) s = (Inr ''10.0.0.2'', s1)"
  by (simp add: on_mgr_def on_io_def GetContainerAddress_def call_def container_address_def)

lemma sim_peer: "SplitHostPort ''10.9.9.9:4711'' = Some (''10.9.9.9'', ''4711'')"
  by code_simp

theorem proxied_request_witness:
  "p_Body (fst (proxyRequest sim_outside MetricsWriter (get_request ''app.localhost'' '''')
      (mk_ctr ''app'' ''app.localhost'' []) (sim_server demo_cfg [''app''] 0))) =
    Payload (Backend ''10.0.0.2:80 for 10.9.9.9, 10.9.9.9'')"
proof -
  let ?c = "mk_ctr ''app'' ''app.localhost'' []" and ?s = "sim_server demo_cfg [''app''] 0"
  obtain s1 where a: "on_mgr (on_io (GetContainerAddress (o_env sim_outside) CtxRequest (c_Name ?c) (c_Network ?c))) ?s =
      (Inr ''10.0.0.2'', s1)"
    using sim_address [of "''app''" ?s] by auto
  have "list_all is_digit (c_TargetPort ?c)" by (simp add: is_digit_def)
  from proxied_request [OF a not_websocket [of "''app.localhost''" "''''"] this, of "''10.9.9.9''" "''4711''" MetricsWriter]
  show ?thesis by (auto simp: sim_peer) (simp add: sim_outside_def)
qed

theorem nonnumeric_port_aborts_witness:
  "fst (proxyRequest sim_outside MetricsWriter (get_request ''app.localhost'' '''')
     ((mk_ctr ''app'' ''app.localhost'' [])\<lparr>c_TargetPort := ''http''\<rparr>) (sim_server demo_cfg [''app''] 0)) = aborted"
proof -
  let ?c = "(mk_ctr ''app'' ''app.localhost'' [])\<lparr>c_TargetPort := ''http''\<rparr>" and ?s = "sim_server demo_cfg [''app''] 0"
  obtain s1 where a: "on_mgr (on_io (GetContainerAddress (o_env sim_outside) CtxRequest (c_Name ?c) (c_Network ?c))) ?s =
      (Inr ''10.0.0.2'', s1)"
    using sim_address [of "''app''" ?s] by (auto simp: mk_ctr_def zero_container_def)
  have "\<not> list_all is_digit (c_TargetPort ?c)" by (simp add: is_digit_def)
  from nonnumeric_port_aborts [OF a not_websocket [of "''app.localhost''" "''''"] this] show ?thesis by simp
qed

lemma demo_config_valid: "valid_config demo_libs demo_cfg"
  using demo_valid [of "\<lambda>_. 0", unfolded Validate_Pass] by blast

theorem query_reaches_any_container_witness:
  "resolveConfig (get_request ''elsewhere'' ''db'') (sim_server demo_cfg [] 0) = Some (mk_ctr ''db'' '''' [])"
proof (rule query_reaches_any_container [OF sim_consistent])
  show "valid_config demo_libs (sv_cfg (sim_server demo_cfg [] 0))" by (simp add: demo_config_valid)
  show "mk_ctr ''db'' '''' [] \<in> set (Containers (sv_cfg (sim_server demo_cfg [] 0)))"
    by (simp add: demo_cfg_def)
  show "host_lookup (sv_hostIndex (sim_server demo_cfg [] 0)) (r_Host (get_request ''elsewhere'' ''db'')) = None"
    by (simp add: host_lookup_def BuildHostIndex_def demo_cfg_def LastIndex_def)
qed simp

definition pair_cfg :: GatewayConfig where
  "pair_cfg = \<lparr>Gateway = demo_global, Containers = [mk_ctr ''web1'' '''' [], mk_ctr ''web2'' '''' []],
     Groups = [\<lparr>g_Name = ''web'', g_Host = ''web.localhost'', g_Strategy = ''round-robin'',
       g_Containers = [''web1'', ''web2'']\<rparr>]\<rparr>"

lemma pair_valid: "valid_config demo_libs pair_cfg"
proof -
  have "dep_rel (Containers pair_cfg) = {}"
    by (auto simp: pair_cfg_def dep_rel_def deps_of_def container_map_def split: option.splits if_splits)
  then have "acyclic (dep_rel (Containers pair_cfg))" by (simp add: acyclic_def)
  then show ?thesis unfolding valid_config_def
    by (simp add: pair_cfg_def demo_global_def resolveLocation_def ResolveLocation_def auth_ok_def group_ok_def
        container_ok_def nameSet_def groupMembers_def depTargets_def ctr_hosts_def)
qed

theorem picked_member_configured_witness:
  "\<exists>cfg. sv_containerMap (sim_server pair_cfg [] 0)
      (fst (Pick (hd (Groups pair_cfg)) (sv_groupRouter (sim_server pair_cfg [] 0)))) = Some cfg \<and>
    c_Name cfg \<in> {''web1'', ''web2''}"
proof -
  have "resolveGroup (get_request ''web.localhost:8080'' '''') (sim_server pair_cfg [] 0) = Some (hd (Groups pair_cfg))"
  proof -
    have "LastIndex (''web.localhost'' @ CHR '':'' # ''8080'') (CHR '':'') = Some (length ''web.localhost'')"
      by (rule LastIndex_append) simp
    then show ?thesis by (simp add: resolveGroup_def host_lookup_def BuildGroupHostIndex_def pair_cfg_def)
  qed
  from picked_member_configured [OF sim_consistent _ this] pair_valid show ?thesis
    by (auto simp: pair_cfg_def)
qed

theorem polling_answers_witness:
  "fst (handleHealth sim_outside (get_request ''app.localhost'' '''') (sim_server demo_cfg [] 0)) \<in>
     {json (HealthJSON ''running'' ''''), json (HealthJSON ''unknown'' '''')}"
proof -
  have "fst (allow_request sim_outside (get_request ''app.localhost'' '''') (sim_server demo_cfg [] 0))"
    by (simp add: allow_request_def newRateLimiter_def Let_def split: prod.split)
  moreover have "startStates (sv_manager (sim_server demo_cfg [] 0)) (c_Name (mk_ctr ''app'' ''app.localhost'' [''api''])) = None"
    by (simp add: NewContainerManager_def)
  ultimately show ?thesis using polling_answers [OF _ demo_routes(2)] by force
qed

lemma sim_status:
  "fst (on_mgr (on_io (GetContainerStatus sim_env c n)) s) =
     Inr (if n \<in> set (fst (world (mg_io (sv_manager s)))) then ''running'' else ''exited'')"
  "world (mg_io (sv_manager (snd (on_mgr (on_io (GetContainerStatus sim_env c n)) s)))) = world (mg_io (sv_manager s))"
  by (simp_all add: on_mgr_def on_io_def GetContainerStatus_def call_def)

lemma limiter_frame [simp]:
  "sv_rateLimiter (snd (on_mgr f s)) = sv_rateLimiter s"
  "sv_rateLimiter (mgr_do g s) = sv_rateLimiter s" "sv_rateLimiter (spawn t s) = sv_rateLimiter s"
  "sv_rateLimiter (snd (serveLoadingPage Q r cfg s)) = sv_rateLimiter s"
  "sv_rateLimiter (snd (with_metric Q n start rs)) = sv_rateLimiter (snd rs)"
  by (simp_all add: on_mgr_def mgr_do_def spawn_def serveLoadingPage_def with_metric_def clock_now_def split: prod.split)

lemma sim_half_up:
  "\<exists>resp s1. handleRequest sim_outside (get_request ''app.localhost'' '''') (sim_server demo_cfg [''app''] 0) = Some (resp, s1) \<and>
     sv_tasks s1 = [TaskDeps ''app'' (60 * second) (Containers demo_cfg)] \<and>
     sv_rateLimiter s1 = newRateLimiter (1 * second)"
proof -
  let ?r = "get_request ''app.localhost'' ''''" and ?s = "sim_server demo_cfg [''app''] 0"
    and ?c = "mk_ctr ''app'' ''app.localhost'' [''api'']"
  let ?rs = "with_metric sim_outside ''app'' 0 (serve_container sim_outside ?r ?c ?s)"
  have h: "handleRequest sim_outside ?r ?s = Some ?rs"
    by (simp add: handleRequest_def demo_routes sim_clock app_always_open Let_def NewContainerManager_def)
  obtain s2 where 2: "on_mgr (on_io (GetContainerStatus sim_env CtxRequest ''app'')) ?s = (Inr ''running'', s2)"
    and w2: "fst (world (mg_io (sv_manager s2))) = [''app'']" and c2: "sv_cfg s2 = demo_cfg" and t2: "sv_tasks s2 = []" and l2: "sv_rateLimiter s2 = newRateLimiter (1 * second)"
    using limiter_frame(1) [of "on_io (GetContainerStatus sim_env CtxRequest ''app'')" ?s] sim_status [of CtxRequest "''app''" ?s] on_mgr_io_fields(1,4) [of "GetContainerStatus sim_env CtxRequest ''app''" ?s]
    by (cases "on_mgr (on_io (GetContainerStatus sim_env CtxRequest ''app'')) ?s") (auto simp: NewContainerManager_def)
  obtain s3 where 3: "on_mgr (on_io (GetContainerStatus sim_env CtxRequest ''api'')) s2 = (Inr ''exited'', s3)"
    and t3: "sv_tasks s3 = []" and l3: "sv_rateLimiter s3 = newRateLimiter (1 * second)"
    using limiter_frame(1) [of "on_io (GetContainerStatus sim_env CtxRequest ''api'')" s2] l2 sim_status [of CtxRequest "''api''" s2] on_mgr_io_fields(1) [of "GetContainerStatus sim_env CtxRequest ''api''" s2] w2 t2
    by (cases "on_mgr (on_io (GetContainerStatus sim_env CtxRequest ''api'')) s2") auto
  have "sv_tasks (snd ?rs) = [TaskDeps ''app'' (60 * second) (Containers demo_cfg)] \<and>
      sv_rateLimiter (snd ?rs) = newRateLimiter (1 * second)"
    by (simp add: serve_container_def 2 serve_running_def 3 c2 t3 l3 GetConfig_def Let_def)
  with h show ?thesis by (metis prod.collapse)
qed

theorem running_target_stays_starting_witness:
  "\<exists>resp s1 res s2. handleRequest sim_outside (get_request ''app.localhost'' '''') (sim_server demo_cfg [''app''] 0) = Some (resp, s1) \<and>
     run_pending sim_outside 0 s1 = Some (res, s2) \<and>
     fst (handleHealth sim_outside (get_request ''app.localhost'' '''') s2) = json (HealthJSON ''starting'' '''')"
proof -
  let ?r = "get_request ''app.localhost'' ''''" and ?s = "sim_server demo_cfg [''app''] 0"
  obtain resp s1 where h: "handleRequest sim_outside ?r ?s = Some (resp, s1)"
    and t: "sv_tasks s1 = [TaskDeps ''app'' (60 * second) (Containers demo_cfg)]"
    and l: "sv_rateLimiter s1 = newRateLimiter (1 * second)"
    using sim_half_up by blast
  let ?s1 = "s1\<lparr>sv_tasks := []\<rparr>"
  obtain c s3 where c: "task_context sim_outside (60 * second) ?s1 = (c, s3)" by (meson surj_pair)
  obtain res m' where e: "EnsureDepsRunning sim_env c ''app'' (Containers demo_cfg) (sv_manager s3) = Some (res, m')"
    using EnsureDepsRunning_returns [OF sim_env_expires] by (metis surj_pair)
  let ?s2 = "s3\<lparr>sv_manager := m'\<rparr>"
  have rp: "run_pending sim_outside 0 s1 = Some (res, ?s2)"
    by (simp add: run_pending_def t run_task_def c on_mgr_opt_def e)
  have s3: "same_config s1 s3 \<and> sv_rateLimiter s3 = sv_rateLimiter s1"
    using c by (auto simp: task_context_def on_mgr_def same_config_def split: prod.splits)
  have same: "same_config ?s s1" using serves_config [OF serves_handleRequest [OF h]] .
  with s3 have "same_config ?s ?s2" by (simp add: same_config_def)
  then have rc: "resolveConfig ?r ?s2 = Some (mk_ctr ''app'' ''app.localhost'' [''api''])"
    using demo_routes(2) by (simp add: resolveConfig_same)
  have True: "fst (allow_request sim_outside ?r ?s2)"
    using s3 l by (simp add: allow_request_def newRateLimiter_def Let_def split: prod.split)
  have "fst (handleHealth sim_outside ?r ?s2) = json (HealthJSON ''starting'' '''')"
    using running_target_stays_starting [OF h _ _ rc _ True] t rp by simp
  with h rp show ?thesis by blast
qed

section \<open>Routing, upgrades and groups at the sample server\<close>

lemma strip_port: "LastIndex (''web.localhost:8080'') (CHR '':'') = Some 13"
  using LastIndex_append [of "CHR '':''" "''8080''" "''web.localhost''"] by simp

lemma pair_group:
  "resolveGroup (get_request ''web.localhost:8080'' n) (sim_server pair_cfg up k) = Some (hd (Groups pair_cfg))"
  by (simp add: resolveGroup_def host_lookup_def BuildGroupHostIndex_def pair_cfg_def strip_port)

lemma pair_first:
  "sv_containerMap (sim_server pair_cfg up k) (fst (Pick (hd (Groups pair_cfg)) (sv_groupRouter (sim_server pair_cfg up k)))) =
     Some (mk_ctr ''web1'' '''' [])"
  by (simp add: sim_server_def NewServer_def Pick_def NewGroupRouter_def BuildContainerMap_def container_map_def pair_cfg_def Let_def)

theorem routing_exact_witness:
  "host_leads_to (Groups pair_cfg) g_Host ''web.localhost:8080'' (hd (Groups pair_cfg)) \<and>
   resolveConfig (get_request ''elsewhere'' ''web2'') (sim_server pair_cfg [] 0) = Some (mk_ctr ''web2'' '''' [])"
proof -
  have v: "valid_config demo_libs (sv_cfg (sim_server pair_cfg [] 0))" by (simp add: pair_valid)
  have "host_leads_to (Groups pair_cfg) g_Host ''web.localhost:8080'' (hd (Groups pair_cfg))"
    using conjunct1 [OF routing_exact [OF sim_consistent v, of "get_request ''web.localhost:8080'' ''''" "hd (Groups pair_cfg)"]]
      pair_group by simp
  moreover have "resolveConfig (get_request ''elsewhere'' ''web2'') (sim_server pair_cfg [] 0) = Some (mk_ctr ''web2'' '''' [])"
    using conjunct1 [OF conjunct2 [OF routing_exact [OF sim_consistent v, of "get_request ''elsewhere'' ''web2''" _ "mk_ctr ''web2'' '''' []"]]]
    by (simp add: pair_cfg_def host_leads_to_def)
  ultimately show ?thesis by blast
qed

theorem websocket_never_tunnelled_witness:
  "\<exists>resp s'. handleRequest sim_outside (upgrade_request ''web.localhost:8080'') (sim_server pair_cfg [''web1''] 0) = Some (resp, s') \<and>
     (resp = http_Error [] ''WebSocket proxying not supported by this server'' 500 \<or> (\<exists>d. resp = html 502 (ErrorPage d)))"
proof -
  let ?r = "upgrade_request ''web.localhost:8080''" and ?s = "sim_server pair_cfg [''web1''] 0"
  let ?g = "hd (Groups pair_cfg)"
  have g: "resolveGroup ?r ?s = Some ?g"
    using pair_group [of "''''" "[''web1'']" 0] by (simp add: resolveGroup_def upgrade_request_def)
  have np: "\<not> internal_path (r_Path ?r)" by (simp add: upgrade_request_def)
  obtain resp s' where h: "handleRequest sim_outside ?r ?s = Some (resp, s')"
    using np g by (simp add: handleRequest_def) (metis surj_pair)
  have "found_running sim_outside ?r ?s (mk_ctr ''web1'' '''' [])"
    by (simp add: found_running_def g sim_clock sim_status pair_first NewContainerManager_def Let_def)
  with websocket_never_tunnelled [OF upgrade_websocket h] np h show ?thesis by blast
qed

definition shift_cfg :: GatewayConfig where
  "shift_cfg = \<lparr>Gateway = demo_global, Containers = [office],
     Groups = [\<lparr>g_Name = ''web'', g_Host = ''web.localhost'', g_Strategy = ''round-robin'', g_Containers = [''app'']\<rparr>]\<rparr>"

lemma shift_first:
  "sv_containerMap (sim_server shift_cfg up k) (fst (Pick (hd (Groups shift_cfg)) (sv_groupRouter (sim_server shift_cfg up k)))) =
     Some office"
  by (simp add: sim_server_def NewServer_def Pick_def BuildContainerMap_def container_map_def shift_cfg_def)

theorem group_bypasses_schedule_witness:
  "\<exists>resp s'. handleRequest sim_outside (get_request ''web.localhost'' '''') (sim_server shift_cfg [] 8715600) = Some (resp, s') \<and>
     (\<exists>d. resp = html 200 (LoadingPage d)) \<and> sv_tasks s' = [TaskGroup (hd (Groups shift_cfg))] \<and>
     GetStartState ''app'' (sv_manager s') = (''starting'', '''')"
proof -
  let ?r = "get_request ''web.localhost'' ''''" and ?s = "sim_server shift_cfg [] 8715600"
  let ?g = "hd (Groups shift_cfg)"
  have g: "resolveGroup ?r ?s = Some ?g"
    by (simp add: resolveGroup_def host_lookup_def BuildGroupHostIndex_def shift_cfg_def)
  obtain resp s' where h: "handleRequest sim_outside ?r ?s = Some (resp, s')"
    using g by (simp add: handleRequest_def) (metis surj_pair)
  obtain n where w: "IsInScheduleWindow demo_parse office (2421 * hour) (Some LocLocal) = Some (False, n)"
    using office_closed by blast
  have c: "fst (clock_now sim_outside ?s) = 2421 * hour" by (simp add: sim_clock NewContainerManager_def duration_defs)
  have l: "effective_loc demo_libs (resolveLocation demo_libs (ScheduleTimezone (Gateway shift_cfg))) office = Some LocLocal"
    by (simp add: effective_loc_def shift_cfg_def demo_global_def resolveLocation_def ResolveLocation_def)
  have p: "parse_cron demo_libs = demo_parse" by (simp add: demo_libs_def)
  have m: "sv_containerMap ?s (fst (Pick ?g (sv_groupRouter ?s))) = Some office" by (simp add: shift_first)
  have "Inr ''exited'' = fst (on_mgr (on_io (GetContainerStatus (o_env sim_outside) CtxRequest (c_Name office)))
      (snd (clock_now sim_outside (?s\<lparr>sv_groupRouter := snd (Pick ?g (sv_groupRouter ?s))\<rparr>))))"
    by (simp add: sim_clock sim_status NewContainerManager_def)
  from group_bypasses_schedule [OF h _ g m _ this] c w l p h show ?thesis by (auto simp: shift_cfg_def)
qed

end
