(* ===== verification/AdminAuth.thy ===== *)
theory AdminAuth
  imports Validation Http
begin

unbundle bit_operations_syntax

text \<open>
  The admin authentication of \<^verbatim>\<open>gateway/admin_auth.go\<close> with the base64 decoder of Go's
  standard library that it uses.
\<close>

section \<open>Base64\<close>

text \<open>
  \<^verbatim>\<open>base64.StdEncoding\<close>: the value of a character, the decoder and, as the specification
  of what a client sends, the encoder. The decoder skips line breaks wherever they are,
  wants the input in groups of four characters with padding, and does not look at the
  unused bits of a padded group.
\<close>

definition b64_alphabet :: string where
  "b64_alphabet = ''ABCDEFGHIJKLMNOPQRSTUVWXYZabcdefghijklmnopqrstuvwxyz0123456789+/''"

definition b64_value :: "char \<Rightarrow> nat option" where
  "b64_value c = IndexByte b64_alphabet c"

definition b64_bytes :: "nat \<Rightarrow> nat \<Rightarrow> nat \<Rightarrow> nat \<Rightarrow> string" where
  "b64_bytes a b c d =
     (let v = push_bit 18 a OR push_bit 12 b OR push_bit 6 c OR d
      in [char_of (drop_bit 16 v), char_of (drop_bit 8 v), char_of v])"

fun b64_quanta :: "string \<Rightarrow> string option" where
  "b64_quanta [] = Some []"
| "b64_quanta (a # b # c # d # rest) =
     (if d = CHR ''='' then
        (if rest \<noteq> [] then None
         else if c = CHR ''='' then
           (case (b64_value a, b64_value b) of
              (Some x, Some y) \<Rightarrow> Some (take 1 (b64_bytes x y 0 0))
            | _ \<Rightarrow> None)
         else
           (case (b64_value a, b64_value b, b64_value c) of
              (Some x, Some y, Some z) \<Rightarrow> Some (take 2 (b64_bytes x y z 0))
            | _ \<Rightarrow> None))
      else
        (case (b64_value a, b64_value b, b64_value c, b64_value d) of
           (Some x, Some y, Some z, Some w) \<Rightarrow>
             map_option (\<lambda>bs. b64_bytes x y z w @ bs) (b64_quanta rest)
         | _ \<Rightarrow> None))"
| "b64_quanta _ = None"

definition DecodeString :: "string \<Rightarrow> string option" where
  "DecodeString s = b64_quanta (filter (\<lambda>c. c \<noteq> CHR 0x0A \<and> c \<noteq> CHR 0x0D) s)"

definition b64_char :: "nat \<Rightarrow> char" where
  "b64_char n = b64_alphabet ! n"

fun b64_encode :: "string \<Rightarrow> string" where
  "b64_encode [] = []"
| "b64_encode [x] =
     (let v = of_char x :: nat
      in [b64_char (v div 4), b64_char (v mod 4 * 16), CHR ''='', CHR ''=''])"
| "b64_encode [x, y] =
     (let v = of_char x * 256 + of_char y :: nat
      in [b64_char (v div 1024), b64_char (v div 16 mod 64), b64_char (v mod 16 * 4), CHR ''=''])"
| "b64_encode (x # y # z # rest) =
     (let v = (of_char x * 256 + of_char y) * 256 + of_char z :: nat
      in [b64_char (v div 262144), b64_char (v div 4096 mod 64), b64_char (v div 64 mod 64), b64_char (v mod 64)] @
         b64_encode rest)"

lemma or_add: assumes "b < 2 ^ k" shows "push_bit k a OR b = a * 2 ^ k + (b :: nat)"
proof -
  have b: "take_bit k b = b" using assms by (simp add: take_bit_nat_eq_self)
  have "push_bit k a AND take_bit k b = 0" by (rule bit_eqI) (auto simp: bit_simps)
  then show ?thesis using b by (simp add: disjunctive_add_eq_or [symmetric] push_bit_eq_mult)
qed

lemma b64_bytes_arith:
  assumes "b < 64" and "c < 64" and "d < 64"
  shows "b64_bytes a b c d =
    [char_of (a * 4 + b div 16), char_of (b * 16 + c div 4), char_of (c * 64 + d)]"
proof -
  have "push_bit 6 c OR d = c * 64 + d" using assms(3) or_add [of d 6 c] by simp
  moreover have "push_bit 12 b OR (c * 64 + d) = b * 4096 + (c * 64 + d)"
    using assms(2,3) or_add [of "c * 64 + d" 12 b] by simp
  moreover have "push_bit 18 a OR (b * 4096 + (c * 64 + d)) = a * 262144 + (b * 4096 + (c * 64 + d))"
    using assms or_add [of "b * 4096 + (c * 64 + d)" 18 a] by simp
  ultimately have v: "push_bit 18 a OR push_bit 12 b OR push_bit 6 c OR d = a * 262144 + (b * 4096 + (c * 64 + d))"
    by (simp only: or.assoc)
  let ?r = "c * 64 + d" and ?v = "a * 262144 + (b * 4096 + (c * 64 + d))"
  have r: "?r < 4096" "?r div 64 = c" using assms by simp_all
  have q1: "?v div 4096 = a * 64 + b" using r(1) assms(1) by (simp add: div_nat_eqI)
  have "?v div 65536 = ?v div 4096 div 16" by (simp add: div_mult2_eq [symmetric])
  also have "\<dots> = a * 4 + b div 16" unfolding q1 by simp
  finally have 1: "?v div 65536 = a * 4 + b div 16" .
  have "?v div 64 = a * 4096 + (b * 64 + c)" using assms r by (simp add: div_nat_eqI)
  moreover have "?v div 256 = ?v div 64 div 4" by (simp add: div_mult2_eq [symmetric])
  ultimately have "?v div 256 = (b * 16 + c div 4) + 256 * (4 * a)" by simp
  then have 2: "?v div 256 mod 256 = (b * 16 + c div 4) mod 256" by (simp only: mod_mult_self2)
  have "?v = ?r + 256 * (1024 * a + 16 * b)" by simp
  then have 3: "?v mod 256 = ?r mod 256" by (simp only: mod_mult_self2)
  show ?thesis
    unfolding b64_bytes_def Let_def v
    using 1 2 3 by (simp add: drop_bit_eq_div)
qed

lemma b64_value_char:
  assumes "n < 64"
  shows "b64_value (b64_char n) = Some n"
proof -
  have "list_all (\<lambda>n. b64_value (b64_char n) = Some n) [0..<64]" by code_simp
  with assms show ?thesis by (simp add: list_all_iff)
qed

lemma b64_char_not_pad:
  assumes "n < 64"
  shows "b64_char n \<noteq> CHR ''='' \<and> b64_char n \<noteq> CHR 0x0A \<and> b64_char n \<noteq> CHR 0x0D"
proof -
  have "list_all (\<lambda>n. b64_char n \<noteq> CHR ''='' \<and> b64_char n \<noteq> CHR 0x0A \<and> b64_char n \<noteq> CHR 0x0D) [0..<64]"
    by code_simp
  with assms show ?thesis by (simp add: list_all_iff)
qed

text \<open>
  Three bytes as the two parts each of them is cut in: the digits of the 24-bit number are
  the four groups, and joining the groups gives the bytes back.
\<close>

lemma b64_cut:
  fixes v :: nat
  assumes "b < 64" and "c < 64" and "d < 64" and v: "v = ((a * 64 + b) * 64 + c) * 64 + d"
  shows "v div 262144 = a" and "v div 4096 mod 64 = b" and "v div 64 mod 64 = c" and "v mod 64 = d"
proof -
  have 1: "v div 64 = (a * 64 + b) * 64 + c" using assms by simp
  have "v div 4096 = v div 64 div 64" by (simp add: div_mult2_eq [symmetric])
  then have 2: "v div 4096 = a * 64 + b" using 1 assms by simp
  have "v div 262144 = v div 4096 div 64" by (simp add: div_mult2_eq [symmetric])
  then show "v div 262144 = a" using 2 assms by simp
  show "v div 4096 mod 64 = b" and "v div 64 mod 64 = c"
    unfolding 1 2 using assms(1,2) by (simp_all only: mod_mult_self3 mod_less)
  show "v mod 64 = d"
    unfolding v using assms(3) by (simp only: mod_mult_self3 mod_less)
qed

lemma b64_join:
  fixes a b0 b1 c0 c1 d :: nat
  assumes "b0 < 4" and "b1 < 16" and "c0 < 16" and "c1 < 4" and "d < 64"
  shows "b64_bytes a (b0 * 16 + b1) (c0 * 4 + c1) d =
    [char_of (a * 4 + b0), char_of (b1 * 16 + c0), char_of (c1 * 64 + d)]"
proof -
  have "(b0 * 16 + b1) * 16 + c0 = b1 * 16 + c0 + 256 * b0"
    and "(c0 * 4 + c1) * 64 + d = c1 * 64 + d + 256 * c0" by simp_all
  then have "((b0 * 16 + b1) * 16 + c0) mod 256 = (b1 * 16 + c0) mod 256"
    and "((c0 * 4 + c1) * 64 + d) mod 256 = (c1 * 64 + d) mod 256"
    by (simp_all only: mod_mult_self2)
  then show ?thesis
    using assms by (simp add: b64_bytes_arith)
qed

lemma byte_parts:
  assumes "h * k = (256 :: nat)" and "0 < k"
  obtains p q where "of_char (x :: char) = p * k + (q :: nat)" and "q < k" and "p < h"
    and "x = char_of (p * k + q)"
proof -
  have "of_char x < h * k" by (simp add: assms(1))
  then have "of_char x div k < h" using assms(2) by (simp add: less_mult_imp_div_less)
  moreover have "of_char x = of_char x div k * k + (of_char x mod k :: nat)" by simp
  ultimately show ?thesis
    using that [of "of_char x div k" "of_char x mod k"] assms(2) by simp
qed

lemma b64_encode_quanta: "b64_quanta (b64_encode s) = Some s"
proof (induction s rule: b64_encode.induct)
  case 1
  then show ?case by simp
next
  case (2 x)
  obtain x1 x0 where x: "of_char x = x1 * 4 + (x0 :: nat)" "x0 < 4" "x1 < 64" "x = char_of (x1 * 4 + x0)"
    by (rule byte_parts [of 64 4 x]) simp_all
  then show ?case using b64_join [of x0 0 0 0 0 x1]
    by (simp add: b64_value_char b64_char_not_pad Let_def)
next
  case (3 x y)
  obtain x1 x0 where x: "of_char x = x1 * 4 + (x0 :: nat)" "x0 < 4" "x1 < 64" "x = char_of (x1 * 4 + x0)"
    by (rule byte_parts [of 64 4 x]) simp_all
  obtain y1 y0 where y: "of_char y = y1 * 16 + (y0 :: nat)" "y0 < 16" "y1 < 16" "y = char_of (y1 * 16 + y0)"
    by (rule byte_parts [of 16 16 y]) simp_all
  let ?v = "of_char x * 256 + of_char y :: nat"
  have "?v = (x1 * 64 + (x0 * 16 + y1)) * 16 + y0" using x y by simp
  then have "?v div 16 = x1 * 64 + (x0 * 16 + y1)" "?v mod 16 = y0"
    using y(2) by (simp_all only: mod_mult_self3 mod_less) simp
  moreover have "?v div 1024 = ?v div 16 div 64" by (simp add: div_mult2_eq [symmetric])
  ultimately have "?v div 1024 = x1" "?v div 16 mod 64 = x0 * 16 + y1" "?v mod 16 = y0"
    using x y by simp_all
  then show ?case using x y b64_join [of x0 y1 y0 0 0 x1]
    by (simp add: b64_value_char b64_char_not_pad Let_def)
next
  case (4 x y z rest)
  obtain x1 x0 where x: "of_char x = x1 * 4 + (x0 :: nat)" "x0 < 4" "x1 < 64" "x = char_of (x1 * 4 + x0)"
    by (rule byte_parts [of 64 4 x]) simp_all
  obtain y1 y0 where y: "of_char y = y1 * 16 + (y0 :: nat)" "y0 < 16" "y1 < 16" "y = char_of (y1 * 16 + y0)"
    by (rule byte_parts [of 16 16 y]) simp_all
  obtain z1 z0 where z: "of_char z = z1 * 64 + (z0 :: nat)" "z0 < 64" "z1 < 4" "z = char_of (z1 * 64 + z0)"
    by (rule byte_parts [of 4 64 z]) simp_all
  let ?v = "(of_char x * 256 + of_char y) * 256 + of_char z :: nat"
  have v: "?v = ((x1 * 64 + (x0 * 16 + y1)) * 64 + (y0 * 4 + z1)) * 64 + z0" using x y z by simp
  have "x0 * 16 + y1 < 64" "y0 * 4 + z1 < 64" using x(2) y(2,3) z(3) by simp_all
  note cut = this b64_cut [OF this z(2) v]
  have "b64_bytes x1 (x0 * 16 + y1) (y0 * 4 + z1) z0 = [x, y, z]"
    using b64_join [OF x(2) y(3,2) z(3,2), of x1] by (simp only: x(4) [symmetric] y(4) [symmetric] z(4) [symmetric])
  with 4 x(3) z(2) cut show ?case
    by (simp add: b64_value_char b64_char_not_pad Let_def del: distrib_right_numeral)
qed

lemma b64_encode_no_breaks: "c \<in> set (b64_encode s) \<Longrightarrow> c \<noteq> CHR 0x0A \<and> c \<noteq> CHR 0x0D"
proof -
  have ch: "b64_char n \<noteq> CHR 0x0A \<and> b64_char n \<noteq> CHR 0x0D" if "n < 64" for n
    using b64_char_not_pad [OF that] by blast
  have d: "of_char x div 4 < (64 :: nat)" "m mod 4 * 16 < (64 :: nat)" "m mod 16 * 4 < (64 :: nat)" for x :: char and m
    by (simp_all add: less_mult_imp_div_less)
  have e: "(m * 256 + n) div 1024 < 64" if "m < 256" "n < 256" for m n :: nat
    by (rule less_mult_imp_div_less) (use that in linarith)
  have f: "((m * 256 + n) * 256 + k) div 262144 < 64" if "m < 256" "n < 256" "k < 256" for m n k :: nat
    by (rule less_mult_imp_div_less) (use that in \<open>simp add: distrib_right\<close>)
  show "c \<in> set (b64_encode s) \<Longrightarrow> c \<noteq> CHR 0x0A \<and> c \<noteq> CHR 0x0D"
  proof (induction s rule: b64_encode.induct)
    case 1
    then show ?case by simp
  next
    case (2 x)
    then show ?case using ch d by (auto simp: Let_def)
  next
    case (3 x y)
    then show ?case using ch [OF e] ch [OF d(3)] nat_of_char_less_256 ch [of "_ mod 64"] unfolding b64_encode.simps Let_def
      by (elim set_ConsD [THEN disjE]) auto
  next
    case (4 x y z rest)
    then show ?case using ch [OF f] nat_of_char_less_256 ch [of "_ mod 64"] unfolding b64_encode.simps Let_def
      by auto
  qed
qed

lemma DecodeString_b64_encode: "DecodeString (b64_encode s) = Some s"
proof -
  have "filter (\<lambda>c. c \<noteq> CHR 0x0A \<and> c \<noteq> CHR 0x0D) (b64_encode s) = b64_encode s"
    by (rule filter_True) (use b64_encode_no_breaks in blast)
  then show ?thesis by (simp add: DecodeString_def b64_encode_quanta)
qed

section \<open>Credentials\<close>

text \<open>
  \<^verbatim>\<open>subtle.ConstantTimeCompare\<close> on equally long inputs collects the differing bits of all
  positions before it looks at them.
\<close>

fun differing_bits :: "string \<Rightarrow> string \<Rightarrow> 8 word" where
  "differing_bits (x # xs) (y # ys) = (of_char x XOR of_char y) OR differing_bits xs ys"
| "differing_bits _ _ = 0"

definition ConstantTimeCompare :: "string \<Rightarrow> string \<Rightarrow> int" where
  "ConstantTimeCompare x y =
     (if length x \<noteq> length y then 0 else if differing_bits x y = 0 then 1 else 0)"

lemma or_eq_0_word: "(a :: 'a::len word) OR b = 0 \<longleftrightarrow> a = 0 \<and> b = 0"
  by (auto simp: bit_eq_iff bit_simps)

lemma xor_eq_0_word: "(a :: 'a::len word) XOR b = 0 \<longleftrightarrow> a = b"
  by (auto simp: bit_eq_iff bit_simps)

lemma of_char_word_inject: "of_char (x :: char) = (of_char y :: 8 word) \<longleftrightarrow> x = y"
proof
  assume "of_char x = (of_char y :: 8 word)"
  then have "(of_nat (of_char x) :: 8 word) = of_nat (of_char y)" by (simp add: of_nat_of_char)
  then have "of_char x mod 256 = (of_char y mod 256 :: nat)"
    by (simp add: word_of_nat_eq_iff take_bit_eq_mod)
  then show "x = y" by simp
qed simp

lemma differing_bits_0: "length x = length y \<Longrightarrow> differing_bits x y = 0 \<longleftrightarrow> x = y"
  by (induction x y rule: list_induct2) (auto simp: or_eq_0_word xor_eq_0_word of_char_word_inject)

lemma ConstantTimeCompare_eq_1 [simp]: "ConstantTimeCompare x y = 1 \<longleftrightarrow> x = y"
  by (auto simp: ConstantTimeCompare_def differing_bits_0)

definition checkBasicAuth :: "request \<Rightarrow> string \<Rightarrow> string \<Rightarrow> bool" where
  "checkBasicAuth r wantUser wantPass =
     (let auth = r_Header r ''Authorization''
      in if \<not> HasPrefix auth ''Basic '' then False
         else case DecodeString (drop (length ''Basic '') auth) of
                None \<Rightarrow> False
              | Some decoded \<Rightarrow>
                  (let parts = SplitN2 decoded (CHR '':'')
                   in if length parts \<noteq> 2 then False
                      else let userOK = ConstantTimeCompare (parts ! 0) wantUser = 1;
                               passOK = ConstantTimeCompare (parts ! 1) wantPass = 1
                           in userOK \<and> passOK))"

definition checkBearerToken :: "request \<Rightarrow> string \<Rightarrow> bool" where
  "checkBearerToken r wantToken =
     (let auth = r_Header r ''Authorization''
      in if \<not> HasPrefix auth ''Bearer '' then False
         else let got = drop (length ''Bearer '') auth
              in ConstantTimeCompare got wantToken = 1)"

section \<open>The middleware\<close>

definition realm :: string where
  "realm = ''Basic realm='' @ [CHR 0x22] @ ''DAG Admin'' @ [CHR 0x22]"

definition adminAuthMiddleware :: "('s, 'p) handler \<Rightarrow> AdminAuthConfig \<Rightarrow> ('s, 'p) handler" where
  "adminAuthMiddleware nxt cfg =
     (if a_Method cfg = ''none'' then nxt
      else if a_Method cfg = ''basic'' then
        (\<lambda>r s. if \<not> checkBasicAuth r (a_Username cfg) (a_Password cfg)
               then Some (http_Error [(''WWW-Authenticate'', realm)] ''Unauthorized'' 401, s)
               else nxt r s)
      else if a_Method cfg = ''bearer'' then
        (\<lambda>r s. if \<not> checkBearerToken r (a_Token cfg)
               then Some (http_Error [] ''Unauthorized'' 401, s)
               else nxt r s)
      else nxt)"

text \<open>
  The specification: the requests a configuration lets through, in terms of what a client
  sends and not of how the header is taken apart.
\<close>

definition authorized :: "AdminAuthConfig \<Rightarrow> request \<Rightarrow> bool" where
  "authorized cfg r \<longleftrightarrow>
     (if a_Method cfg = ''basic'' then
        CHR '':'' \<notin> set (a_Username cfg) \<and>
        (\<exists>enc. r_Header r ''Authorization'' = ''Basic '' @ enc \<and>
           DecodeString enc = Some (a_Username cfg @ CHR '':'' # a_Password cfg))
      else if a_Method cfg = ''bearer'' then
        r_Header r ''Authorization'' = ''Bearer '' @ a_Token cfg
      else True)"

lemma split_first_inject:
  assumes "(c :: char) \<notin> set u" and "c \<notin> set u'"
  shows "u @ c # v = u' @ c # v' \<longleftrightarrow> u = u' \<and> v = v'"
proof
  assume "u @ c # v = u' @ c # v'"
  then have "SplitN2 (u @ c # v) c = SplitN2 (u' @ c # v') c" by simp
  then show "u = u' \<and> v = v'" using assms by (simp add: SplitN2_append)
qed simp

lemma SplitN2_two:
  "length (SplitN2 s c) = 2 \<and> SplitN2 s c ! 0 = u \<and> SplitN2 s c ! 1 = v \<longleftrightarrow> c \<notin> set u \<and> s = u @ c # v"
proof (cases "c \<in> set s")
  case True
  then obtain h t where s: "s = h @ c # t" "c \<notin> set h" using split_list_first by fastforce
  have "h @ c # t = u @ c # v \<longleftrightarrow> h = u \<and> t = v" if "c \<notin> set u"
    by (rule split_first_inject [OF s(2) that])
  then have "c \<notin> set u \<and> s = u @ c # v \<longleftrightarrow> h = u \<and> t = v"
    unfolding s(1) using s(2) by blast
  moreover have "SplitN2 s c = [h, t]" using s by (simp add: SplitN2_append)
  ultimately show ?thesis by simp
next
  case False
  then have "length (SplitN2 s c) \<noteq> 2" by (simp add: SplitN2_def)
  moreover have "s \<noteq> u @ c # v" using False by auto
  ultimately show ?thesis by blast
qed

lemma HasPrefix_drop: "HasPrefix s p \<Longrightarrow> s = p @ drop (length p) s"
  by (metis HasPrefix_def append_take_drop_id)

lemma checkBasicAuth_iff:
  "checkBasicAuth r u p \<longleftrightarrow> CHR '':'' \<notin> set u \<and>
     (\<exists>enc. r_Header r ''Authorization'' = ''Basic '' @ enc \<and> DecodeString enc = Some (u @ CHR '':'' # p))"
    (is "?l \<longleftrightarrow> ?c \<and> (\<exists>enc. ?a = _ \<and> _)")
proof (cases "HasPrefix ?a ''Basic ''")
  case True
  then obtain enc where a: "?a = ''Basic '' @ enc" unfolding HasPrefix_iff by blast
  have "?l \<longleftrightarrow> (case DecodeString enc of None \<Rightarrow> False | Some d \<Rightarrow>
      length (SplitN2 d (CHR '':'')) = 2 \<and> SplitN2 d (CHR '':'') ! 0 = u \<and> SplitN2 d (CHR '':'') ! 1 = p)"
    using True unfolding checkBasicAuth_def Let_def a
    by (auto simp: HasPrefix_def split: option.splits)
  then show ?thesis unfolding a SplitN2_two by (auto split: option.splits)
next
  case False
  then show ?thesis by (auto simp: checkBasicAuth_def HasPrefix_iff)
qed

lemma checkBearerToken_iff: "checkBearerToken r t \<longleftrightarrow> r_Header r ''Authorization'' = ''Bearer '' @ t"
proof (cases "HasPrefix (r_Header r ''Authorization'') ''Bearer ''")
  case True
  then show ?thesis using HasPrefix_drop [OF True] by (auto simp: checkBearerToken_def HasPrefix_iff)
next
  case False
  then show ?thesis by (auto simp: checkBearerToken_def HasPrefix_iff)
qed

lemma adminAuthMiddleware_spec:
  "adminAuthMiddleware nxt cfg r s =
     (if authorized cfg r then nxt r s
      else Some (http_Error (if a_Method cfg = ''basic'' then [(''WWW-Authenticate'', realm)] else [])
              ''Unauthorized'' 401, s))"
  by (auto simp: adminAuthMiddleware_def authorized_def checkBasicAuth_iff checkBearerToken_iff)

text \<open>
  An admin handler runs exactly for the requests its configuration lets
  through; every other request is answered with status 401 and no state changes.
\<close>

theorem admin_handlers_guarded:
  "adminAuthMiddleware nxt cfg r s =
     (if authorized cfg r then nxt r s
      else Some (http_Error (if a_Method cfg = ''basic'' then [(''WWW-Authenticate'', realm)] else [])
              ''Unauthorized'' 401, s))"
  by (rule adminAuthMiddleware_spec)

text \<open>
  C38 (roundtrip): credentials encoded the way clients do (RFC 7617) are decoded to what was
  sent, so exactly the configured user and password get in.
\<close>

theorem basic_credentials_roundtrip:
  assumes "CHR '':'' \<notin> set user"
    and "r_Header r ''Authorization'' = ''Basic '' @ b64_encode (user @ CHR '':'' # pass)"
  shows "checkBasicAuth r wantUser wantPass \<longleftrightarrow> user = wantUser \<and> pass = wantPass"
proof -
  have "checkBasicAuth r wantUser wantPass \<longleftrightarrow>
      CHR '':'' \<notin> set wantUser \<and> user @ CHR '':'' # pass = wantUser @ CHR '':'' # wantPass"
    using assms(2) by (auto simp: checkBasicAuth_iff DecodeString_b64_encode)
  also have "\<dots> \<longleftrightarrow> user = wantUser \<and> pass = wantPass"
    using assms(1) split_first_inject [of "CHR '':''" user wantUser] by auto
  finally show ?thesis .
qed

definition auth_request :: "string \<Rightarrow> request" where
  "auth_request v =
     \<lparr>r_Method = ''GET'', r_Host = ''gw'', r_Path = ''/_status'', r_RawQuery = '''', r_Query = (\<lambda>_. ''''),
      r_Header = (\<lambda>h. if h = ''Authorization'' then v else ''''), r_RemoteAddr = ''10.0.0.1:4711''\<rparr>"

theorem basic_credentials_roundtrip_witness:
  "b64_encode ''ops:a:b'' = ''b3BzOmE6Yg=='' \<and>
   checkBasicAuth (auth_request (''Basic '' @ b64_encode ''ops:a:b'')) ''ops'' ''a:b''"
proof -
  have "checkBasicAuth (auth_request (''Basic '' @ b64_encode (''ops'' @ CHR '':'' # ''a:b''))) ''ops'' ''a:b''"
    by (subst basic_credentials_roundtrip [of "''ops''" _ "''a:b''"]) (simp_all add: auth_request_def)
  moreover have "b64_encode ''ops:a:b'' = ''b3BzOmE6Yg==''"
    by (simp add: b64_char_def b64_alphabet_def Let_def)
  ultimately show ?thesis by simp
qed

text \<open>
  A configured username with a colon passes validation, and nobody can log in
  with it: the decoded credentials are cut at the first colon.
\<close>

theorem colon_username_locks_out:
  assumes "a_Method cfg = ''basic''" and "CHR '':'' \<in> set (a_Username cfg)" and "a_Password cfg \<noteq> ''''"
  shows "check_auth cfg = None \<and>
    (\<forall>r s. adminAuthMiddleware nxt cfg r s = Some (http_Error [(''WWW-Authenticate'', realm)] ''Unauthorized'' 401, s))"
  using assms by (auto simp: check_auth_def adminAuthMiddleware_spec authorized_def)

theorem colon_username_locks_out_witness:
  "check_auth \<lparr>a_Method = ''basic'', a_Username = ''team:ops'', a_Password = ''x'', a_Token = ''''\<rparr> = None \<and>
   (\<forall>r (s :: nat). p_Status (fst (the (adminAuthMiddleware (\<lambda>r s. Some (http_Error [] ''ok'' 200 :: unit response, Suc s))
      \<lparr>a_Method = ''basic'', a_Username = ''team:ops'', a_Password = ''x'', a_Token = ''''\<rparr> r s))) = 401)"
  using colon_username_locks_out [of "\<lparr>a_Method = ''basic'', a_Username = ''team:ops'', a_Password = ''x'', a_Token = ''''\<rparr>"
      "\<lambda>r s. Some (http_Error [] ''ok'' 200 :: unit response, Suc s)"]
  by (auto simp: http_Error_def)

end
