(* ===== verification/Dashboard.thy ===== *)
theory Dashboard
  imports Serving AdminAuth
begin

text \<open>
  The dashboard of \<^verbatim>\<open>gateway/server.go\<close> (status page and API, wake, topology) and the request
  multiplexer that \<^verbatim>\<open>Server.Start\<close> builds, with the authentication in front of the admin
  endpoints.
\<close>

section \<open>Status\<close>

definition gatewayVersion :: string where
  "gatewayVersion = ''0.3.0''"

definition handleStatusPage :: "('w, 'c) server \<Rightarrow> reply \<times> ('w, 'c) server" where
  "handleStatusPage s = (html 200 (StatusPage gatewayVersion), s)"

text \<open>The schedule fields of an entry: the downtime flag and the next start.\<close>

definition schedule_fields :: "('w, 'c) outside \<Rightarrow> location option \<Rightarrow> ContainerConfig \<Rightarrow> time \<Rightarrow> (bool \<times> string) option" where
  "schedule_fields Q schedLoc c t =
     (if c_ScheduleStart c \<noteq> '''' \<and> c_ScheduleStop c \<noteq> '''' then
        (let loc = effective_loc (o_libs Q) schedLoc c in
         map_option (\<lambda>(allowed, nextStart). (\<not> allowed, if nextStart \<noteq> 0 then o_fmt_time Q loc nextStart else ''''))
           (IsInScheduleWindow (parse_cron (o_libs Q)) c t loc))
      else Some (False, ''''))"

definition status_entry :: "('w, 'c) outside \<Rightarrow> ContainerConfig \<Rightarrow> ('w, 'c) server \<Rightarrow>
    (statusContainerJSON \<times> ('w, 'c) server) option" where
  "status_entry Q c s =
     (let startState = fst (GetStartState (c_Name c) (sv_manager s)) in
      case on_mgr (on_io (InspectContainer (o_env Q) (o_parse_time Q) CtxRequest (c_Name c))) s of
        (info, s1) \<Rightarrow>
          (case clock_now Q s1 of
             (t, s2) \<Rightarrow>
               (let seen = GetLastSeen (c_Name c) (sv_manager s2) in
                map_option (\<lambda>(down, nxt).
                  (\<lparr>st_Name = c_Name c, st_Host = c_Host c,
                    st_Status = (case info of Inl _ \<Rightarrow> ''unknown'' | Inr i \<Rightarrow> ci_Status i),
                    st_StartState = startState,
                    st_Image = (case info of Inl _ \<Rightarrow> ''?'' | Inr i \<Rightarrow> ci_Image i),
                    st_Icon = c_Icon c, st_TargetPort = c_TargetPort c,
                    st_StartTimeout = o_fmt_duration Q (c_StartTimeout c),
                    st_IdleTimeout = o_fmt_duration Q (c_IdleTimeout c),
                    st_StartedAt = (case info of Inl _ \<Rightarrow> None
                      | Inr i \<Rightarrow> if ci_StartedAt i = 0 then None else Some (o_fmt_rfc3339 Q (ci_StartedAt i))),
                    st_LastRequest = map_option (o_fmt_rfc3339 Q) seen,
                    st_IdleTimeoutSec = Seconds_int64 (c_IdleTimeout c),
                    st_IdleRemainingSec = calcIdleRemaining (c_IdleTimeout c)
                      (case seen of Some u \<Rightarrow> u | None \<Rightarrow> 0) (seen \<noteq> None) t,
                    st_Network = c_Network c,
                    st_ScheduleStart = c_ScheduleStart c, st_ScheduleStop = c_ScheduleStop c,
                    st_ScheduleTimezone = c_ScheduleTimezone c,
                    st_ScheduledDowntime = down, st_NextScheduledStart = nxt\<rparr>, s2))
                  (schedule_fields Q (sv_schedLoc s2) c t))))"

fun status_entries :: "('w, 'c) outside \<Rightarrow> ContainerConfig list \<Rightarrow> ('w, 'c) server \<Rightarrow>
    (statusContainerJSON list \<times> ('w, 'c) server) option" where
  "status_entries Q [] s = Some ([], s)"
| "status_entries Q (c # cs) s =
     (case status_entry Q c s of
        None \<Rightarrow> None
      | Some (e, s1) \<Rightarrow> map_option (\<lambda>(es, s2). (e # es, s2)) (status_entries Q cs s1))"

definition handleStatusAPI :: "('w, 'c) outside \<Rightarrow> request \<Rightarrow> ('w, 'c) server \<Rightarrow> (reply \<times> ('w, 'c) server) option" where
  "handleStatusAPI Q r s =
     (case allow_request Q r s of
        (False, s1) \<Rightarrow> Some (too_many, s1)
      | (True, s1) \<Rightarrow>
          (let cfg = GetConfig s1 in
           case clock_now Q s1 of
             (t, s2) \<Rightarrow>
               map_option (\<lambda>(es, s3). (json (StatusJSON (o_fmt_rfc3339 Q t) es), s3))
                 (status_entries Q (Containers cfg) s2)))"

section \<open>Wake\<close>

definition validateOrigin :: "('w, 'c) outside \<Rightarrow> request \<Rightarrow> bool" where
  "validateOrigin Q r =
     (let origin = r_Header r ''Origin''
      in if origin = '''' then True
         else case o_url_host Q origin of None \<Rightarrow> False | Some h \<Rightarrow> h = r_Host r)"

definition handleStatusWake :: "('w, 'c) outside \<Rightarrow> request \<Rightarrow> ('w, 'c) server \<Rightarrow> reply \<times> ('w, 'c) server" where
  "handleStatusWake Q r s =
     (if r_Method r \<noteq> ''POST'' then (http_Error [] ''method not allowed'' 405, s)
      else if \<not> validateOrigin Q r then (http_Error [] ''cross-origin request blocked'' 403, s)
      else
        (case allow_request Q r s of
           (False, s1) \<Rightarrow> (too_many, s1)
         | (True, s1) \<Rightarrow>
             (let name = r_Query r ''container'' in
              if name = '''' then (bad_request ''missing container parameter'', s1)
              else
                (case find (\<lambda>c. c_Name c = name) (Containers (GetConfig s1)) of
                   None \<Rightarrow> (bad_request ''unknown container'', s1)
                 | Some targetCfg \<Rightarrow>
                     (json (OkJSON True),
                      spawn (TaskWake targetCfg) (mgr_do (InitStartState (c_Name targetCfg)) s1))))))"

section \<open>Topology\<close>

text \<open>What is known of each container by name; a later entry of the list replaces an earlier one.\<close>

type_synonym docker_info = "string \<times> string \<times> string option"

fun inspect_all :: "('w, 'c) outside \<Rightarrow> ContainerConfig list \<Rightarrow> (string \<Rightarrow> docker_info option) \<Rightarrow> ('w, 'c) server \<Rightarrow>
    (string \<Rightarrow> docker_info option) \<times> ('w, 'c) server" where
  "inspect_all Q [] m s = (m, s)"
| "inspect_all Q (c # cs) m s =
     (case on_mgr (on_io (InspectContainer (o_env Q) (o_parse_time Q) CtxRequest (c_Name c))) s of
        (info, s1) \<Rightarrow>
          inspect_all Q cs (m(c_Name c \<mapsto>
            (case info of
               Inl _ \<Rightarrow> (''unknown'', '''', None)
             | Inr i \<Rightarrow> (ci_Status i, ci_Image i,
                 if ci_StartedAt i = 0 then None else Some (o_fmt_rfc3339 Q (ci_StartedAt i)))))) s1)"

definition topology_entry :: "('w, 'c) outside \<Rightarrow> (string \<Rightarrow> docker_info option) \<Rightarrow> 'w mgr \<Rightarrow> ContainerConfig \<Rightarrow>
    topologyContainerJSON" where
  "topology_entry Q infoMap m c =
     (let di = (case infoMap (c_Name c) of None \<Rightarrow> ('''', '''', None) | Some d \<Rightarrow> d)
      in \<lparr>tp_Name = c_Name c, tp_Host = c_Host c, tp_Status = fst di, tp_Image = fst (snd di),
          tp_Icon = c_Icon c, tp_TargetPort = c_TargetPort c, tp_HealthPath = c_HealthPath c,
          tp_DependsOn = c_DependsOn c, tp_StartedAt = snd (snd di),
          tp_LastRequest = map_option (o_fmt_rfc3339 Q) (GetLastSeen (c_Name c) m),
          tp_IdleTimeout = o_fmt_duration Q (c_IdleTimeout c),
          tp_ScheduleStart = c_ScheduleStart c, tp_ScheduleStop = c_ScheduleStop c\<rparr>)"

definition topology_group :: "GroupConfig \<Rightarrow> topologyGroupJSON" where
  "topology_group g = \<lparr>tg_Name = g_Name g, tg_Host = g_Host g, tg_Containers = g_Containers g\<rparr>"

definition handleTopology :: "('w, 'c) outside \<Rightarrow> ('w, 'c) server \<Rightarrow> reply \<times> ('w, 'c) server" where
  "handleTopology Q s =
     (let cfg = GetConfig s in
      case inspect_all Q (Containers cfg) Map.empty s of
        (infoMap, s1) \<Rightarrow>
          (html 200 (TopologyPage
             \<lparr>tl_Containers = map (topology_entry Q infoMap (sv_manager s1)) (Containers cfg),
              tl_Groups = map topology_group (Groups cfg)\<rparr>), s1))"

section \<open>The multiplexer\<close>

text \<open>
  \<^verbatim>\<open>path.Clean\<close> on a rooted path, and \<^verbatim>\<open>http.ServeMux\<close>'s use of it: a request whose path is not
  clean is redirected, except with method \<^verbatim>\<open>CONNECT\<close>. The exact patterns come before \<^verbatim>\<open>/\<close>.
\<close>

fun clean_segments :: "string list \<Rightarrow> string list \<Rightarrow> string list" where
  "clean_segments acc [] = acc"
| "clean_segments acc (x # xs) =
     (if x = '''' \<or> x = ''.'' then clean_segments acc xs
      else if x = ''..'' then clean_segments (butlast acc) xs
      else clean_segments (acc @ [x]) xs)"

definition cleanPath :: "string \<Rightarrow> string" where
  "cleanPath p =
     (if p = '''' then ''/''
      else
        (let np = CHR ''/'' # Join (clean_segments [] (Split p (CHR ''/''))) ''/''
         in if last p = CHR ''/'' \<and> np \<noteq> ''/'' then np @ ''/'' else np))"

definition admin_paths :: "string list" where
  "admin_paths = [''/_status'', ''/_status/api'', ''/_status/wake'', ''/_metrics'', ''/_topology'']"

text \<open>The admin endpoint of a path; the metrics are what the Prometheus registry holds.\<close>

definition admin_handler :: "('w, 'c) outside \<Rightarrow> string \<Rightarrow> (('w, 'c) server, payload) handler option" where
  "admin_handler Q path =
     (if path = ''/_status'' then Some (\<lambda>r s. Some (handleStatusPage s))
      else if path = ''/_status/api'' then Some (handleStatusAPI Q)
      else if path = ''/_status/wake'' then Some (\<lambda>r s. Some (handleStatusWake Q r s))
      else if path = ''/_metrics'' then
        Some (\<lambda>r s. Some (\<lparr>p_Status = 200, p_Header = [],
           p_Body = Payload (Metrics (trace (mg_io (sv_manager s))))\<rparr>, s))
      else if path = ''/_topology'' then Some (\<lambda>r s. Some (handleTopology Q s))
      else None)"

definition serve :: "('w, 'c) outside \<Rightarrow> AdminAuthConfig \<Rightarrow> (('w, 'c) server, payload) handler" where
  "serve Q authCfg r s =
     (let path = r_Path r in
      if r_Method r \<noteq> ''CONNECT'' \<and> cleanPath path \<noteq> path then
        (let url = o_url_string Q (cleanPath path) (r_RawQuery r)
         in Some (\<lparr>p_Status = 301, p_Header = [(''Location'', url)], p_Body = Payload (Redirect url)\<rparr>, s))
      else if path = ''/_health'' then Some (handleHealth Q r s)
      else if path = ''/_logs'' then Some (handleLogs Q r s)
      else
        (case admin_handler Q path of
           Some h \<Rightarrow> adminAuthMiddleware h authCfg r s
         | None \<Rightarrow> handleRequest Q r s))"

lemma admin_handler_dom: "admin_handler Q p \<noteq> None \<longleftrightarrow> p \<in> set admin_paths"
  by (simp add: admin_handler_def admin_paths_def)

section \<open>The contract of every endpoint\<close>

locale quiet_handler =
  fixes handle :: "(('w, 'c) server, payload) handler"
  assumes handle_serves: "handle r s = Some (resp, s') \<Longrightarrow> serves UNIV s s'"
begin

text \<open>The middleware keeps the contract.\<close>

lemma guarded_serves: "adminAuthMiddleware handle cfg r s = Some (resp, s') \<Longrightarrow> serves UNIV s s'"
  using handle_serves by (auto simp: adminAuthMiddleware_spec split: if_splits)

lemma handle_quiet:
  "handle r s = Some (resp, s') \<Longrightarrow>
   starts (trace (mg_io (sv_manager s'))) = starts (trace (mg_io (sv_manager s))) \<and>
   stop_calls (trace (mg_io (sv_manager s'))) = stop_calls (trace (mg_io (sv_manager s)))"
  using handle_serves by (fastforce simp: serves_def effect_def)

end

lemma serves_inspect:
  "on_mgr (on_io (InspectContainer E pt c n)) s = (r, s') \<Longrightarrow> serves A s s'"
  by (erule serves_on_mgr) (auto elim!: on_io_cases simp: effect_def dest!: inspect_op.run_trace)

lemma status_entry_serves: "status_entry Q c s = Some (e, s') \<Longrightarrow> serves A s s'"
proof -
  assume a: "status_entry Q c s = Some (e, s')"
  obtain i s1 where i: "on_mgr (on_io (InspectContainer (o_env Q) (o_parse_time Q) CtxRequest (c_Name c))) s = (i, s1)"
    by (meson surj_pair)
  obtain t s2 where t: "clock_now Q s1 = (t, s2)" by (meson surj_pair)
  have "s' = s2" using a i t by (auto simp: status_entry_def Let_def)
  then show ?thesis using serves_trans [OF serves_inspect [OF i] serves_clock [OF t]] by simp
qed

lemma status_entries_serves: "status_entries Q cs s = Some (es, s') \<Longrightarrow> serves A s s'"
  by (induction cs arbitrary: es s) (auto dest: status_entry_serves intro: serves_trans split: option.splits)

lemma handleStatusAPI_serves: "handleStatusAPI Q r s = Some (resp, s') \<Longrightarrow> serves UNIV s s'"
proof -
  assume a: "handleStatusAPI Q r s = Some (resp, s')"
  obtain b s1 where b: "allow_request Q r s = (b, s1)" by (meson surj_pair)
  obtain t s2 where t: "clock_now Q s1 = (t, s2)" by (meson surj_pair)
  note 1 = serves_allow_request [OF b] and 2 = serves_clock [OF t]
  show ?thesis
    using a b t serves_trans [OF 1 serves_trans [OF 2 status_entries_serves]] 1
    by (cases b) (auto simp: handleStatusAPI_def Let_def)
qed

lemma inspect_all_serves: "inspect_all Q cs m s = (m', s') \<Longrightarrow> serves A s s'"
  by (induction cs arbitrary: m s) (auto dest: serves_inspect intro: serves_trans split: prod.splits)

lemma handleStatusWake_serves: "serves UNIV s (snd (handleStatusWake Q r s))"
proof -
  obtain b s1 where b: "allow_request Q r s = (b, s1)" by (meson surj_pair)
  note 1 = serves_allow_request [OF b, of UNIV]
  have "serves UNIV s (spawn t (mgr_do (InitStartState n) s1))" for t n
    using serves_trans [OF serves_trans [OF 1 serves_InitStartState] serves_spawn] .
  then show ?thesis using b 1
    by (auto simp: handleStatusWake_def Let_def split: bool.split option.split)
qed

lemma handleHealth_serves: "serves UNIV s (snd (handleHealth Q r s))"
proof -
  obtain b s1 where b: "allow_request Q r s = (b, s1)" by (meson surj_pair)
  note 1 = serves_allow_request [OF b, of UNIV]
  have "serves UNIV s (snd (on_mgr (on_io (GetContainerStatus E c n)) s1))" for E c n
    using serves_trans [OF 1 serves_status] by (metis prod.collapse)
  then show ?thesis using b 1
    by (auto simp: handleHealth_def split_beta split: bool.split option.split)
qed

lemma serves_logs:
  "on_mgr (on_io (GetContainerLogs E c n k)) s = (r, s') \<Longrightarrow> serves A s s'"
proof (erule serves_on_mgr)
  fix m'
  assume "on_io (GetContainerLogs E c n k) (sv_manager s) = (r, m')"
  then show "effect A [] [] (sv_manager s) m'"
    by (auto elim!: on_io_cases simp: effect_def GetContainerLogs_def split: prod.splits sum.splits dest!: trace_call)
qed

lemma handleLogs_serves: "serves UNIV s (snd (handleLogs Q r s))"
proof -
  obtain b s1 where b: "allow_request Q r s = (b, s1)" by (meson surj_pair)
  note 1 = serves_allow_request [OF b, of UNIV]
  have "serves UNIV s (snd (on_mgr (on_io (GetContainerLogs E c n k)) s1))" for E c n k
    using serves_trans [OF 1 serves_logs] by (metis prod.collapse)
  then show ?thesis using b 1
    by (auto simp: handleLogs_def split_beta split: bool.split option.split logs_result.split)
qed

interpretation page: quiet_handler "\<lambda>r s. Some (handleStatusPage s)"
  by unfold_locales (simp add: handleStatusPage_def)

interpretation api: quiet_handler "handleStatusAPI Q" for Q
  by unfold_locales (rule handleStatusAPI_serves)

interpretation waking: quiet_handler "\<lambda>r s. Some (handleStatusWake Q r s)" for Q
  by unfold_locales (metis handleStatusWake_serves option.inject snd_conv)

interpretation metrics: quiet_handler "\<lambda>r s. Some (\<lparr>p_Status = 200, p_Header = [],
    p_Body = Payload (Metrics (trace (mg_io (sv_manager s))))\<rparr>, s)"
  by unfold_locales simp

interpretation topology: quiet_handler "\<lambda>r s. Some (handleTopology Q s)" for Q
  by unfold_locales (auto simp: handleTopology_def Let_def dest: inspect_all_serves split: prod.splits)

interpretation health: quiet_handler "\<lambda>r s. Some (handleHealth Q r s)" for Q
  by unfold_locales (metis handleHealth_serves option.inject snd_conv)

interpretation logs: quiet_handler "\<lambda>r s. Some (handleLogs Q r s)" for Q
  by unfold_locales (metis handleLogs_serves option.inject snd_conv)

interpretation main: quiet_handler "handleRequest Q" for Q
  by unfold_locales (rule serves_handleRequest)

lemma admin_handler_serves:
  assumes "admin_handler Q p = Some h" and "adminAuthMiddleware h cfg r s = Some (resp, s')"
  shows "serves UNIV s s'"
  using assms page.guarded_serves api.guarded_serves waking.guarded_serves metrics.guarded_serves
    topology.guarded_serves
  by (auto simp: admin_handler_def split: if_splits)

lemma serve_serves: "serve Q cfg r s = Some (resp, s') \<Longrightarrow> serves UNIV s s'"
  using health.handle_serves [of Q r s] logs.handle_serves [of Q r s] main.handle_serves [of Q r s]
  by (auto simp: serve_def Let_def dest: admin_handler_serves split: if_splits option.splits)

interpretation server: quiet_handler "serve Q cfg" for Q cfg
  by unfold_locales (rule serve_serves)

lemma serve_unauthorized:
  assumes "r_Path r \<in> set admin_paths" and "cleanPath (r_Path r) = r_Path r" and "\<not> authorized authCfg r"
  shows "\<exists>resp. serve Q authCfg r s = Some (resp, s) \<and> p_Status resp = 401"
proof -
  obtain h where h: "admin_handler Q (r_Path r) = Some h" using assms(1) admin_handler_dom by blast
  have "r_Path r \<noteq> ''/_health'' \<and> r_Path r \<noteq> ''/_logs''" using assms(1) by (auto simp: admin_paths_def)
  then have "serve Q authCfg r s = adminAuthMiddleware h authCfg r s" using assms(2) h by (simp add: serve_def Let_def)
  then show ?thesis using assms(3) by (auto simp: adminAuthMiddleware_spec http_Error_def)
qed

text \<open>
  C25 (safety, \<^verbatim>\<open>Server.Start\<close>): whatever is requested on whatever path, answering starts and
  stops no container and leaves the configuration as it is; containers are woken by
  goroutines only. An admin path without the configured credentials gets 401 before any of
  it is looked at.
\<close>

theorem server_never_blocks_on_docker:
  assumes "serve Q authCfg r s = Some (resp, s')"
  shows "starts (trace (mg_io (sv_manager s'))) = starts (trace (mg_io (sv_manager s))) \<and>
    stop_calls (trace (mg_io (sv_manager s'))) = stop_calls (trace (mg_io (sv_manager s))) \<and> same_config s s' \<and>
    (r_Path r \<in> set admin_paths \<and> cleanPath (r_Path r) = r_Path r \<and> \<not> authorized authCfg r \<longrightarrow>
       p_Status resp = 401 \<and> s' = s)"
proof (intro conjI impI)
  show "starts (trace (mg_io (sv_manager s'))) = starts (trace (mg_io (sv_manager s)))"
    and "stop_calls (trace (mg_io (sv_manager s'))) = stop_calls (trace (mg_io (sv_manager s)))"
    using server.handle_quiet [OF assms] by blast+
  show "same_config s s'" using serve_serves [OF assms] by (rule serves_config)
next
  assume a: "r_Path r \<in> set admin_paths \<and> cleanPath (r_Path r) = r_Path r \<and> \<not> authorized authCfg r"
  with assms serve_unauthorized [of r authCfg Q s] show "p_Status resp = 401" "s' = s" by auto
qed

section \<open>The status API\<close>

lemma status_entries_spec:
  "status_entries Q cs s = Some (es, s') \<Longrightarrow>
   map st_Name es = map c_Name cs \<and> map st_Host es = map c_Host cs \<and>
   map st_StartState es = map (\<lambda>c. fst (GetStartState (c_Name c) (sv_manager s))) cs \<and>
   list_all2 (\<lambda>c e. st_LastRequest e = map_option (o_fmt_rfc3339 Q) (GetLastSeen (c_Name c) (sv_manager s)) \<and>
     st_IdleTimeoutSec e = Seconds_int64 (c_IdleTimeout c) \<and>
     (st_IdleRemainingSec e = - 1 \<longleftrightarrow> c_IdleTimeout c \<noteq> 0 \<and> GetLastSeen (c_Name c) (sv_manager s) = None) \<and>
     (c_ScheduleStart c = '''' \<or> c_ScheduleStop c = '''' \<longrightarrow> \<not> st_ScheduledDowntime e)) cs es"
proof (induction cs arbitrary: s es)
  case Nil
  then show ?case by simp
next
  case (Cons c cs)
  obtain e s1 es1 where e: "status_entry Q c s = Some (e, s1)" and es: "status_entries Q cs s1 = Some (es1, s')"
    and eq: "es = e # es1"
    using Cons.prems by (auto split: option.splits)
  have v: "serves {} s s1" by (rule status_entry_serves [OF e])
  then have m: "GetStartState n (sv_manager s1) = GetStartState n (sv_manager s)"
    "GetLastSeen n (sv_manager s1) = GetLastSeen n (sv_manager s)" for n
    by (simp_all add: serves_def effect_def GetStartState_def GetLastSeen_def)
  have calc: "calcIdleRemaining d u b t = - 1 \<longleftrightarrow> d \<noteq> 0 \<and> \<not> b" for d u b t
    by (simp add: calcIdleRemaining_def Let_def)
  obtain i s2 where i: "on_mgr (on_io (InspectContainer (o_env Q) (o_parse_time Q) CtxRequest (c_Name c))) s = (i, s2)"
    by (meson surj_pair)
  obtain t s3 where t: "clock_now Q s2 = (t, s3)" by (meson surj_pair)
  have s3: "GetLastSeen n (sv_manager s3) = GetLastSeen n (sv_manager s)" for n
    using clock_now_fields(4) [OF t] on_mgr_io_fields(3) [OF i] by (simp add: GetLastSeen_def)
  have "st_Name e = c_Name c \<and> st_Host e = c_Host c \<and>
      st_StartState e = fst (GetStartState (c_Name c) (sv_manager s)) \<and>
      st_LastRequest e = map_option (o_fmt_rfc3339 Q) (GetLastSeen (c_Name c) (sv_manager s)) \<and>
      st_IdleTimeoutSec e = Seconds_int64 (c_IdleTimeout c) \<and>
      (st_IdleRemainingSec e = - 1 \<longleftrightarrow> c_IdleTimeout c \<noteq> 0 \<and> GetLastSeen (c_Name c) (sv_manager s) = None) \<and>
      (c_ScheduleStart c = '''' \<or> c_ScheduleStop c = '''' \<longrightarrow> \<not> st_ScheduledDowntime e)"
    using e i t by (auto simp: status_entry_def Let_def s3 calc schedule_fields_def split: if_splits)
  with Cons.IH [OF es] m show ?case by (simp add: eq)
qed

lemma allow_request_frame:
  assumes "allow_request Q r s = (b, s1)"
  shows "sv_tasks s1 = sv_tasks s" "startStates (sv_manager s1) = startStates (sv_manager s)"
    "lastSeen (sv_manager s1) = lastSeen (sv_manager s)" "sv_cfg s1 = sv_cfg s"
proof -
  obtain t s2 where t: "clock_now Q s = (t, s2)" by (meson surj_pair)
  obtain t' s3 where t': "clock_now Q s2 = (t', s3)" by (meson surj_pair)
  note f = clock_now_fields [OF t] clock_now_fields [OF t']
  show "sv_tasks s1 = sv_tasks s" "startStates (sv_manager s1) = startStates (sv_manager s)"
    "lastSeen (sv_manager s1) = lastSeen (sv_manager s)" "sv_cfg s1 = sv_cfg s"
    using assms t t' f by (auto simp: allow_request_def Let_def split: option.splits prod.splits if_splits)
qed

text \<open>
  \<^verbatim>\<open>handleStatusAPI\<close>: an admitted request gets one entry per configured
  container, in order, with the start state and the activity recorded when it came in; the
  countdown is -1 exactly for a container with idle stops that nobody has used, and only a
  container with both schedules can be in downtime. A request over the limit gets 429.
\<close>

theorem status_api_snapshot:
  assumes "handleStatusAPI Q r s = Some (resp, s')"
  shows "if fst (allow_request Q r s) then
      (\<exists>t es. resp = json (StatusJSON t es) \<and>
        map st_Name es = map c_Name (Containers (sv_cfg s)) \<and> map st_Host es = map c_Host (Containers (sv_cfg s)) \<and>
        map st_StartState es = map (\<lambda>c. fst (GetStartState (c_Name c) (sv_manager s))) (Containers (sv_cfg s)) \<and>
        list_all2 (\<lambda>c e. st_LastRequest e = map_option (o_fmt_rfc3339 Q) (GetLastSeen (c_Name c) (sv_manager s)) \<and>
          st_IdleTimeoutSec e = Seconds_int64 (c_IdleTimeout c) \<and>
          (st_IdleRemainingSec e = - 1 \<longleftrightarrow> c_IdleTimeout c \<noteq> 0 \<and> GetLastSeen (c_Name c) (sv_manager s) = None) \<and>
          (c_ScheduleStart c = '''' \<or> c_ScheduleStop c = '''' \<longrightarrow> \<not> st_ScheduledDowntime e)) (Containers (sv_cfg s)) es)
    else resp = too_many \<and> trace (mg_io (sv_manager s')) = trace (mg_io (sv_manager s))"
proof (cases "fst (allow_request Q r s)")
  case True
  then obtain s1 where a: "allow_request Q r s = (True, s1)" by (cases "allow_request Q r s") auto
  obtain t s2 where t: "clock_now Q s1 = (t, s2)" by (meson surj_pair)
  obtain es where es: "status_entries Q (Containers (sv_cfg s1)) s2 = Some (es, s')"
    and resp: "resp = json (StatusJSON (o_fmt_rfc3339 Q t) es)"
    using assms a t by (auto simp: handleStatusAPI_def Let_def GetConfig_def)
  have "GetStartState n (sv_manager s2) = GetStartState n (sv_manager s)"
    "GetLastSeen n (sv_manager s2) = GetLastSeen n (sv_manager s)" for n
    using allow_request_frame [OF a] clock_now_fields [OF t] by (simp_all add: GetStartState_def GetLastSeen_def)
  then show ?thesis
    using status_entries_spec [OF es] True resp allow_request_frame(4) [OF a] by auto
next
  case False
  then obtain s1 where a: "allow_request Q r s = (False, s1)" by (cases "allow_request Q r s") auto
  then show ?thesis using assms allow_refused_frame [OF a] False by (simp add: handleStatusAPI_def)
qed

section \<open>Waking from the dashboard\<close>

text \<open>
  C35 (functional, \<^verbatim>\<open>handleStatusWake\<close>): only a POST, from the same origin or from no
  browser, within the rate limit and for a configured container wakes it: one goroutine is
  started and the state is "starting" when the answer is given. Every other request is
  refused with its status and changes neither goroutines nor states.
\<close>

theorem dashboard_wake:
  "if r_Method r = ''POST'' \<and> validateOrigin Q r \<and> fst (allow_request Q r s) \<and>
      r_Query r ''container'' \<noteq> '''' \<and> r_Query r ''container'' \<in> c_Name ` set (Containers (sv_cfg s))
   then fst (handleStatusWake Q r s) = json (OkJSON True) \<and>
     GetStartState (r_Query r ''container'') (sv_manager (snd (handleStatusWake Q r s))) = (''starting'', '''') \<and>
     (\<exists>c. c \<in> set (Containers (sv_cfg s)) \<and> c_Name c = r_Query r ''container'' \<and>
        sv_tasks (snd (handleStatusWake Q r s)) = sv_tasks s @ [TaskWake c])
   else p_Status (fst (handleStatusWake Q r s)) =
       (if r_Method r \<noteq> ''POST'' then 405 else if \<not> validateOrigin Q r then 403
        else if \<not> fst (allow_request Q r s) then 429 else 400) \<and>
     sv_tasks (snd (handleStatusWake Q r s)) = sv_tasks s \<and>
     startStates (sv_manager (snd (handleStatusWake Q r s))) = startStates (sv_manager s)"
proof -
  obtain b s1 where a: "allow_request Q r s = (b, s1)" by (meson surj_pair)
  note f = allow_request_frame [OF a]
  let ?n = "r_Query r ''container''"
  have none: "find (\<lambda>c. c_Name c = ?n) (Containers (sv_cfg s)) = None \<longleftrightarrow> ?n \<notin> c_Name ` set (Containers (sv_cfg s))"
    by (auto simp: find_None_iff image_iff)
  have some: "c \<in> set (Containers (sv_cfg s)) \<and> c_Name c = ?n"
    if "find (\<lambda>c. c_Name c = ?n) (Containers (sv_cfg s)) = Some c" for c
    using that by (auto dest: find_SomeD)
  show ?thesis
  proof (cases "find (\<lambda>c. c_Name c = ?n) (Containers (sv_cfg s))")
    case None
    with none have "?n \<notin> c_Name ` set (Containers (sv_cfg s))" by blast
    then show ?thesis using a f None
      by (cases b) (simp_all add: handleStatusWake_def Let_def GetConfig_def too_many_def bad_request_def http_Error_def)
  next
    case (Some c)
    note c = some [OF Some]
    then have "?n \<in> c_Name ` set (Containers (sv_cfg s))" by force
    then show ?thesis using a f Some c
      by (cases b) (auto simp: handleStatusWake_def Let_def GetConfig_def too_many_def bad_request_def http_Error_def
          GetStartState_def)
  qed
qed

lemma task_context_fields:
  assumes "task_context Q d s = (c, s1)"
  shows "effect A [] [] (sv_manager s) (sv_manager s1)" "startStates (sv_manager s1) = startStates (sv_manager s)"
  using assms by (auto simp: task_context_def on_mgr_def WithTimeout_def dest: time_Now_fields effect_time_Now split: prod.splits)

lemma run_TaskWake:
  assumes "run_task Q (TaskWake cfg) s = Some (res, s')" and "task_context Q (c_StartTimeout cfg) s = (ctx, s1)"
  shows "(\<exists>ns. (ns = [] \<or> ns = [c_Name cfg]) \<and> effect {c_Name cfg} ns [] (sv_manager s) (sv_manager s')) \<and>
    (first_status (o_env Q) ctx (c_Name cfg) (sv_manager s1) = Inr ''running'' \<longrightarrow>
       startStates (sv_manager s') = startStates (sv_manager s))"
proof -
  obtain m' where e: "EnsureRunning (o_env Q) ctx cfg (sv_manager s1) = Some (res, m')"
    and s': "s' = s1\<lparr>sv_manager := m'\<rparr>"
    using assms by (auto simp: run_task_def on_mgr_opt_def)
  note c = task_context_fields [OF assms(2)]
  from effect_EnsureRunning [OF e] obtain ns where ns: "ns = [] \<or> ns = [c_Name cfg]"
    and ef: "effect {c_Name cfg} ns [] (sv_manager s1) m'" by blast
  from effect_silent_then [OF c(1) ef] ns have "\<exists>ns. (ns = [] \<or> ns = [c_Name cfg]) \<and> effect {c_Name cfg} ns [] (sv_manager s) m'"
    by blast
  then show ?thesis using EnsureRunning_spec [OF e] c(2) s' by auto
qed

text \<open>
  \<^verbatim>\<open>handleStatusWake\<close>: the goroutine of a wake starts its container at most,
  whatever the container depends on. If the container is found running, the goroutine
  returns without recording it, so the state the handler set stays "starting".
\<close>

theorem dashboard_wake_task:
  assumes "sv_tasks (snd (handleStatusWake Q r s)) = sv_tasks s @ [TaskWake cfg]"
    and "run_pending Q (length (sv_tasks s)) (snd (handleStatusWake Q r s)) = Some (res, s2)"
    and "task_context Q (c_StartTimeout cfg) ((snd (handleStatusWake Q r s))\<lparr>sv_tasks := sv_tasks s\<rparr>) = (ctx, s1)"
  shows "(\<exists>ns. (ns = [] \<or> ns = [c_Name cfg]) \<and>
      effect {c_Name cfg} ns [] (sv_manager (snd (handleStatusWake Q r s))) (sv_manager s2)) \<and>
    (first_status (o_env Q) ctx (c_Name cfg) (sv_manager s1) = Inr ''running'' \<longrightarrow>
       GetStartState (c_Name cfg) (sv_manager s2) = (''starting'', ''''))"
proof -
  let ?w = "snd (handleStatusWake Q r s)"
  have rt: "run_task Q (TaskWake cfg) (?w\<lparr>sv_tasks := sv_tasks s\<rparr>) = Some (res, s2)"
    using assms(1,2) by (simp add: run_pending_def)
  have "startStates (sv_manager ?w) (c_Name cfg) = Some \<lparr>ss_Status = ''starting'', ss_Err = ''''\<rparr>"
  proof -
    obtain b s0 where a: "allow_request Q r s = (b, s0)" by (meson surj_pair)
    show ?thesis
      using assms(1) a allow_request_frame [OF a]
      by (cases b) (auto simp: handleStatusWake_def Let_def split: if_splits option.splits)
  qed
  with run_TaskWake [OF rt assms(3)] show ?thesis by (auto simp: GetStartState_def)
qed

lemma inspect_all_dom: "inspect_all Q cs m s = (m', s') \<Longrightarrow> dom m' = dom m \<union> c_Name ` set cs"
  by (induction cs arbitrary: m s) (auto split: prod.splits)

text \<open>The topology page lists every container with its dependencies, and every group.\<close>

lemma topology_lists_all:
  assumes "handleTopology Q s = (resp, s')"
  shows "\<exists>p. resp = html 200 (TopologyPage p) \<and>
    map (\<lambda>e. (tp_Name e, tp_DependsOn e)) (tl_Containers p) =
      map (\<lambda>c. (c_Name c, c_DependsOn c)) (Containers (sv_cfg s)) \<and>
    map (\<lambda>g. (tg_Name g, tg_Containers g)) (tl_Groups p) = map (\<lambda>g. (g_Name g, g_Containers g)) (Groups (sv_cfg s))"
  using assms by (auto simp: handleTopology_def GetConfig_def topology_entry_def topology_group_def Let_def split: prod.splits)

section \<open>On the sample server\<close>

lemma sim_fresh_allowed: "fst (allow_request sim_outside r (sim_server cfg up k))"
  by (simp add: allow_request_def newRateLimiter_def Let_def split: prod.split)

theorem server_never_blocks_on_docker_witness:
  "\<exists>resp s'. serve sim_outside \<lparr>a_Method = ''bearer'', a_Username = '''', a_Password = '''', a_Token = ''t''\<rparr>
      ((get_request ''x'' '''')\<lparr>r_Path := ''/_status''\<rparr>) (sim_server demo_cfg [] 0) = Some (resp, s') \<and>
    p_Status resp = 401 \<and> s' = sim_server demo_cfg [] 0"
proof -
  let ?a = "\<lparr>a_Method = ''bearer'', a_Username = '''', a_Password = '''', a_Token = ''t''\<rparr>"
    and ?r = "(get_request ''x'' '''')\<lparr>r_Path := ''/_status''\<rparr>" and ?s = "sim_server demo_cfg [] 0"
  have c: "cleanPath ''/_status'' = ''/_status''" by code_simp
  have u: "\<not> authorized ?a ?r" by (simp add: authorized_def)
  obtain resp s' where h: "serve sim_outside ?a ?r ?s = Some (resp, s')"
    using u by (simp add: serve_def c admin_handler_def adminAuthMiddleware_spec http_Error_def)
  from server_never_blocks_on_docker [OF h] u show ?thesis by (auto simp: c admin_paths_def h)
qed

lemma status_entries_unscheduled:
  "list_all (\<lambda>c. c_ScheduleStart c = '''') cs \<Longrightarrow> \<exists>es s'. status_entries Q cs s = Some (es, s')"
proof (induction cs arbitrary: s)
  case (Cons c cs)
  have "\<exists>e s1. status_entry Q c s = Some (e, s1)"
    using Cons.prems by (simp add: status_entry_def schedule_fields_def Let_def split: prod.split)
  then obtain e s1 where e: "status_entry Q c s = Some (e, s1)" by blast
  obtain es s' where "status_entries Q cs s1 = Some (es, s')" using Cons by fastforce
  with e show ?case by simp
qed simp

theorem status_api_snapshot_witness:
  "\<exists>t es s'. handleStatusAPI sim_outside (get_request ''x'' '''') (sim_server demo_cfg [''db''] 0) =
      Some (json (StatusJSON t es), s') \<and>
    map st_Name es = map c_Name (Containers demo_cfg)"
proof -
  let ?r = "get_request ''x'' ''''" and ?s = "sim_server demo_cfg [''db''] 0"
  obtain s1 where a: "allow_request sim_outside ?r ?s = (True, s1)"
    using sim_fresh_allowed [of ?r] by (metis prod.collapse)
  have "list_all (\<lambda>c. c_ScheduleStart c = '''') (Containers demo_cfg)" by (simp add: demo_cfg_def)
  then obtain es s' where e: "status_entries sim_outside (Containers demo_cfg) s1 = Some (es, s')"
    using status_entries_unscheduled by blast
  have "sv_cfg s1 = demo_cfg" using allow_request_frame(4) [OF a] by simp
  then have "\<exists>resp s'. handleStatusAPI sim_outside ?r ?s = Some (resp, s')"
    by (simp add: handleStatusAPI_def a GetConfig_def sim_clock e)
  then obtain resp s' where h: "handleStatusAPI sim_outside ?r ?s = Some (resp, s')" by blast
  from status_api_snapshot [OF h] a show ?thesis by (auto simp: h)
qed

definition wake_request :: "string \<Rightarrow> request" where
  "wake_request name = (get_request ''gw'' name)\<lparr>r_Method := ''POST'', r_Path := ''/_status/wake''\<rparr>"

lemma wake_request_sel [simp]:
  "r_Method (wake_request n) = ''POST''" "r_Query (wake_request n) ''container'' = n"
  "validateOrigin Q (wake_request n)"
  by (simp_all add: wake_request_def validateOrigin_def)

lemma sim_allow: "\<exists>l. snd (allow_request sim_outside r s) = s\<lparr>sv_rateLimiter := l\<rparr>"
proof -
  have "\<exists>l. s = s\<lparr>sv_rateLimiter := l\<rparr>" by (rule exI [of _ "sv_rateLimiter s"]) simp
  then show ?thesis by (auto simp: allow_request_def sim_clock Let_def split: option.split)
qed

theorem dashboard_wake_task_witness:
  "\<exists>s2. run_pending sim_outside 0 (snd (handleStatusWake sim_outside (wake_request ''db'') (sim_server demo_cfg [''db''] 0))) =
      Some (None, s2) \<and>
    GetStartState ''db'' (sv_manager s2) = (''starting'', '''')"
proof -
  let ?s = "sim_server demo_cfg [''db''] 0" and ?d = "mk_ctr ''db'' '''' []"
  let ?w = "snd (handleStatusWake sim_outside (wake_request ''db'') ?s)"
  obtain l where l: "snd (allow_request sim_outside (wake_request ''db'') ?s) = ?s\<lparr>sv_rateLimiter := l\<rparr>"
    using sim_allow by blast
  then have a: "allow_request sim_outside (wake_request ''db'') ?s = (True, ?s\<lparr>sv_rateLimiter := l\<rparr>)"
    by (simp add: prod_eq_iff sim_fresh_allowed)
  have w: "?w = spawn (TaskWake ?d) (mgr_do (InitStartState ''db'') (?s\<lparr>sv_rateLimiter := l\<rparr>))"
  proof -
    have "find (\<lambda>c. c_Name c = ''db'') (Containers (GetConfig (?s\<lparr>sv_rateLimiter := l\<rparr>))) = Some ?d"
      by (simp add: GetConfig_def demo_cfg_def)
    then show ?thesis by (simp add: handleStatusWake_def a)
  qed
  have t: "sv_tasks ?w = sv_tasks ?s @ [TaskWake ?d]" using w by simp
  obtain ctx s1 where c: "task_context sim_outside (c_StartTimeout ?d) (?w\<lparr>sv_tasks := sv_tasks ?s\<rparr>) = (ctx, s1)"
    by (meson surj_pair)
  have u: "fst (world (mg_io (sv_manager s1))) = [''db'']"
    using c by (auto simp: task_context_def on_mgr_def WithTimeout_def time_Now_def on_io_def call_def w spawn_def
        mgr_do_def InitStartState_def setStartState_def NewContainerManager_def)
  then have f: "first_status (o_env sim_outside) ctx (c_Name ?d) (sv_manager s1) = Inr ''running''"
    by (simp add: first_status_def GetContainerStatus_def call_def)
  obtain m' where "EnsureRunning sim_env ctx ?d (sv_manager s1) = Some (None, m')"
    using u by (auto simp: EnsureRunning_def docker_ops on_io_def call_def getLock_def)
  then obtain s2 where rp: "run_pending sim_outside (length (sv_tasks ?s)) ?w = Some (None, s2)"
    using t c by (simp add: run_pending_def run_task_def on_mgr_opt_def)
  from dashboard_wake_task [OF t rp c] f rp show ?thesis by simp
qed

end
