(* ===== verification/Discovery.thy ===== *)
theory Discovery
  imports Docker Validation Sequences
begin

text \<open>
  Discovery of labelled containers, \<^verbatim>\<open>gateway/discovery.go\<close>: merging them with the static
  configuration and pushing the result when it is valid and has changed. The state keeps
  the two configurations under the mutex; the callback \<^verbatim>\<open>onConfigChange\<close> is the optional
  configuration a pass returns, which the theory \<open>Gateway\<close> hands to the server.
\<close>

record disc =
  staticConfig :: GatewayConfig
  lastConfig :: "GatewayConfig option"

definition NewDiscoveryManager :: "GatewayConfig \<Rightarrow> disc" where
  "NewDiscoveryManager cfg = \<lparr>staticConfig = cfg, lastConfig = None\<rparr>"

section \<open>Merging\<close>

fun merge_dynamic :: "ContainerConfig list \<Rightarrow> string set \<Rightarrow> string set \<Rightarrow> ContainerConfig list \<Rightarrow>
    ContainerConfig list" where
  "merge_dynamic [] seenHosts seenNames merged = merged"
| "merge_dynamic (dc # dynamic) seenHosts seenNames merged =
     (if c_Host dc \<in> seenHosts then merge_dynamic dynamic seenHosts seenNames merged
      else if c_Name dc \<in> seenNames then merge_dynamic dynamic seenHosts seenNames merged
      else merge_dynamic dynamic (insert (c_Host dc) seenHosts) (insert (c_Name dc) seenNames)
             (merged @ [dc]))"

definition mergeConfigs :: "GatewayConfig \<Rightarrow> ContainerConfig list \<Rightarrow> GatewayConfig" where
  "mergeConfigs static dynamic =
     \<lparr>Gateway = Gateway static,
      Containers = merge_dynamic dynamic (set (map c_Host (Containers static)))
        (set (map c_Name (Containers static))) (Containers static),
      Groups = []\<rparr>"

section \<open>A discovery pass\<close>

text \<open>
  The result: the configuration pushed, if any, and the new state. The outer \<open>None\<close> is a
  pass whose validation does not return.
\<close>

definition runDiscovery :: "libs \<Rightarrow> (nat \<Rightarrow> time) \<Rightarrow> 'w env \<Rightarrow> (string \<Rightarrow> duration option) \<Rightarrow> ctx \<Rightarrow>
    disc \<Rightarrow> 'w io \<Rightarrow> (GatewayConfig option \<times> disc \<times> 'w io) option" where
  "runDiscovery L clock E parse_duration ctx dm s =
     (case DiscoverLabeledContainers E parse_duration ctx s of
        (Inl err, s1) \<Rightarrow> Some (None, dm, s1)
      | (Inr dynamicContainers, s1) \<Rightarrow>
          (let merged = mergeConfigs (staticConfig dm) dynamicContainers in
           case Validate L clock merged of
             None \<Rightarrow> None
           | Some (Fail err) \<Rightarrow> Some (None, dm, s1)
           | Some Pass \<Rightarrow>
               (let unchanged = (lastConfig dm \<noteq> None \<and> Equal (lastConfig dm) (Some merged));
                    dm' = (if \<not> unchanged then dm\<lparr>lastConfig := Some merged\<rparr> else dm)
                in if unchanged then Some (None, dm', s1) else Some (Some merged, dm', s1))))"

definition UpdateStaticConfig :: "libs \<Rightarrow> (nat \<Rightarrow> time) \<Rightarrow> 'w env \<Rightarrow> (string \<Rightarrow> duration option) \<Rightarrow>
    GatewayConfig \<Rightarrow> disc \<Rightarrow> 'w io \<Rightarrow> (GatewayConfig option \<times> disc \<times> 'w io) option" where
  "UpdateStaticConfig L clock E parse_duration cfg dm s =
     runDiscovery L clock E parse_duration CtxBackground
       (dm\<lparr>staticConfig := cfg, lastConfig := None\<rparr>) s"

section \<open>What a merge contains\<close>

lemma merge_dynamic_spec:
  assumes "merge_dynamic dynamic H N merged = r"
  shows "\<exists>added. r = merged @ added \<and> subseq added dynamic \<and>
    distinct (map c_Host added) \<and> distinct (map c_Name added) \<and>
    c_Host ` set added \<inter> H = {} \<and> c_Name ` set added \<inter> N = {} \<and>
    (\<forall>d \<in> set dynamic. c_Host d \<in> H \<union> c_Host ` set added \<or> c_Name d \<in> N \<union> c_Name ` set added)"
  using assms
proof (induction dynamic H N merged rule: merge_dynamic.induct)
  case (1 H N merged)
  then show ?case by simp
next
  case (2 dc dynamic H N merged)
  show ?case
  proof (cases "c_Host dc \<in> H \<or> c_Name dc \<in> N")
    case True
    with 2(4) have m: "merge_dynamic dynamic H N merged = r" by (auto split: if_splits)
    have "\<exists>added. r = merged @ added \<and> subseq added dynamic \<and>
      distinct (map c_Host added) \<and> distinct (map c_Name added) \<and>
      c_Host ` set added \<inter> H = {} \<and> c_Name ` set added \<inter> N = {} \<and>
      (\<forall>d \<in> set dynamic. c_Host d \<in> H \<union> c_Host ` set added \<or> c_Name d \<in> N \<union> c_Name ` set added)"
      using 2(1) [OF _ m] 2(2) [OF _ _ m] True by (cases "c_Host dc \<in> H") auto
    then obtain added where "r = merged @ added" "subseq added dynamic"
      "distinct (map c_Host added)" "distinct (map c_Name added)"
      "c_Host ` set added \<inter> H = {}" "c_Name ` set added \<inter> N = {}"
      "\<forall>d \<in> set dynamic. c_Host d \<in> H \<union> c_Host ` set added \<or> c_Name d \<in> N \<union> c_Name ` set added" by blast
    with True show ?thesis by (intro exI [of _ added]) auto
  next
    case False
    with 2(4) have m: "merge_dynamic dynamic (insert (c_Host dc) H) (insert (c_Name dc) N) (merged @ [dc]) = r"
      by simp
    from 2(3) [OF _ _ m] False obtain added where "r = (merged @ [dc]) @ added" "subseq added dynamic"
      "distinct (map c_Host added)" "distinct (map c_Name added)"
      "c_Host ` set added \<inter> insert (c_Host dc) H = {}" "c_Name ` set added \<inter> insert (c_Name dc) N = {}"
      "\<forall>d \<in> set dynamic. c_Host d \<in> insert (c_Host dc) H \<union> c_Host ` set added \<or>
         c_Name d \<in> insert (c_Name dc) N \<union> c_Name ` set added" by blast
    with False show ?thesis by (intro exI [of _ "dc # added"]) auto
  qed
qed

text \<open>
  \<^verbatim>\<open>mergeConfigs\<close>: the static configuration comes first and unchanged; the
  discovered containers added keep their order, clash with no static container and with no
  other added one in host or name; and a discovered container is left out only because its
  host or its name is taken.
\<close>

theorem mergeConfigs_spec:
  "\<exists>added. Containers (mergeConfigs static dynamic) = Containers static @ added \<and>
    Gateway (mergeConfigs static dynamic) = Gateway static \<and> subseq added dynamic \<and>
    distinct (map c_Host added) \<and> distinct (map c_Name added) \<and>
    c_Host ` set added \<inter> c_Host ` set (Containers static) = {} \<and>
    c_Name ` set added \<inter> c_Name ` set (Containers static) = {} \<and>
    list_all (\<lambda>d. c_Host d \<in> c_Host ` set (Containers (mergeConfigs static dynamic)) \<or>
      c_Name d \<in> c_Name ` set (Containers (mergeConfigs static dynamic))) dynamic"
proof -
  let ?cs = "Containers static"
  obtain added where a: "merge_dynamic dynamic (c_Host ` set ?cs) (c_Name ` set ?cs) ?cs = ?cs @ added"
    and rest: "subseq added dynamic" "distinct (map c_Host added)" "distinct (map c_Name added)"
      "c_Host ` set added \<inter> c_Host ` set ?cs = {}" "c_Name ` set added \<inter> c_Name ` set ?cs = {}"
      "\<forall>d \<in> set dynamic. c_Host d \<in> c_Host ` set ?cs \<union> c_Host ` set added \<or>
         c_Name d \<in> c_Name ` set ?cs \<union> c_Name ` set added"
    using merge_dynamic_spec [OF refl] by metis
  have m: "Containers (mergeConfigs static dynamic) = ?cs @ added"
    "Gateway (mergeConfigs static dynamic) = Gateway static"
    using a by (simp_all add: mergeConfigs_def)
  show ?thesis
    unfolding m list_all_iff set_append image_Un using rest by (intro exI [of _ added] conjI refl)
qed

section \<open>What a pass pushes\<close>

lemma runDiscovery_cases:
  assumes "runDiscovery L clock E pd ctx dm s = Some (push, dm', s')"
  obtains (quiet) "push = None" and "dm' = dm"
    | (push) dynamic where "push = Some (mergeConfigs (staticConfig dm) dynamic)"
        and "Validate L clock (mergeConfigs (staticConfig dm) dynamic) = Some Pass"
        and "dm' = dm\<lparr>lastConfig := push\<rparr>" and "lastConfig dm \<noteq> push"
proof -
  obtain r s1 where d: "DiscoverLabeledContainers E pd ctx s = (r, s1)" by (meson surj_pair)
  show thesis
  proof (cases r)
    case (Inl err)
    with assms d quiet show thesis by (simp add: runDiscovery_def)
  next
    case (Inr dyn)
    let ?m = "mergeConfigs (staticConfig dm) dyn"
    show thesis
    proof (cases "Validate L clock ?m")
      case None
      with assms d Inr show thesis by (simp add: runDiscovery_def)
    next
      case (Some v)
      have "push = None \<and> dm' = dm \<or>
          v = Pass \<and> lastConfig dm \<noteq> Some ?m \<and> push = Some ?m \<and> dm' = dm\<lparr>lastConfig := Some ?m\<rparr>"
        using assms d Inr Some by (cases v; cases "lastConfig dm = Some ?m") (auto simp: runDiscovery_def Equal_iff Let_def)
      with Some quiet push [of dyn] show thesis by auto
    qed
  qed
qed

lemma runDiscovery_spec:
  assumes "runDiscovery L clock E pd ctx dm s = Some (push, dm', s')"
  shows "quiet s s' \<and> staticConfig dm' = staticConfig dm \<and>
    (case push of
       None \<Rightarrow> dm' = dm
     | Some cfg \<Rightarrow> Validate L clock cfg = Some Pass \<and> lastConfig dm' = Some cfg \<and>
         lastConfig dm \<noteq> Some cfg \<and> Gateway cfg = Gateway (staticConfig dm))"
proof -
  obtain r s1 where d: "DiscoverLabeledContainers E pd ctx s = (r, s1)" by (meson surj_pair)
  with assms have "s' = s1"
    by (auto simp: runDiscovery_def Let_def split: sum.splits option.splits verdict.splits if_splits)
  with discover_op.run_quiet [OF d] have "quiet s s'" by simp
  with assms show ?thesis
    by (cases rule: runDiscovery_cases) (auto simp: mergeConfigs_def)
qed

text \<open>
  \<^verbatim>\<open>runDiscovery\<close>: a pass pushes only a configuration that has passed
  validation and differs from the one pushed last, which it then remembers; otherwise it
  changes nothing. It never starts or stops a container.
\<close>

theorem runDiscovery_pushes_valid:
  assumes "runDiscovery L clock E pd ctx dm s = Some (push, dm', s')"
  shows "quiet s s' \<and> staticConfig dm' = staticConfig dm \<and>
    (case push of
       None \<Rightarrow> dm' = dm
     | Some cfg \<Rightarrow> Validate L clock cfg = Some Pass \<and> lastConfig dm' = Some cfg \<and>
         lastConfig dm \<noteq> Some cfg \<and> Gateway cfg = Gateway (staticConfig dm))"
  using assms by (rule runDiscovery_spec)

text \<open>
  \<^verbatim>\<open>mergeConfigs\<close>: no configuration a discovery pass pushes has a group, so no
  host is routed to a group once one has been pushed, whatever the static file says.
\<close>

theorem runDiscovery_drops_groups:
  assumes "runDiscovery L clock E pd ctx dm s = Some (Some cfg, dm', s')"
  shows "Groups cfg = [] \<and> BuildGroupHostIndex cfg = Map.empty"
  using assms by (cases rule: runDiscovery_cases) (auto simp: mergeConfigs_def BuildGroupHostIndex_def)

definition grouped :: GatewayConfig where
  "grouped = demo_cfg\<lparr>Groups := [\<lparr>g_Name = ''g'', g_Host = ''g.localhost'', g_Strategy = ''round-robin'',
     g_Containers = [''app'']\<rparr>]\<rparr>"

lemma grouped_pass:
  "runDiscovery demo_libs clock dead_env (\<lambda>_. None) CtxRoot (NewDiscoveryManager grouped) \<lparr>world = (), trace = []\<rparr> =
     Some (Some demo_cfg, \<lparr>staticConfig = grouped, lastConfig = Some demo_cfg\<rparr>, \<lparr>world = (), trace = [EvList]\<rparr>)"
proof -
  have "mergeConfigs grouped [] = demo_cfg" by (simp add: mergeConfigs_def grouped_def demo_cfg_def)
  then show ?thesis
    by (simp add: runDiscovery_def DiscoverLabeledContainers_def call_def dead_env_def NewDiscoveryManager_def
        demo_valid List.map_filter_def)
qed

lemma runDiscovery_pushes_valid_witness:
  "Validate demo_libs (\<lambda>_. 0) demo_cfg = Some Pass \<and> Gateway demo_cfg = Gateway grouped"
  using runDiscovery_pushes_valid [OF grouped_pass, of "\<lambda>_. 0"] by (simp add: NewDiscoveryManager_def)

lemma runDiscovery_drops_groups_witness:
  "Groups grouped \<noteq> [] \<and> BuildGroupHostIndex demo_cfg = Map.empty"
  using runDiscovery_drops_groups [OF grouped_pass] by (simp add: grouped_def)

end
