(* ===== verification/Loading.thy ===== *)
theory Loading
  imports Validation
begin

text \<open>
  Loading the configuration, \<^verbatim>\<open>LoadConfig\<close> of \<^verbatim>\<open>gateway/config.go\<close>: the file, the defaults,
  the environment variables that override it, and the validation.

  The process's environment, the file system, the YAML decoder and \<^verbatim>\<open>time.ParseDuration\<close> are
  the fields of the record \<open>host\<close>; nothing is assumed of them.
\<close>

record host =
  Getenv :: "string \<Rightarrow> string"
  ReadFile :: "string \<Rightarrow> string + string"
  Unmarshal :: "string \<Rightarrow> string + GatewayConfig"
  ParseDuration :: "string \<Rightarrow> duration option"

datatype load_error =
    ReadError string string
  | ParseError string string
  | ConfigInvalid cfg_error

definition config_path :: "host \<Rightarrow> string" where
  "config_path H =
     (let path = Getenv H ''CONFIG_PATH''
      in if path = '''' then ''/etc/gateway/config.yaml'' else path)"

text \<open>The overrides, in the order of the code.\<close>

definition override_interval :: "host \<Rightarrow> GatewayConfig \<Rightarrow> GatewayConfig" where
  "override_interval H cfg =
     (let envInterval = Getenv H ''DISCOVERY_INTERVAL''
      in if envInterval \<noteq> '''' then
           (case ParseDuration H envInterval of
              Some d \<Rightarrow> cfg\<lparr>Gateway := (Gateway cfg)\<lparr>DiscoveryInterval := d\<rparr>\<rparr>
            | None \<Rightarrow> cfg)
         else cfg)"

definition override_auth :: "host \<Rightarrow> AdminAuthConfig \<Rightarrow> AdminAuthConfig" where
  "override_auth H a0 =
     (let envMethod = Getenv H ''ADMIN_AUTH_METHOD''; envUser = Getenv H ''ADMIN_AUTH_USERNAME'';
          envPass = Getenv H ''ADMIN_AUTH_PASSWORD''; envToken = Getenv H ''ADMIN_AUTH_TOKEN'';
          a1 = (if envMethod \<noteq> '''' then a0\<lparr>a_Method := envMethod\<rparr> else a0);
          a2 = (if envUser \<noteq> '''' then a1\<lparr>a_Username := envUser\<rparr> else a1);
          a3 = (if envPass \<noteq> '''' then a2\<lparr>a_Password := envPass\<rparr> else a2)
      in if envToken \<noteq> '''' then a3\<lparr>a_Token := envToken\<rparr> else a3)"

definition override_env :: "host \<Rightarrow> GatewayConfig \<Rightarrow> GatewayConfig" where
  "override_env H cfg0 =
     (let cfg1 = override_interval H cfg0;
          cfg2 = cfg1\<lparr>Gateway := (Gateway cfg1)\<lparr>AdminAuth := override_auth H (AdminAuth (Gateway cfg1))\<rparr>\<rparr>;
          envTZ = Getenv H ''SCHEDULE_TIMEZONE''
      in if envTZ \<noteq> '''' then cfg2\<lparr>Gateway := (Gateway cfg2)\<lparr>ScheduleTimezone := envTZ\<rparr>\<rparr> else cfg2)"

text \<open>The outer \<open>None\<close> is a validation that does not return.\<close>

definition LoadConfig :: "libs \<Rightarrow> (nat \<Rightarrow> time) \<Rightarrow> host \<Rightarrow> (load_error + GatewayConfig) option" where
  "LoadConfig L clock H =
     (let path = config_path H in
      case ReadFile H path of
        Inl e \<Rightarrow> Some (Inl (ReadError path e))
      | Inr data \<Rightarrow>
          (case Unmarshal H data of
             Inl e \<Rightarrow> Some (Inl (ParseError path e))
           | Inr yaml \<Rightarrow>
               (let cfg = override_env H (applyDefaults yaml)
                in map_option (\<lambda>v. case v of Fail e \<Rightarrow> Inl (ConfigInvalid e) | Pass \<Rightarrow> Inr cfg)
                     (Validate L clock cfg))))"

section \<open>What is loaded\<close>

text \<open>The value of a setting: the environment's unless it is empty.\<close>

definition env_or :: "host \<Rightarrow> string \<Rightarrow> string \<Rightarrow> string" where
  "env_or H var v = (if Getenv H var \<noteq> '''' then Getenv H var else v)"

lemma override_auth_fields:
  "a_Method (override_auth H a) = env_or H ''ADMIN_AUTH_METHOD'' (a_Method a)"
  "a_Username (override_auth H a) = env_or H ''ADMIN_AUTH_USERNAME'' (a_Username a)"
  "a_Password (override_auth H a) = env_or H ''ADMIN_AUTH_PASSWORD'' (a_Password a)"
  "a_Token (override_auth H a) = env_or H ''ADMIN_AUTH_TOKEN'' (a_Token a)"
  by (simp_all add: override_auth_def env_or_def Let_def)

lemma override_env_fields:
  "Containers (override_env H cfg) = Containers cfg"
  "Groups (override_env H cfg) = Groups cfg"
  "Port (Gateway (override_env H cfg)) = Port (Gateway cfg)"
  "LogLines (Gateway (override_env H cfg)) = LogLines (Gateway cfg)"
  "TrustedProxies (Gateway (override_env H cfg)) = TrustedProxies (Gateway cfg)"
  "AdminAuth (Gateway (override_env H cfg)) = override_auth H (AdminAuth (Gateway cfg))"
  "ScheduleTimezone (Gateway (override_env H cfg)) = env_or H ''SCHEDULE_TIMEZONE'' (ScheduleTimezone (Gateway cfg))"
  "DiscoveryInterval (Gateway (override_env H cfg)) =
     (case ParseDuration H (Getenv H ''DISCOVERY_INTERVAL'') of
        Some d \<Rightarrow> if Getenv H ''DISCOVERY_INTERVAL'' = '''' then DiscoveryInterval (Gateway cfg) else d
      | None \<Rightarrow> DiscoveryInterval (Gateway cfg))"
  by (simp_all add: override_env_def override_interval_def env_or_def Let_def split: option.splits)

lemma LoadConfig_Inr:
  assumes "LoadConfig L clock H = Some (Inr cfg)"
  obtains data yaml where "ReadFile H (config_path H) = Inr data" and "Unmarshal H data = Inr yaml"
    and "cfg = override_env H (applyDefaults yaml)" and "Validate L clock cfg = Some Pass"
proof -
  obtain data where d: "ReadFile H (config_path H) = Inr data"
    using assms by (auto simp: LoadConfig_def Let_def split: sum.splits)
  obtain yaml where y: "Unmarshal H data = Inr yaml"
    using assms d by (auto simp: LoadConfig_def Let_def split: sum.splits)
  let ?c = "override_env H (applyDefaults yaml)"
  obtain v where v: "Validate L clock ?c = Some v"
    using assms d y by (auto simp: LoadConfig_def Let_def)
  show thesis
  proof (cases v)
    case (Fail e)
    with assms d y v show thesis by (simp add: LoadConfig_def Let_def)
  next
    case Pass
    with assms d y v that show thesis by (simp add: LoadConfig_def Let_def)
  qed
qed

text \<open>
  What a loaded configuration is, setting by setting: the value in the file, or the default
  where the file leaves the zero value; of the settings with an environment variable, the
  environment's value first.
\<close>

definition or_default :: "'a \<Rightarrow> 'a \<Rightarrow> 'a \<Rightarrow> 'a" where
  "or_default zero d v = (if v = zero then d else v)"

definition loaded_global :: "host \<Rightarrow> GlobalConfig \<Rightarrow> GlobalConfig" where
  "loaded_global H g =
     \<lparr>Port = or_default '''' ''8080'' (Port g),
      LogLines = or_default 0 30 (LogLines g),
      TrustedProxies = TrustedProxies g,
      DiscoveryInterval =
        (if Getenv H ''DISCOVERY_INTERVAL'' \<noteq> '''' \<and> ParseDuration H (Getenv H ''DISCOVERY_INTERVAL'') \<noteq> None
         then the (ParseDuration H (Getenv H ''DISCOVERY_INTERVAL''))
         else or_default 0 15000000000 (DiscoveryInterval g)),
      AdminAuth =
        \<lparr>a_Method = env_or H ''ADMIN_AUTH_METHOD'' (or_default '''' ''none'' (a_Method (AdminAuth g))),
         a_Username = env_or H ''ADMIN_AUTH_USERNAME'' (a_Username (AdminAuth g)),
         a_Password = env_or H ''ADMIN_AUTH_PASSWORD'' (a_Password (AdminAuth g)),
         a_Token = env_or H ''ADMIN_AUTH_TOKEN'' (a_Token (AdminAuth g))\<rparr>,
      ScheduleTimezone = env_or H ''SCHEDULE_TIMEZONE'' (ScheduleTimezone g)\<rparr>"

definition loaded_container :: "ContainerConfig \<Rightarrow> ContainerConfig" where
  "loaded_container c =
     c\<lparr>c_TargetPort := or_default '''' ''80'' (c_TargetPort c),
       c_StartTimeout := or_default 0 60000000000 (c_StartTimeout c),
       c_RedirectPath := or_default '''' ''/'' (c_RedirectPath c),
       c_Icon := or_default '''' ''docker'' (c_Icon c)\<rparr>"

definition loaded_group :: "GroupConfig \<Rightarrow> GroupConfig" where
  "loaded_group g = g\<lparr>g_Strategy := or_default '''' ''round-robin'' (g_Strategy g)\<rparr>"

definition loaded :: "host \<Rightarrow> GatewayConfig \<Rightarrow> GatewayConfig" where
  "loaded H yaml =
     \<lparr>Gateway = loaded_global H (Gateway yaml), Containers = map loaded_container (Containers yaml),
      Groups = map loaded_group (Groups yaml)\<rparr>"

lemma default_loaded:
  "default_container c = loaded_container c" "default_group g = loaded_group g"
  by (simp_all add: default_defs loaded_container_def loaded_group_def or_default_def duration_defs)

lemma override_loaded: "override_env H (applyDefaults yaml) = loaded H yaml"
proof -
  have g: "Gateway (override_env H (applyDefaults yaml)) = loaded_global H (Gateway yaml)"
  proof (rule GlobalConfig.equality)
    show "AdminAuth (Gateway (override_env H (applyDefaults yaml))) = AdminAuth (loaded_global H (Gateway yaml))"
      by (rule AdminAuthConfig.equality)
        (simp_all add: override_env_fields override_auth_fields applyDefaults_def default_global_def
          loaded_global_def or_default_def Let_def)
  qed (simp_all add: override_env_fields applyDefaults_def default_global_def loaded_global_def or_default_def
      duration_defs Let_def split: option.split)
  have "Containers (applyDefaults yaml) = map loaded_container (Containers yaml)"
    "Groups (applyDefaults yaml) = map loaded_group (Groups yaml)"
    by (simp_all add: applyDefaults_def default_loaded)
  with g show ?thesis
    by (intro GatewayConfig.equality) (simp_all add: override_env_fields loaded_def)
qed

text \<open>
  C36 (equivalence, \<^verbatim>\<open>LoadConfig\<close>): exactly when the file of \<^verbatim>\<open>CONFIG_PATH\<close> (or the default
  path) can be read and parsed and the completed configuration passes validation, it is
  loaded, and it is \<open>loaded H yaml\<close>: in every field of the gateway, of each container and of
  each group the environment's value (where there is a variable), else the file's, else the
  default. A failure is reported for exactly its cause: reading, parsing or validating.
\<close>

theorem LoadConfig_result:
  "(LoadConfig L clock H = Some (Inr cfg) \<longleftrightarrow>
     (\<exists>data yaml. ReadFile H (env_or H ''CONFIG_PATH'' ''/etc/gateway/config.yaml'') = Inr data \<and>
        Unmarshal H data = Inr yaml \<and> cfg = loaded H yaml \<and> Validate L clock cfg = Some Pass)) \<and>
   (LoadConfig L clock H = Some (Inl err) \<longleftrightarrow>
     (let path = env_or H ''CONFIG_PATH'' ''/etc/gateway/config.yaml'' in
        (\<exists>e. ReadFile H path = Inl e \<and> err = ReadError path e) \<or>
        (\<exists>data e. ReadFile H path = Inr data \<and> Unmarshal H data = Inl e \<and> err = ParseError path e) \<or>
        (\<exists>data yaml e. ReadFile H path = Inr data \<and> Unmarshal H data = Inr yaml \<and>
           Validate L clock (loaded H yaml) = Some (Fail e) \<and> err = ConfigInvalid e)))"
proof -
  have p: "config_path H = env_or H ''CONFIG_PATH'' ''/etc/gateway/config.yaml''"
    by (simp add: config_path_def env_or_def Let_def)
  show ?thesis
    unfolding LoadConfig_def Let_def p override_loaded
    by (auto split: sum.split verdict.splits) (metis verdict.exhaust)+
qed

section \<open>The discovery interval\<close>

lemma check_containers_cong:
  assumes "\<And>now i c seen. check_container L now cfg i c seen = check_container L now cfg' i c seen"
  shows "check_containers L clock cfg i cs seen = check_containers L clock cfg' i cs seen"
  using assms by (induction cs arbitrary: i seen) (auto intro!: Option.bind_cong split: sum.splits)

lemma check_groups_cong:
  assumes "\<And>i g seen. check_group cfg i g seen = check_group cfg' i g seen"
  shows "check_groups cfg i gs seen = check_groups cfg' i gs seen"
  using assms by (induction gs arbitrary: i seen) (simp_all cong: sum.case_cong)

lemma Validate_ignores_interval:
  "Validate L clock (cfg\<lparr>Gateway := (Gateway cfg)\<lparr>DiscoveryInterval := d\<rparr>\<rparr>) = Validate L clock cfg"
proof -
  let ?c = "cfg\<lparr>Gateway := (Gateway cfg)\<lparr>DiscoveryInterval := d\<rparr>\<rparr>"
  have s: "check_schedule L now ?c c = check_schedule L now cfg c" for now c
    by (simp add: check_schedule_def)
  have f: "nameSet ?c = nameSet cfg" "groupMembers ?c = groupMembers cfg" "depTargets ?c = depTargets cfg"
    by (simp_all add: nameSet_def groupMembers_def depTargets_def)
  have g: "check_containers L clock ?c 0 cs s = check_containers L clock cfg 0 cs s" for cs s
    by (rule check_containers_cong) (simp only: check_container_def s f)
  have h: "check_groups ?c 0 gs s = check_groups cfg 0 gs s" for gs s
    by (rule check_groups_cong) (simp add: check_group_def nameSet_def)
  have sel: "Containers ?c = Containers cfg" "Groups ?c = Groups cfg" "Port (Gateway ?c) = Port (Gateway cfg)"
    "ScheduleTimezone (Gateway ?c) = ScheduleTimezone (Gateway cfg)" "AdminAuth (Gateway ?c) = AdminAuth (Gateway cfg)"
    by simp_all
  show ?thesis unfolding Validate_def g h sel ..
qed

text \<open>
  \<^verbatim>\<open>time.NewTicker\<close> panics when the duration is not positive; \<^verbatim>\<open>DiscoveryManager.Start\<close> calls it
  with the configured interval in the main goroutine.
\<close>

definition ticker_panics :: "duration \<Rightarrow> bool" where
  "ticker_panics d \<longleftrightarrow> d \<le> 0"

text \<open>
  \<^verbatim>\<open>LoadConfig\<close>: an interval from the environment is taken whatever its sign,
  validation does not look at it, and a configuration that would load without it loads with
  it; with a zero or negative one the process then panics when discovery starts.
\<close>

theorem nonpositive_interval_accepted:
  assumes "LoadConfig L clock (H\<lparr>Getenv := (Getenv H)(''DISCOVERY_INTERVAL'' := '''')\<rparr>) = Some (Inr cfg)"
    and "Getenv H ''DISCOVERY_INTERVAL'' \<noteq> ''''"
    and "ParseDuration H (Getenv H ''DISCOVERY_INTERVAL'') = Some d" and "d \<le> 0"
  shows "\<exists>cfg'. LoadConfig L clock H = Some (Inr cfg') \<and> ticker_panics (DiscoveryInterval (Gateway cfg'))"
proof -
  let ?H = "H\<lparr>Getenv := (Getenv H)(''DISCOVERY_INTERVAL'' := '''')\<rparr>"
  obtain data yaml where r: "ReadFile ?H (config_path ?H) = Inr data" "Unmarshal ?H data = Inr yaml"
    and c: "cfg = override_env ?H (applyDefaults yaml)" and v: "Validate L clock cfg = Some Pass"
    using assms(1) by (rule LoadConfig_Inr)
  have p: "config_path ?H = config_path H" by (simp add: config_path_def)
  let ?cfg' = "cfg\<lparr>Gateway := (Gateway cfg)\<lparr>DiscoveryInterval := d\<rparr>\<rparr>"
  have e: "override_env H (applyDefaults yaml) = ?cfg'"
    using assms(2,3) by (simp add: c override_env_def override_interval_def override_auth_def Let_def)
  have "Validate L clock ?cfg' = Some Pass"
    by (simp add: Validate_ignores_interval v)
  then have "LoadConfig L clock H = Some (Inr ?cfg')"
    using r by (simp add: LoadConfig_def Let_def p e)
  then show ?thesis using assms(4) by (auto simp: ticker_panics_def)
qed

definition demo_host :: "string \<Rightarrow> host" where
  "demo_host interval =
     \<lparr>Getenv = (\<lambda>v. if v = ''DISCOVERY_INTERVAL'' then interval
                   else if v = ''ADMIN_AUTH_METHOD'' then ''none'' else ''''),
      ReadFile = (\<lambda>p. if p = ''/etc/gateway/config.yaml'' then Inr ''demo'' else Inl ''no such file''),
      Unmarshal = (\<lambda>_. Inr demo_cfg),
      ParseDuration = (\<lambda>s. if s = ''0s'' then Some 0 else None)\<rparr>"

lemma demo_defaults: "applyDefaults demo_cfg = demo_cfg"
  by (simp add: applyDefaults_def demo_cfg_def demo_global_def default_defs mk_ctr_def second_def)

lemma demo_loads: "LoadConfig demo_libs clock (demo_host '''') = Some (Inr demo_cfg)"
proof -
  have "override_env (demo_host '''') demo_cfg = demo_cfg"
    by (simp add: override_env_def override_interval_def override_auth_def demo_host_def demo_cfg_def
        demo_global_def Let_def)
  then show ?thesis
    by (simp add: LoadConfig_def config_path_def demo_host_def demo_defaults demo_valid Let_def)
qed

text \<open>
  A file that leaves everything to the defaults, with a discovery interval and a bearer
  token in the environment.
\<close>

definition sparse_cfg :: GatewayConfig where
  "sparse_cfg =
     \<lparr>Gateway = \<lparr>Port = '''', LogLines = 0, TrustedProxies = [''10.0.0.0/8''], DiscoveryInterval = 0,
        AdminAuth = \<lparr>a_Method = '''', a_Username = '''', a_Password = '''', a_Token = ''''\<rparr>, ScheduleTimezone = ''''\<rparr>,
      Containers = [], Groups = []\<rparr>"

definition sparse_host :: host where
  "sparse_host =
     \<lparr>Getenv = (\<lambda>v. if v = ''CONFIG_PATH'' then ''/c.yaml'' else if v = ''DISCOVERY_INTERVAL'' then ''5s''
        else if v = ''ADMIN_AUTH_METHOD'' then ''bearer'' else if v = ''ADMIN_AUTH_TOKEN'' then ''t'' else ''''),
      ReadFile = (\<lambda>p. if p = ''/c.yaml'' then Inr ''sparse'' else Inl ''no such file''),
      Unmarshal = (\<lambda>_. Inr sparse_cfg),
      ParseDuration = (\<lambda>s. if s = ''5s'' then Some (5 * second) else None)\<rparr>"

theorem LoadConfig_result_witness:
  "LoadConfig demo_libs (\<lambda>_. 0) sparse_host = Some (Inr
     \<lparr>Gateway = \<lparr>Port = ''8080'', LogLines = 30, TrustedProxies = [''10.0.0.0/8''], DiscoveryInterval = 5000000000,
        AdminAuth = \<lparr>a_Method = ''bearer'', a_Username = '''', a_Password = '''', a_Token = ''t''\<rparr>, ScheduleTimezone = ''''\<rparr>,
      Containers = [], Groups = []\<rparr>)"
proof -
  let ?cfg = "\<lparr>Gateway = \<lparr>Port = ''8080'', LogLines = 30, TrustedProxies = [''10.0.0.0/8''], DiscoveryInterval = 5000000000,
        AdminAuth = \<lparr>a_Method = ''bearer'', a_Username = '''', a_Password = '''', a_Token = ''t''\<rparr>, ScheduleTimezone = ''''\<rparr>,
      Containers = [], Groups = []\<rparr> :: GatewayConfig"
  have "loaded sparse_host sparse_cfg = ?cfg"
    by (simp add: loaded_def loaded_global_def sparse_host_def sparse_cfg_def env_or_def or_default_def duration_defs)
  moreover have "Validate demo_libs (\<lambda>_. 0) ?cfg = Some Pass"
    by (simp add: Validate_Pass valid_config_def resolveLocation_def ResolveLocation_def auth_ok_def nameSet_def
        groupMembers_def depTargets_def ctr_hosts_def dep_rel_def deps_of_def container_map_def acyclic_def
        schedules_ok_def)
  ultimately show ?thesis
    using conjunct1 [OF LoadConfig_result [of demo_libs "\<lambda>_. 0" sparse_host ?cfg]]
    by (simp add: env_or_def sparse_host_def)
qed

theorem nonpositive_interval_accepted_witness:
  "\<exists>cfg'. LoadConfig demo_libs (\<lambda>_. 0) (demo_host ''0s'') = Some (Inr cfg') \<and>
     ticker_panics (DiscoveryInterval (Gateway cfg'))"
proof (rule nonpositive_interval_accepted [where d = 0])
  have "(demo_host ''0s'')\<lparr>Getenv := (Getenv (demo_host ''0s''))(''DISCOVERY_INTERVAL'' := '''')\<rparr> = demo_host ''''"
    by (auto simp: demo_host_def fun_eq_iff)
  then show "LoadConfig demo_libs (\<lambda>_. 0)
      ((demo_host ''0s'')\<lparr>Getenv := (Getenv (demo_host ''0s''))(''DISCOVERY_INTERVAL'' := '''')\<rparr>) = Some (Inr demo_cfg)"
    by (simp add: demo_loads)
qed (simp_all add: demo_host_def)

end
