(* ===== verification/IdleWatcher.thy ===== *)
theory IdleWatcher
  imports Manager
begin

text \<open>
  The idle watcher of \<^verbatim>\<open>gateway/manager.go\<close>: which containers are idle, and the cascade
  that stops their chains.
\<close>

section \<open>The idle watcher\<close>

text \<open>
  The keys of \<open>toStop\<close>: the chains of the entry points that can be sorted. A Go map keeps
  each key once.
\<close>

fun collect_stop :: "ContainerConfig list \<Rightarrow> string list \<Rightarrow> string list \<Rightarrow> string list" where
  "collect_stop cfgs [] toStop = toStop"
| "collect_stop cfgs (ep # eps) toStop =
     (case TopologicalSort ep cfgs of
        Inl err \<Rightarrow> collect_stop cfgs eps toStop
      | Inr chain \<Rightarrow> collect_stop cfgs eps (fold List.insert chain toStop))"

text \<open>Whether a running dependent outside \<open>toStop\<close> still needs the container.\<close>

fun still_needed :: "'w env \<Rightarrow> ctx \<Rightarrow> string list \<Rightarrow> string list \<Rightarrow> 'w mgr \<Rightarrow> bool \<times> 'w mgr" where
  "still_needed E ctx toStop [] m = (False, m)"
| "still_needed E ctx toStop (dependent # dependents) m =
     (if dependent \<in> set toStop then still_needed E ctx toStop dependents m
      else case on_io (GetContainerStatus E ctx dependent) m of
             (depStatus, m') \<Rightarrow>
               if depStatus = Inr ''running'' then (True, m')
               else still_needed E ctx toStop dependents m')"

definition stop_one :: "'w env \<Rightarrow> ctx \<Rightarrow> (string \<Rightarrow> string list) \<Rightarrow> string list \<Rightarrow> string \<Rightarrow> 'w mgr \<Rightarrow> 'w mgr" where
  "stop_one E ctx revDeps toStop name m =
     (case still_needed E ctx toStop (revDeps name) m of
        (needed, m1) \<Rightarrow>
          if needed then m1
          else
            (case on_io (GetContainerStatus E ctx name) m1 of
               (status, m2) \<Rightarrow>
                 if status \<noteq> Inr ''running'' then m2
                 else
                   (case on_io (StopContainer E ctx name) m2 of
                      (Some err, m3) \<Rightarrow> m3
                    | (None, m3) \<Rightarrow>
                        setStartState name ''unknown'' ''''
                          (snd (on_io (\<lambda>s. ((), RecordIdleStop name s)) m3)))))"

definition cascadeStop :: "'w env \<Rightarrow> ctx \<Rightarrow> string list \<Rightarrow> ContainerConfig list \<Rightarrow> 'w mgr \<Rightarrow> 'w mgr" where
  "cascadeStop E ctx idleEntryPoints cfgs m =
     (let toStop = collect_stop cfgs idleEntryPoints [] in
      if toStop = [] then m
      else
        (case on_io (call (RangeOrder E toStop) (\<lambda>_. [])) m of
           (iter, m1) \<Rightarrow>
             foldl (\<lambda>m name. stop_one E ctx (BuildReverseDeps cfgs) toStop name m) m1
               (rev (topoMergeStop (set toStop) iter cfgs))))"

definition idle_entry :: "(string \<Rightarrow> time option) \<Rightarrow> time \<Rightarrow> ContainerConfig \<Rightarrow> bool" where
  "idle_entry snapshot now cfg =
     (if c_Host cfg = '''' \<or> c_IdleTimeout cfg = 0 then False
      else case snapshot (c_Name cfg) of
             None \<Rightarrow> False
           | Some seen \<Rightarrow> c_IdleTimeout cfg \<le> time_Sub now seen)"

definition checkIdle :: "'w env \<Rightarrow> ctx \<Rightarrow> ContainerConfig list \<Rightarrow> 'w mgr \<Rightarrow> 'w mgr" where
  "checkIdle E ctx cfgs m =
     (case time_Now E m of
        (now, m1) \<Rightarrow>
          (let idleEntryPoints = map c_Name (filter (idle_entry (lastSeen m) now) cfgs) in
           if 0 < length idleEntryPoints then cascadeStop E ctx idleEntryPoints cfgs m1 else m1))"

partial_function (option) StartIdleWatcher :: "'w env \<Rightarrow> ctx \<Rightarrow> ('w \<Rightarrow> ContainerConfig list) \<Rightarrow>
    'w mgr \<Rightarrow> 'w mgr option" where
  "StartIdleWatcher E ctx configProvider m =
     (case on_io (call (Wait E ctx minute) (\<lambda>_. [])) m of
        (CtxDone, m1) \<Rightarrow> Some m1
      | (Tick, m1) \<Rightarrow>
          StartIdleWatcher E ctx configProvider
            (checkIdle E ctx (configProvider (world (mg_io m1))) m1))"

section \<open>What a cascade stops\<close>

text \<open>
  A stop is checked when, right before it, every dependent of the container outside the set
  to stop was inspected and none was found running, and then the container itself was found
  running.
\<close>

definition outside_dependents :: "ContainerConfig list \<Rightarrow> string set \<Rightarrow> string \<Rightarrow> string list" where
  "outside_dependents cfgs S n = filter (\<lambda>d. d \<notin> S) (BuildReverseDeps cfgs n)"

definition checked_stop :: "ContainerConfig list \<Rightarrow> string set \<Rightarrow> string \<Rightarrow> event list \<Rightarrow> bool" where
  "checked_stop cfgs S n pre \<longleftrightarrow>
     (\<exists>pre0 sts. length sts = length (outside_dependents cfgs S n) \<and> Some ''running'' \<notin> set sts \<and>
        pre = pre0 @ map2 EvInspect (outside_dependents cfgs S n) sts @ [EvInspect n (Some ''running'')])"

definition guarded :: "ContainerConfig list \<Rightarrow> string set \<Rightarrow> event list \<Rightarrow> bool" where
  "guarded cfgs S es \<longleftrightarrow> (\<forall>pre n ok post. es = pre @ EvStop n ok # post \<longrightarrow> checked_stop cfgs S n pre)"

lemma guarded_Nil [simp]: "guarded cfgs S []"
  by (simp add: guarded_def)

lemma guarded_no_stop: "stop_calls es = [] \<Longrightarrow> guarded cfgs S es"
  by (auto simp: guarded_def)

lemma no_stop_calls: "stop_calls es = [] \<longleftrightarrow> (\<forall>n ok. EvStop n ok \<notin> set es)"
  by (induction es rule: stop_calls.induct) auto

lemma guarded_single:
  assumes "stop_calls pre = []" and "stop_calls post = []" and "checked_stop cfgs S n pre"
  shows "guarded cfgs S (pre @ EvStop n ok # post)"
  unfolding guarded_def
proof (intro allI impI)
  fix pre' n' ok' post'
  assume eq: "pre @ EvStop n ok # post = pre' @ EvStop n' ok' # post'"
  then have "EvStop n' ok' \<in> set (pre @ EvStop n ok # post)" by simp
  with assms(1,2) have same: "EvStop n' ok' = EvStop n ok" by (auto simp: no_stop_calls)
  moreover have "EvStop n ok \<notin> set pre" "EvStop n ok \<notin> set post"
    using assms(1,2) by (auto simp: no_stop_calls)
  ultimately have "pre = pre'" using eq by (simp add: append_Cons_eq_iff)
  with assms(3) same show "checked_stop cfgs S n' pre'" by simp
qed

lemma checked_stop_prefix: "checked_stop cfgs S n pre \<Longrightarrow> checked_stop cfgs S n (es @ pre)"
  unfolding checked_stop_def by (metis append.assoc)

lemma guarded_append: "guarded cfgs S es \<Longrightarrow> guarded cfgs S fs \<Longrightarrow> guarded cfgs S (es @ fs)"
  unfolding guarded_def
proof (intro allI impI)
  fix pre n ok post
  assume es: "\<forall>pre n ok post. es = pre @ EvStop n ok # post \<longrightarrow> checked_stop cfgs S n pre"
    and fs: "\<forall>pre n ok post. fs = pre @ EvStop n ok # post \<longrightarrow> checked_stop cfgs S n pre"
    and eq: "es @ fs = pre @ EvStop n ok # post"
  from eq consider us where "es = pre @ us" "us @ fs = EvStop n ok # post"
    | us where "pre = es @ us" "fs = us @ EvStop n ok # post"
    by (auto simp: append_eq_append_conv2)
  then show "checked_stop cfgs S n pre"
  proof cases
    case (1 us)
    then show ?thesis using es fs checked_stop_prefix by (cases us) fastforce+
  next
    case (2 us)
    with fs checked_stop_prefix show ?thesis by blast
  qed
qed

lemma status_trace:
  assumes "on_io (GetContainerStatus E ctx n) m = (r, m')"
  obtains st where "trace (mg_io m') = trace (mg_io m) @ [EvInspect n st]"
    and "r = Inr ''running'' \<longleftrightarrow> st = Some ''running''"
    and "lastSeen m' = lastSeen m" and "startStates m' = startStates m"
proof -
  from assms obtain a s' where c: "call (ContainerInspect E ctx n) (\<lambda>r. [EvInspect n (status_seen r)]) (mg_io m) = (a, s')"
    and r: "r = (case a of Inl err \<Rightarrow> Inl err | Inr info \<Rightarrow> Inr (i_Status info))" and "mg_io m' = s'"
    by (auto simp: GetContainerStatus_def elim!: on_io_cases split: prod.splits sum.splits)
  with trace_call [OF c] on_io_frame [OF assms] that [of "status_seen a"] show thesis
    by (auto simp: status_seen_def split: sum.splits)
qed

lemma still_needed_spec:
  assumes "still_needed E ctx toStop ds m = (needed, m')"
  shows "\<exists>sts. trace (mg_io m') = trace (mg_io m) @ map2 EvInspect (filter (\<lambda>d. d \<notin> set toStop) ds) sts \<and>
    lastSeen m' = lastSeen m \<and> startStates m' = startStates m \<and>
    (\<not> needed \<longrightarrow> length sts = length (filter (\<lambda>d. d \<notin> set toStop) ds) \<and> Some ''running'' \<notin> set sts)"
  using assms
proof (induction ds arbitrary: m)
  case Nil
  then show ?case by simp
next
  case (Cons d ds)
  show ?case
  proof (cases "d \<in> set toStop")
    case True
    with Cons show ?thesis by simp
  next
    case False
    obtain r m1 where st: "on_io (GetContainerStatus E ctx d) m = (r, m1)" by (meson surj_pair)
    from status_trace [OF st] obtain st1 where t: "trace (mg_io m1) = trace (mg_io m) @ [EvInspect d st1]"
      and run: "r = Inr ''running'' \<longleftrightarrow> st1 = Some ''running''"
      and fr: "lastSeen m1 = lastSeen m" "startStates m1 = startStates m" by blast
    show ?thesis
    proof (cases "r = Inr ''running''")
      case True
      with Cons.prems False st have "needed" "m' = m1" by auto
      with t fr False show ?thesis by (intro exI [of _ "[st1]"]) simp
    next
      case nr: False
      with Cons.prems False st have "still_needed E ctx toStop ds m1 = (needed, m')" by simp
      from Cons.IH [OF this] obtain sts where
        "trace (mg_io m') = trace (mg_io m1) @ map2 EvInspect (filter (\<lambda>d. d \<notin> set toStop) ds) sts"
        "lastSeen m' = lastSeen m1" "startStates m' = startStates m1"
        "\<not> needed \<longrightarrow> length sts = length (filter (\<lambda>d. d \<notin> set toStop) ds) \<and> Some ''running'' \<notin> set sts" by blast
      with t fr False nr run show ?thesis by (intro exI [of _ "st1 # sts"]) auto
    qed
  qed
qed

lemma map2_inspect [simp]: "starts (map2 EvInspect ds sts) = []" "stop_calls (map2 EvInspect ds sts) = []"
proof -
  have "starts (map2 EvInspect ds sts) = [] \<and> stop_calls (map2 EvInspect ds sts) = []"
    by (induction ds arbitrary: sts) (simp_all add: zip_Cons1 split: list.split)
  then show "starts (map2 EvInspect ds sts) = []" "stop_calls (map2 EvInspect ds sts) = []" by simp_all
qed

text \<open>One turn of the loop: at most the stop of this container, checked.\<close>

lemma stop_one_spec:
  assumes m'_def: "m' = stop_one E ctx (BuildReverseDeps cfgs) toStop name m" and S_def: "S = set toStop"
  shows "\<exists>es. trace (mg_io m') = trace (mg_io m) @ es \<and> starts es = [] \<and>
    (stop_calls es = [] \<or> stop_calls es = [name]) \<and> guarded cfgs S es \<and> lastSeen m' = lastSeen m \<and>
    startStates m' = (if EvStop name True \<in> set es
      then (startStates m)(name \<mapsto> \<lparr>ss_Status = ''unknown'', ss_Err = ''''\<rparr>) else startStates m)"
proof -
  let ?ds = "outside_dependents cfgs S name"
  obtain needed m1 where sn: "still_needed E ctx toStop (BuildReverseDeps cfgs name) m = (needed, m1)"
    by (meson surj_pair)
  obtain r m2 where st: "on_io (GetContainerStatus E ctx name) m1 = (r, m2)" by (meson surj_pair)
  obtain e m3 where sp: "on_io (StopContainer E ctx name) m2 = (e, m3)" by (meson surj_pair)
  from still_needed_spec [OF sn] obtain sts where
    t1: "trace (mg_io m1) = trace (mg_io m) @ map2 EvInspect ?ds sts"
    and f1: "lastSeen m1 = lastSeen m" "startStates m1 = startStates m"
    and nn: "\<not> needed \<Longrightarrow> length sts = length ?ds \<and> Some ''running'' \<notin> set sts"
    unfolding outside_dependents_def S_def by blast
  have no: "EvStop name True \<notin> set (map2 EvInspect ?ds sts)" by auto
  from status_trace [OF st] obtain st1 where t2: "trace (mg_io m2) = trace (mg_io m1) @ [EvInspect name st1]"
    and run: "r = Inr ''running'' \<longleftrightarrow> st1 = Some ''running''"
    and f2: "lastSeen m2 = lastSeen m1" "startStates m2 = startStates m1" by blast
  have t3: "trace (mg_io m3) = trace (mg_io m2) @ [EvStop name (e = None)]"
    using sp by (auto simp: StopContainer_def elim!: on_io_cases dest!: trace_call)
  note f3 = on_io_frame [OF sp]
  consider (skip) "needed" | (down) "\<not> needed" "r \<noteq> Inr ''running''" | (stop) "\<not> needed" "r = Inr ''running''" by blast
  then show ?thesis
  proof cases
    case skip
    with sn have "m' = m1" by (simp add: m'_def stop_one_def)
    with t1 f1 no show ?thesis
      by (intro exI [of _ "map2 EvInspect ?ds sts"]) (auto intro: guarded_no_stop)
  next
    case down
    with sn st have "m' = m2" by (simp add: m'_def stop_one_def)
    with t1 t2 f1 f2 no show ?thesis
      by (intro exI [of _ "map2 EvInspect ?ds sts @ [EvInspect name st1]"]) (auto intro: guarded_no_stop)
  next
    case stop
    let ?pre = "map2 EvInspect ?ds sts @ [EvInspect name (Some ''running'')]"
    have "checked_stop cfgs S name ?pre"
      using nn stop(1) unfolding checked_stop_def by (intro exI [of _ "[]"] exI [of _ sts]) simp
    then have g: "guarded cfgs S (?pre @ EvStop name (e = None) # post)" if "stop_calls post = []" for post
      using that by (intro guarded_single) simp_all
    let ?post = "if e = None then [MetricIdleStop name] else []"
    have "trace (mg_io m') = trace (mg_io m3) @ ?post \<and> lastSeen m' = lastSeen m3 \<and>
        startStates m' = (if e = None then (startStates m3)(name \<mapsto> \<lparr>ss_Status = ''unknown'', ss_Err = ''''\<rparr>) else startStates m3)"
      using sn st sp stop by (cases e) (auto simp: m'_def stop_one_def on_io_def RecordIdleStop_def)
    with t1 t2 t3 f1 f2 f3 no run stop g [of ?post] show ?thesis
      by (intro exI [of _ "?pre @ EvStop name (e = None) # ?post"]) auto
  qed
qed

section \<open>The cascade\<close>

lemma set_fold_insert [simp]: "set (fold List.insert xs ys) = set xs \<union> set ys"
  by (induction xs arbitrary: ys) auto

lemma collect_stop_set:
  "set (collect_stop cfgs eps acc) = set acc \<union> (dep_rel cfgs)\<^sup>* `` sortable cfgs eps"
proof (induction cfgs eps acc rule: collect_stop.induct)
  case (1 cfgs acc)
  then show ?case by simp
next
  case (2 cfgs ep eps acc)
  show ?case
  proof (cases "TopologicalSort ep cfgs")
    case (Inl err)
    with 2(1) [OF Inl] show ?thesis by simp
  next
    case (Inr chain)
    with 2(2) [OF Inr] TopologicalSort_set [OF Inr] show ?thesis by auto
  qed
qed

text \<open>Ranging over a map visits exactly its keys.\<close>

definition ranges_keys :: "'w env \<Rightarrow> bool" where
  "ranges_keys E \<longleftrightarrow> (\<forall>xs w. set (fst (RangeOrder E xs w)) = set xs)"

lemma stop_loop_spec:
  "\<exists>es ms. trace (mg_io (foldl (\<lambda>m n. stop_one E ctx (BuildReverseDeps cfgs) toStop n m) m names)) =
       trace (mg_io m) @ es \<and> starts es = [] \<and> stop_calls es = ms \<and> subseq ms names \<and>
     guarded cfgs (set toStop) es \<and>
     lastSeen (foldl (\<lambda>m n. stop_one E ctx (BuildReverseDeps cfgs) toStop n m) m names) = lastSeen m \<and>
     (\<forall>n. n \<notin> set ms \<longrightarrow>
       startStates (foldl (\<lambda>m n. stop_one E ctx (BuildReverseDeps cfgs) toStop n m) m names) n = startStates m n)"
proof (induction names arbitrary: m)
  case Nil
  then show ?case by simp
next
  case (Cons n names)
  let ?m1 = "stop_one E ctx (BuildReverseDeps cfgs) toStop n m"
  let ?m' = "foldl (\<lambda>m n. stop_one E ctx (BuildReverseDeps cfgs) toStop n m) ?m1 names"
  from stop_one_spec [OF refl refl, of E ctx cfgs toStop n m] obtain es1 where
    1: "trace (mg_io ?m1) = trace (mg_io m) @ es1" "starts es1 = []" "guarded cfgs (set toStop) es1"
      "stop_calls es1 = [] \<or> stop_calls es1 = [n]" "lastSeen ?m1 = lastSeen m"
    and s: "startStates ?m1 = (if EvStop n True \<in> set es1
      then (startStates m)(n \<mapsto> \<lparr>ss_Status = ''unknown'', ss_Err = ''''\<rparr>) else startStates m)" by blast
  have s1: "startStates ?m1 k = startStates m k" if "k \<notin> set (stop_calls es1)" for k
    using s 1(4) that by (auto simp: no_stop_calls)
  from Cons.IH [of ?m1] obtain es2 where
    2: "trace (mg_io ?m') = trace (mg_io ?m1) @ es2" "starts es2 = []" "subseq (stop_calls es2) names"
      "guarded cfgs (set toStop) es2" "lastSeen ?m' = lastSeen ?m1"
      "\<forall>k. k \<notin> set (stop_calls es2) \<longrightarrow> startStates ?m' k = startStates ?m1 k" by blast
  have "subseq (stop_calls (es1 @ es2)) (n # names)" using 1(4) 2(3) by auto
  with 1 2 s1 guarded_append [OF 1(3) 2(4)] show ?case
    by (intro exI [of _ "es1 @ es2"] exI [of _ "stop_calls (es1 @ es2)"]) simp
qed

text \<open>What is known of a cascade: the stops made, their order and that each was checked.\<close>

lemma cascadeStop_spec:
  assumes "detectDependencyCycles cfgs = None" and "ranges_keys E"
    and m': "m' = cascadeStop E ctx eps cfgs m"
  shows "\<exists>es. trace (mg_io m') = trace (mg_io m) @ es \<and> effect (set (stop_calls es)) [] (stop_calls es) m m' \<and>
    lastSeen m' = lastSeen m \<and> distinct (stop_calls es) \<and>
    set (stop_calls es) \<subseteq> (dep_rel cfgs)\<^sup>* `` sortable cfgs eps \<and>
    sorted_wrt (\<lambda>a b. a \<notin> set (deps_of cfgs b)) (stop_calls es) \<and>
    guarded cfgs ((dep_rel cfgs)\<^sup>* `` sortable cfgs eps) es"
proof -
  let ?S = "(dep_rel cfgs)\<^sup>* `` sortable cfgs eps"
  have S: "set (collect_stop cfgs eps []) = ?S" by (simp add: collect_stop_set)
  show ?thesis
  proof (cases "collect_stop cfgs eps [] = []")
    case True
    then have "m' = m" by (simp add: m' cascadeStop_def)
    then show ?thesis by (intro exI [of _ "[]"]) simp
  next
    case False
    obtain iter m1 where r: "on_io (call (RangeOrder E (collect_stop cfgs eps [])) (\<lambda>_. [])) m = (iter, m1)"
      by (meson surj_pair)
    have iter: "set iter = ?S"
      using call_mgr_world [OF r] assms(2) S by (simp add: ranges_keys_def)
    have t1: "trace (mg_io m1) = trace (mg_io m)" using r by (auto elim!: on_io_cases dest!: trace_call)
    define names where "names = rev (topoMergeStop ?S iter cfgs)"
    have m'': "m' = foldl (\<lambda>m n. stop_one E ctx (BuildReverseDeps cfgs) (collect_stop cfgs eps []) n m) m1 names"
      using False r by (simp add: m' cascadeStop_def Let_def names_def S)
    from stop_loop_spec [of E ctx cfgs "collect_stop cfgs eps []" m1 names] obtain es where
      es: "trace (mg_io m') = trace (mg_io m1) @ es" "starts es = []" "subseq (stop_calls es) names"
        "guarded cfgs ?S es" "lastSeen m' = lastSeen m1"
        "\<forall>n. n \<notin> set (stop_calls es) \<longrightarrow> startStates m' n = startStates m1 n"
      unfolding m'' S by blast
    have ord: "stop_sort_opt (iter, cfgs) = Some (rev names)"
      using assms(1) by (simp add: stop_sort_opt_def names_def iter)
    have "distinct names" using stop_sort.sort_distinct [OF ord] by simp
    then have d: "distinct (stop_calls es)"
      using subseq_sorted_wrt [OF es(3)] by (simp add: distinct_sorted_wrt)
    have "acyclic (dep_rel cfgs)" using assms(1) by (simp add: detect_None_iff)
    then have "set names = ?S" using topoMergeStop_spec iter by (simp add: names_def)
    then have sub: "set (stop_calls es) \<subseteq> ?S" using subseq_set [OF es(3)] by blast
    have "sorted_wrt (\<lambda>a b. a \<notin> stop_deps cfgs ?S b) (stop_calls es)"
      using subseq_sorted_wrt [OF es(3)] stop_sort.sort_stop_order [OF ord] by (simp add: iter)
    then have o: "sorted_wrt (\<lambda>a b. a \<notin> set (deps_of cfgs b)) (stop_calls es)"
      using sub by (auto simp: stop_deps_def intro: sorted_wrt_mono_rel [rotated])
    note f1 = on_io_frame [OF r]
    have "effect (set (stop_calls es)) [] (stop_calls es) m m'"
      using es t1 f1 by (auto simp: effect_def)
    with es t1 f1 d sub o show ?thesis by (intro exI [of _ es]) simp
  qed
qed

text \<open>
  C7 (safety, \<^verbatim>\<open>cascadeStop\<close>): on a configuration without dependency cycles a cascade
  starts nothing, stops each container at most once, only containers of the idle entry
  points' chains, and never a dependency before a container that depends on it; activity
  is untouched and start states change only for the containers it stops.
\<close>

theorem cascadeStop_order:
  assumes "detectDependencyCycles cfgs = None" and "ranges_keys E"
  shows "\<exists>ms. effect (set ms) [] ms m (cascadeStop E ctx eps cfgs m) \<and>
    lastSeen (cascadeStop E ctx eps cfgs m) = lastSeen m \<and> distinct ms \<and>
    set ms \<subseteq> (dep_rel cfgs)\<^sup>* `` sortable cfgs eps \<and>
    sorted_wrt (\<lambda>a b. a \<notin> set (deps_of cfgs b)) ms"
  using cascadeStop_spec [OF assms refl, of ctx eps m] by blast

text \<open>
  C22 (safety, \<^verbatim>\<open>cascadeStop\<close>): every stop of a cascade is checked: right before it, each
  direct dependent outside the set to stop was inspected and not found running, and the
  container itself was found running.
\<close>

theorem cascadeStop_checked:
  assumes "detectDependencyCycles cfgs = None" and "ranges_keys E"
  shows "\<exists>es. trace (mg_io (cascadeStop E ctx eps cfgs m)) = trace (mg_io m) @ es \<and>
    guarded cfgs ((dep_rel cfgs)\<^sup>* `` sortable cfgs eps) es"
  using cascadeStop_spec [OF assms refl, of ctx eps m] by blast

section \<open>Which containers are idle\<close>

lemma checkIdle_spec:
  assumes "detectDependencyCycles cfgs = None" and "ranges_keys E"
  shows "\<exists>ms. effect (set ms) [] ms m (checkIdle E ctx cfgs m) \<and>
    lastSeen (checkIdle E ctx cfgs m) = lastSeen m \<and>
    (\<forall>n \<in> set ms. \<exists>cfg \<in> set cfgs. \<exists>seen. c_Host cfg \<noteq> '''' \<and> c_IdleTimeout cfg \<noteq> 0 \<and>
       lastSeen m (c_Name cfg) = Some seen \<and>
       c_IdleTimeout cfg \<le> time_Sub (fst (Now E (world (mg_io m)))) seen \<and>
       (c_Name cfg, n) \<in> (dep_rel cfgs)\<^sup>*)"
proof -
  obtain now m1 where t: "time_Now E m = (now, m1)" by (meson surj_pair)
  have now: "now = fst (Now E (world (mg_io m)))"
    using t by (auto simp: time_Now_def dest: call_mgr_world)
  let ?eps = "map c_Name (filter (idle_entry (lastSeen m) now) cfgs)"
  note f = time_Now_fields [OF t]
  show ?thesis
  proof (cases "?eps = []")
    case True
    with t have "checkIdle E ctx cfgs m = m1" by (simp add: checkIdle_def)
    with effect_time_Now [OF t, of "{}"] f show ?thesis by (intro exI [of _ "[]"]) simp
  next
    case False
    with t have c: "checkIdle E ctx cfgs m = cascadeStop E ctx ?eps cfgs m1"
      by (simp add: checkIdle_def)
    from cascadeStop_spec [OF assms refl, of ctx ?eps m1] obtain ms where
      ms: "effect (set ms) [] ms m1 (checkIdle E ctx cfgs m)" "lastSeen (checkIdle E ctx cfgs m) = lastSeen m1"
        "set ms \<subseteq> (dep_rel cfgs)\<^sup>* `` sortable cfgs ?eps" unfolding c by blast
    have idle: "\<exists>cfg \<in> set cfgs. \<exists>seen. c_Host cfg \<noteq> '''' \<and> c_IdleTimeout cfg \<noteq> 0 \<and>
       lastSeen m (c_Name cfg) = Some seen \<and> c_IdleTimeout cfg \<le> time_Sub now seen \<and>
       (c_Name cfg, n) \<in> (dep_rel cfgs)\<^sup>*" if "n \<in> set ms" for n
    proof -
      from that ms(3) obtain ep where "ep \<in> sortable cfgs ?eps" and n: "(ep, n) \<in> (dep_rel cfgs)\<^sup>*" by blast
      then obtain cfg where "cfg \<in> set cfgs" "idle_entry (lastSeen m) now cfg" "ep = c_Name cfg"
        by (auto simp: sortable_def)
      with n show ?thesis by (auto simp: idle_entry_def split: if_splits option.splits)
    qed
    have "effect (set ms) [] ms m (checkIdle E ctx cfgs m)"
      by (rule effect_silent_then [OF effect_time_Now [OF t] ms(1)])
    with ms(2) f idle show ?thesis unfolding now by auto
  qed
qed

text \<open>
  \<^verbatim>\<open>checkIdle\<close>: a container is stopped only as part of the chain of an entry
  point that has a host and an idle timeout, has been active, and whose last activity lies
  at least that timeout back.
\<close>

theorem checkIdle_only_idle:
  assumes "detectDependencyCycles cfgs = None" and "ranges_keys E"
  shows "\<exists>ms. effect (set ms) [] ms m (checkIdle E ctx cfgs m) \<and>
    lastSeen (checkIdle E ctx cfgs m) = lastSeen m \<and>
    (\<forall>n \<in> set ms. \<exists>cfg \<in> set cfgs. \<exists>seen. c_Host cfg \<noteq> '''' \<and> c_IdleTimeout cfg \<noteq> 0 \<and>
       lastSeen m (c_Name cfg) = Some seen \<and>
       c_IdleTimeout cfg \<le> time_Sub (fst (Now E (world (mg_io m)))) seen \<and>
       (c_Name cfg, n) \<in> (dep_rel cfgs)\<^sup>*)"
  using assms by (rule checkIdle_spec)

section \<open>Evaluation on the sample daemon\<close>

definition all_up :: "string list \<Rightarrow> (string list \<times> nat) mgr" where
  "all_up up = NewContainerManager (up, 0)"

lemma chain_no_cycle: "detectDependencyCycles chain_cs = None"
  unfolding detectDependencyCycles_def
  by (subst chain_cs_def [THEN arg_cong [where f = "cyc_roots chain_cs"]])
    (simp add: cyc_visit_Unvisited sample_deps)

lemma sim_ranges: "ranges_keys sim_env"
  by (simp add: ranges_keys_def)

lemma chain_sortable: "sortable chain_cs [''app''] = {''app''}"
  "(dep_rel chain_cs)\<^sup>* `` {''app''} = {''db'', ''api'', ''app''}"
proof -
  have t: "TopologicalSort ''app'' chain_cs = Inr [''db'', ''api'', ''app'']"
    by (simp add: TopologicalSort_def chain_cs_def container_map_def topo_visit.simps(2))
  then show "sortable chain_cs [''app''] = {''app''}" by simp
  from TopologicalSort_set [OF t] show "(dep_rel chain_cs)\<^sup>* `` {''app''} = {''db'', ''api'', ''app''}" by simp
qed

lemma cascadeStop_order_witness:
  "\<exists>ms. effect (set ms) [] ms (all_up [''app'', ''api'', ''db''])
       (cascadeStop sim_env CtxRoot [''app''] chain_cs (all_up [''app'', ''api'', ''db''])) \<and>
     distinct ms \<and> set ms \<subseteq> {''db'', ''api'', ''app''}"
  using cascadeStop_order [OF chain_no_cycle sim_ranges, of "all_up [''app'', ''api'', ''db'']" CtxRoot "[''app'']"]
  unfolding chain_sortable by blast

lemma cascadeStop_checked_witness:
  "\<exists>es. trace (mg_io (cascadeStop sim_env CtxRoot [''app''] chain_cs (all_up [''app'', ''api'', ''db'']))) = es \<and>
     guarded chain_cs {''db'', ''api'', ''app''} es"
  using cascadeStop_checked [OF chain_no_cycle sim_ranges, of CtxRoot "[''app'']" "all_up [''app'', ''api'', ''db'']"]
  unfolding chain_sortable by (simp add: all_up_def NewContainerManager_def)

lemma checkIdle_only_idle_witness:
  "\<exists>ms. effect (set ms) [] ms (all_up [''app'', ''api'', ''db''])
       (checkIdle sim_env CtxRoot chain_cs (all_up [''app'', ''api'', ''db''])) \<and> ms = []"
proof -
  from checkIdle_only_idle [OF chain_no_cycle sim_ranges, of "all_up [''app'', ''api'', ''db'']" CtxRoot]
  obtain ms where "effect (set ms) [] ms (all_up [''app'', ''api'', ''db''])
      (checkIdle sim_env CtxRoot chain_cs (all_up [''app'', ''api'', ''db'']))"
    and "\<forall>n \<in> set ms. \<exists>cfg \<in> set chain_cs. \<exists>seen. lastSeen (all_up [''app'', ''api'', ''db'']) (c_Name cfg) = Some seen"
    by blast
  moreover have "lastSeen (all_up [''app'', ''api'', ''db'']) = Map.empty"
    by (simp add: all_up_def NewContainerManager_def)
  ultimately show ?thesis by (intro exI [of _ ms]) auto
qed

text \<open>
  Only direct dependents outside the set are checked. Here \<open>app\<close> and \<open>other\<close> both need
  \<open>mid\<close>, which needs \<open>db\<close>.
\<close>

definition shared_cs :: "ContainerConfig list" where
  "shared_cs = [mk_ctr ''app'' ''app.localhost'' [''mid''], mk_ctr ''other'' ''other.localhost'' [''mid''],
     mk_ctr ''mid'' '''' [''db''], mk_ctr ''db'' '''' []]"

lemma shared_eval:
  "TopologicalSort ''app'' shared_cs = Inr [''db'', ''mid'', ''app'']"
  "topoMergeStop {''app'', ''mid'', ''db''} [''app'', ''mid'', ''db''] shared_cs = [''db'', ''mid'', ''app'']"
  "BuildReverseDeps shared_cs ''db'' = [''mid'']" "BuildReverseDeps shared_cs ''app'' = []"
  "BuildReverseDeps shared_cs ''mid'' = [''app'', ''other'']"
  by (simp_all add: TopologicalSort_def topoMergeStop_def BuildReverseDeps_def shared_cs_def container_map_def
      topo_visit.simps(2) merge_visit.simps(2))

text \<open>
  \<^verbatim>\<open>cascadeStop\<close>: a container kept up for a running dependent outside the
  cascade can lose its own dependency to that same cascade: \<open>db\<close> is stopped while \<open>mid\<close>,
  which depends on it, is kept running for \<open>other\<close>.
\<close>

theorem cascadeStop_strands_dependency:
  "fst (world (mg_io (cascadeStop sim_env CtxRoot [''app''] shared_cs
     (all_up [''app'', ''other'', ''mid'', ''db''])))) = [''other'', ''mid'']"
  by (simp add: cascadeStop_def shared_eval Let_def on_io_def call_def stop_one_def docker_ops
      all_up_def NewContainerManager_def RecordIdleStop_def)

text \<open>
  Two containers with hosts of their own and an idle timeout of an hour each, \<open>app\<close> needing
  \<open>api\<close>, two hours after \<open>app\<close> and at the very moment \<open>api\<close> served a request.
\<close>

definition layered_cs :: "ContainerConfig list" where
  "layered_cs = [(mk_ctr ''app'' ''app.localhost'' [''api''])\<lparr>c_IdleTimeout := 3600 * second\<rparr>,
     (mk_ctr ''api'' ''api.localhost'' [])\<lparr>c_IdleTimeout := 3600 * second\<rparr>]"

definition layered_mgr :: "(string list \<times> nat) mgr" where
  "layered_mgr = (NewContainerManager ([''app'', ''api''], 7200))
     \<lparr>lastSeen := [''app'' \<mapsto> 0, ''api'' \<mapsto> 7200 * second]\<rparr>"

lemma layered_eval:
  "TopologicalSort ''app'' layered_cs = Inr [''api'', ''app'']"
  "topoMergeStop {''app'', ''api''} [''app'', ''api''] layered_cs = [''api'', ''app'']"
  "topoMergeStop {''api'', ''app''} [''api'', ''app''] layered_cs = [''api'', ''app'']"
  "BuildReverseDeps layered_cs ''api'' = [''app'']" "BuildReverseDeps layered_cs ''app'' = []"
  by (simp_all add: TopologicalSort_def topoMergeStop_def BuildReverseDeps_def layered_cs_def container_map_def
      topo_visit.simps(2) merge_visit.simps(2))

lemma layered_idle:
  "map c_Name (filter (idle_entry (lastSeen layered_mgr) (7200 * second)) layered_cs) = [''app'']"
  by (simp add: layered_cs_def layered_mgr_def idle_entry_def time_Sub_def duration_defs minDuration_def maxDuration_def)

text \<open>
  \<^verbatim>\<open>checkIdle\<close>: an entry point that another one depends on is stopped with
  that other one, its own activity notwithstanding: \<open>api\<close>, in use, is stopped because \<open>app\<close>
  is idle.
\<close>

theorem checkIdle_stops_active_dependency:
  "lastSeen layered_mgr ''api'' = Some (fst (Now sim_env (world (mg_io layered_mgr)))) \<and>
   fst (world (mg_io (checkIdle sim_env CtxRoot layered_cs layered_mgr))) = []"
proof -
  have t: "time_Now sim_env layered_mgr = (7200 * second, layered_mgr)"
    by (simp add: time_Now_def on_io_def call_def layered_mgr_def NewContainerManager_def)
  have "fst (world (mg_io (cascadeStop sim_env CtxRoot [''app''] layered_cs layered_mgr))) = []"
    by (simp add: cascadeStop_def layered_eval Let_def on_io_def call_def stop_one_def docker_ops
        layered_mgr_def NewContainerManager_def RecordIdleStop_def)
  moreover have "filter (idle_entry (lastSeen layered_mgr) (7200 * second)) layered_cs \<noteq> []"
    using layered_idle by auto
  ultimately have "fst (world (mg_io (checkIdle sim_env CtxRoot layered_cs layered_mgr))) = []"
    by (simp add: checkIdle_def t layered_idle)
  then show ?thesis by (simp add: layered_mgr_def NewContainerManager_def)
qed

end
