(* ===== verification/Gateway.thy ===== *)
theory Gateway
  imports Dashboard Discovery Loading IdleWatcher
begin

text \<open>
  The running process: what \<^verbatim>\<open>main.go\<close> builds and starts, and the events that drive it
  from then on - requests, goroutines the handlers started, discovery ticks, reload signals,
  idle-watcher ticks, cron jobs and rate-limiter clean-ups. An event is taken as a whole;
  the handlers of two events are not interleaved statement by statement.
\<close>

section \<open>Start-up\<close>

text \<open>
  The state: the server, the discovery manager, and the authentication settings that
  \<^verbatim>\<open>Server.Start\<close> captured for the admin routes.
\<close>

record ('w, 'c) gateway =
  gw_server :: "('w, 'c) server"
  gw_disc :: disc
  gw_auth :: AdminAuthConfig

text \<open>How the process can end before it serves; a panic is the one of \<^verbatim>\<open>time.NewTicker\<close>.\<close>

datatype exit_reason = ConfigFailed load_error | DockerFailed string | TickerPanic

text \<open>The callback \<^verbatim>\<open>onConfigChange\<close> is \<^verbatim>\<open>server.ReloadConfig\<close>.\<close>

definition push_config :: "('w, 'c) outside \<Rightarrow> GatewayConfig option \<Rightarrow> ('w, 'c) server \<Rightarrow> ('w, 'c) server" where
  "push_config Q pushed s = (case pushed of None \<Rightarrow> s | Some cfg \<Rightarrow> ReloadConfig Q cfg s)"

definition run_pass :: "('w, 'c) outside \<Rightarrow> (disc \<Rightarrow> 'w io \<Rightarrow> (GatewayConfig option \<times> disc \<times> 'w io) option) \<Rightarrow>
    ('w, 'c) gateway \<Rightarrow> ('w, 'c) gateway option" where
  "run_pass Q pass g =
     (let s = gw_server g; m = sv_manager s in
      case pass (gw_disc g) (mg_io m) of
        None \<Rightarrow> None
      | Some (pushed, dm, io) \<Rightarrow>
          Some (g\<lparr>gw_disc := dm, gw_server := push_config Q pushed (s\<lparr>sv_manager := m\<lparr>mg_io := io\<rparr>\<rparr>)\<rparr>))"

text \<open>
  A pass of the polling loop, and the handling of a reload signal; the clocks are the
  instants the validations read, \<open>pd\<close> is \<^verbatim>\<open>time.ParseDuration\<close>.
\<close>

definition discovery_pass :: "('w, 'c) outside \<Rightarrow> (string \<Rightarrow> duration option) \<Rightarrow> (nat \<Rightarrow> time) \<Rightarrow>
    ('w, 'c) gateway \<Rightarrow> ('w, 'c) gateway option" where
  "discovery_pass Q pd clock = run_pass Q (runDiscovery (o_libs Q) clock (o_env Q) pd CtxRoot)"

definition hot_reload :: "('w, 'c) outside \<Rightarrow> (string \<Rightarrow> duration option) \<Rightarrow> host \<Rightarrow> (nat \<Rightarrow> time) \<Rightarrow> (nat \<Rightarrow> time) \<Rightarrow>
    ('w, 'c) gateway \<Rightarrow> ('w, 'c) gateway option" where
  "hot_reload Q pd H clock1 clock2 g =
     (case LoadConfig (o_libs Q) clock1 H of
        None \<Rightarrow> None
      | Some (Inl err) \<Rightarrow> Some g
      | Some (Inr newCfg) \<Rightarrow>
          run_pass Q (UpdateStaticConfig (o_libs Q) clock2 (o_env Q) pd newCfg) g)"

text \<open>The registration of the initial jobs in \<^verbatim>\<open>main\<close>.\<close>

definition initial_sync :: "('w, 'c) outside \<Rightarrow> GatewayConfig \<Rightarrow> ('w, 'c) server \<Rightarrow> ('w, 'c) server" where
  "initial_sync Q cfg s =
     s\<lparr>sv_scheduler := Sync (o_libs Q) (o_cron Q) (Containers cfg)
         (ResolveLocation (o_libs Q) (ScheduleTimezone (Gateway cfg))) (sv_scheduler s)\<rparr>"

text \<open>
  \<^verbatim>\<open>main\<close> up to the point where it serves. \<open>client\<close> is the error of creating the Docker
  client, if any; \<open>w\<close> and \<open>c\<close> are the first states of the world and of the cron library.
\<close>

definition start_gateway :: "('w, 'c) outside \<Rightarrow> (string \<Rightarrow> duration option) \<Rightarrow> host \<Rightarrow> (nat \<Rightarrow> time) \<Rightarrow> (nat \<Rightarrow> time) \<Rightarrow>
    string option \<Rightarrow> 'w \<Rightarrow> 'c \<Rightarrow> (exit_reason + ('w, 'c) gateway) option" where
  "start_gateway Q pd H clock1 clock2 client w c =
     (case LoadConfig (o_libs Q) clock1 H of
        None \<Rightarrow> None
      | Some (Inl err) \<Rightarrow> Some (Inl (ConfigFailed err))
      | Some (Inr cfg) \<Rightarrow>
          (case client of
             Some err \<Rightarrow> Some (Inl (DockerFailed err))
           | None \<Rightarrow>
               (let manager = NewContainerManager w;
                    scheduler = NewScheduleManager c;
                    server = NewServer (o_libs Q) manager scheduler cfg;
                    g0 = \<lparr>gw_server = server, gw_disc = NewDiscoveryManager cfg, gw_auth = AdminAuth (Gateway cfg)\<rparr>
                in case discovery_pass Q pd clock2 g0 of
                     None \<Rightarrow> None
                   | Some g1 \<Rightarrow>
                       if ticker_panics (DiscoveryInterval (Gateway cfg)) then Some (Inl TickerPanic)
                       else
                         (let s1 = initial_sync Q cfg (gw_server g1)
                          in Some (Inr (g1\<lparr>gw_server := s1, gw_auth := AdminAuth (Gateway (GetConfig s1))\<rparr>))))))"

section \<open>Events\<close>

datatype gw_event =
    Request request
  | Goroutine nat
  | DiscoveryTick "nat \<Rightarrow> time"
  | Sighup host "nat \<Rightarrow> time" "nat \<Rightarrow> time"
  | IdleTick
  | CronFires nat
  | CleanupTick

definition with_server :: "('w, 'c) gateway \<Rightarrow> ('w, 'c) server \<Rightarrow> ('w, 'c) gateway" where
  "with_server g s = g\<lparr>gw_server := s\<rparr>"

text \<open>
  The bodies of the background goroutines: a tick of the idle watcher with the callback of
  \<^verbatim>\<open>main\<close>, a job the cron library runs once it is started, a tick of \<^verbatim>\<open>startCleanup\<close>.
\<close>

definition idle_tick :: "('w, 'c) outside \<Rightarrow> ('w, 'c) server \<Rightarrow> ('w, 'c) server" where
  "idle_tick Q s = mgr_do (checkIdle (o_env Q) CtxRoot (Containers (GetConfig s))) s"

definition cron_fires :: "('w, 'c) outside \<Rightarrow> nat \<Rightarrow> ('w, 'c) server \<Rightarrow> ('w, 'c) server option" where
  "cron_fires Q eid s =
     (case cron_jobs (o_cron Q) (sm_cron (sv_scheduler s)) eid of
        None \<Rightarrow> Some s
      | Some (spec, j) \<Rightarrow> map_option (\<lambda>m. s\<lparr>sv_manager := m\<rparr>) (run_job (o_env Q) j (sv_manager s)))"

definition cleanup_tick :: "('w, 'c) outside \<Rightarrow> ('w, 'c) server \<Rightarrow> ('w, 'c) server" where
  "cleanup_tick Q s =
     (case clock_now Q s of (t, s1) \<Rightarrow> s1\<lparr>sv_rateLimiter := evictStale t (sv_rateLimiter s1)\<rparr>)"

fun react :: "('w, 'c) outside \<Rightarrow> (string \<Rightarrow> duration option) \<Rightarrow> gw_event \<Rightarrow> ('w, 'c) gateway \<Rightarrow>
    ('w, 'c) gateway option" where
  "react Q pd (Request r) g =
     map_option (\<lambda>(resp, s). with_server g s) (serve Q (gw_auth g) r (gw_server g))"
| "react Q pd (Goroutine i) g =
     (if i < length (sv_tasks (gw_server g))
      then map_option (\<lambda>(res, s). with_server g s) (run_pending Q i (gw_server g))
      else Some g)"
| "react Q pd (DiscoveryTick clock) g = discovery_pass Q pd clock g"
| "react Q pd (Sighup H clock1 clock2) g = hot_reload Q pd H clock1 clock2 g"
| "react Q pd IdleTick g = Some (with_server g (idle_tick Q (gw_server g)))"
| "react Q pd (CronFires eid) g = map_option (with_server g) (cron_fires Q eid (gw_server g))"
| "react Q pd CleanupTick g = Some (with_server g (cleanup_tick Q (gw_server g)))"

text \<open>The states a process can reach from one state, with the events that led there.\<close>

inductive runs :: "('e \<Rightarrow> 's \<Rightarrow> 's option) \<Rightarrow> 's \<Rightarrow> 'e list \<Rightarrow> 's \<Rightarrow> bool" for step where
  runs_refl: "runs step s [] s"
| runs_step: "runs step s es s' \<Longrightarrow> step e s' = Some s'' \<Longrightarrow> runs step s (es @ [e]) s''"

inductive_simps runs_Nil [simp]: "runs step s [] s'"
inductive_cases runs_snoc: "runs step s (es @ [e]) s'"

text \<open>The interface of an event loop that keeps an invariant.\<close>

locale event_loop =
  fixes step :: "'e \<Rightarrow> 's \<Rightarrow> 's option" and Inv :: "'s \<Rightarrow> bool"
  assumes step_keeps: "Inv s \<Longrightarrow> step e s = Some s' \<Longrightarrow> Inv s'"
begin

lemma runs_keep: "runs step s es s' \<Longrightarrow> Inv s \<Longrightarrow> Inv s'"
  by (induction rule: runs.induct) (auto dest: step_keeps)

end

section \<open>The invariant of the process\<close>

definition registered_jobs :: "('w, 'c) outside \<Rightarrow> ('w, 'c) server \<Rightarrow> (string \<times> job) set" where
  "registered_jobs Q s = ran (cron_jobs (o_cron Q) (sm_cron (sv_scheduler s)))"

definition scheduled_jobs :: "libs \<Rightarrow> GatewayConfig \<Rightarrow> (string \<times> job) set" where
  "scheduled_jobs L cfg =
     (\<Union>c \<in> set (Containers cfg). container_jobs L (ResolveLocation L (ScheduleTimezone (Gateway cfg))) c)"

text \<open>
  \<open>cfg0\<close> is the configuration loaded at start-up. The active configuration is validated and
  the server's indexes belong to it; the admin credentials never change; the configuration
  remembered by discovery is the active one; groups are those of start-up or none; and the
  jobs are those of the active configuration or still those of the file.
\<close>

definition gateway_inv :: "('w, 'c) outside \<Rightarrow> GatewayConfig \<Rightarrow> AdminAuthConfig \<Rightarrow> ('w, 'c) gateway \<Rightarrow> bool" where
  "gateway_inv Q cfg0 auth g \<longleftrightarrow>
     cron_lib_ok (o_libs Q) (o_cron Q) \<and>
     consistent (o_libs Q) (gw_server g) \<and>
     (\<exists>clock. Validate (o_libs Q) clock (sv_cfg (gw_server g)) = Some Pass) \<and>
     gw_auth g = auth \<and>
     sched_inv (o_cron Q) (sv_scheduler (gw_server g)) \<and>
     (registered_jobs Q (gw_server g) = scheduled_jobs (o_libs Q) cfg0 \<or>
      registered_jobs Q (gw_server g) = scheduled_jobs (o_libs Q) (sv_cfg (gw_server g))) \<and>
     (sv_cfg (gw_server g) = cfg0 \<or> Groups (sv_cfg (gw_server g)) = []) \<and>
     (lastConfig (gw_disc g) = None \<or>
      lastConfig (gw_disc g) = Some (sv_cfg (gw_server g)) \<and> Groups (sv_cfg (gw_server g)) = [])"

lemma gateway_inv_same:
  assumes "gateway_inv Q cfg0 auth g" and "same_config (gw_server g) s'"
  shows "gateway_inv Q cfg0 auth (with_server g s')"
  using assms consistent_same [OF assms(2)]
  by (simp add: gateway_inv_def with_server_def registered_jobs_def same_config_def)

lemma same_config_manager [simp]: "same_config s (s\<lparr>sv_manager := m\<rparr>)"
  by (simp add: same_config_def)

lemma same_config_trans: "same_config s s' \<Longrightarrow> same_config s' s'' \<Longrightarrow> same_config s s''"
  by (simp add: same_config_def)

lemma on_mgr_same: "on_mgr f s = (r, s') \<Longrightarrow> same_config s s'"
  by (auto simp: on_mgr_def same_config_def split: prod.splits)

lemma on_mgr_opt_same: "on_mgr_opt f s = Some (r, s') \<Longrightarrow> same_config s s'"
  by (auto simp: on_mgr_opt_def same_config_def)

lemma run_task_same:
  assumes "run_task Q t s = Some (res, s')"
  shows "same_config s s'"
proof -
  have ctx: "same_config s s1" if "task_context Q d s = (c, s1)" for d c s1
    using that on_mgr_same by (simp add: task_context_def)
  show ?thesis
  proof (cases t)
    case (TaskDeps n d cs)
    with assms show ?thesis by (auto simp: run_task_def split: prod.splits dest!: on_mgr_opt_same ctx intro: same_config_trans)
  next
    case (TaskStart cfg)
    with assms show ?thesis
      by (auto simp: run_task_def Let_def split: prod.splits option.splits if_splits dest!: on_mgr_opt_same ctx
          intro: same_config_trans)
  next
    case (TaskGroup g)
    with assms show ?thesis
      by (auto simp: run_task_def Let_def split: prod.splits dest!: on_mgr_opt_same ctx intro: same_config_trans)
  next
    case (TaskWake cfg)
    with assms show ?thesis by (auto simp: run_task_def split: prod.splits dest!: on_mgr_opt_same ctx intro: same_config_trans)
  qed
qed

lemma run_pending_same: "run_pending Q i s = Some (res, s') \<Longrightarrow> same_config s s'"
  using run_task_same by (fastforce simp: run_pending_def same_config_def)

text \<open>What a reload establishes, whatever was active before.\<close>

lemma ReloadConfig_jobs:
  assumes "cron_lib_ok (o_libs Q) (o_cron Q)" and "sched_inv (o_cron Q) (sv_scheduler s)"
    and "Validate (o_libs Q) clock cfg = Some Pass"
  shows "sched_inv (o_cron Q) (sv_scheduler (ReloadConfig Q cfg s))"
    "registered_jobs Q (ReloadConfig Q cfg s) = scheduled_jobs (o_libs Q) cfg"
  using Sync_synced [OF assms(1,2), of "Containers cfg" "ResolveLocation (o_libs Q) (ScheduleTimezone (Gateway cfg))"]
    valid_schedules_parse [OF assms(3)] assms(3)
  by (simp_all add: ReloadConfig_def registered_jobs_def scheduled_jobs_def synced_def Let_def resolveLocation_def
      Validate_Pass valid_config_def)

lemma initial_sync_jobs:
  assumes "cron_lib_ok (o_libs Q) (o_cron Q)" and "sched_inv (o_cron Q) (sv_scheduler s)"
    and "Validate (o_libs Q) clock cfg = Some Pass"
  shows "sched_inv (o_cron Q) (sv_scheduler (initial_sync Q cfg s))"
    "registered_jobs Q (initial_sync Q cfg s) = scheduled_jobs (o_libs Q) cfg"
  using Sync_synced [OF assms(1,2), of "Containers cfg" "ResolveLocation (o_libs Q) (ScheduleTimezone (Gateway cfg))"]
    valid_schedules_parse [OF assms(3)] assms(3)
  by (simp_all add: initial_sync_def registered_jobs_def scheduled_jobs_def synced_def Validate_Pass valid_config_def)

text \<open>A pass either leaves the server's configuration or replaces it by a valid one without groups.\<close>

lemma pass_cases:
  assumes "run_pass Q (runDiscovery (o_libs Q) clock E pd ctx) g = Some g'"
  obtains (quiet) "same_config (gw_server g) (gw_server g')" and "gw_disc g' = gw_disc g" and "gw_auth g' = gw_auth g"
    | (push) cfg dyn s where "cfg = mergeConfigs (staticConfig (gw_disc g)) dyn"
        and "Validate (o_libs Q) clock cfg = Some Pass" and "Groups cfg = []"
        and "same_config (gw_server g) s" and "gw_server g' = ReloadConfig Q cfg s"
        and "gw_disc g' = (gw_disc g)\<lparr>lastConfig := Some cfg\<rparr>" and "gw_auth g' = gw_auth g"
        and "lastConfig (gw_disc g) \<noteq> Some cfg"
proof -
  let ?s = "gw_server g"
  obtain pushed dm io where r: "runDiscovery (o_libs Q) clock E pd ctx (gw_disc g) (mg_io (sv_manager ?s)) = Some (pushed, dm, io)"
    and g': "g' = g\<lparr>gw_disc := dm, gw_server := push_config Q pushed (?s\<lparr>sv_manager := (sv_manager ?s)\<lparr>mg_io := io\<rparr>\<rparr>)\<rparr>"
    using assms by (auto simp: run_pass_def Let_def split: option.splits)
  from r show thesis
  proof (cases rule: runDiscovery_cases)
    case quiet
    show thesis by (rule that(1)) (simp_all add: g' quiet push_config_def)
  next
    case (push dyn)
    have none: "Groups (mergeConfigs (staticConfig (gw_disc g)) dyn) = []" by (simp add: mergeConfigs_def)
    have ne: "lastConfig (gw_disc g) \<noteq> Some (mergeConfigs (staticConfig (gw_disc g)) dyn)"
      using push(1,4) by simp
    show thesis
      by (rule that(2) [of "mergeConfigs (staticConfig (gw_disc g)) dyn" dyn
            "?s\<lparr>sv_manager := (sv_manager ?s)\<lparr>mg_io := io\<rparr>\<rparr>"])
        (simp_all add: g' push push_config_def none ne)
  qed
qed

lemma pass_keeps:
  assumes "gateway_inv Q cfg0 auth g" and "run_pass Q (runDiscovery (o_libs Q) clock E pd ctx) g = Some g'"
  shows "gateway_inv Q cfg0 auth g'"
  using assms(2)
proof (cases rule: pass_cases)
  case quiet
  then have "g' = with_server g (gw_server g')" by (cases g') (simp add: with_server_def)
  then show ?thesis using gateway_inv_same [OF assms(1) quiet(1)] by simp
next
  case (push cfg dyn s)
  have "sched_inv (o_cron Q) (sv_scheduler s)" "cron_lib_ok (o_libs Q) (o_cron Q)"
    using assms(1) push(4) by (simp_all add: gateway_inv_def same_config_def)
  note jobs = ReloadConfig_jobs [OF this(2,1) push(2)]
  have "sv_cfg (ReloadConfig Q cfg s) = cfg" by (simp add: ReloadConfig_def Let_def)
  then show ?thesis
    using assms(1) push(2,3,5,6,7) jobs consistent_ReloadConfig [of Q cfg s] by (auto simp: gateway_inv_def)
qed

lemma hot_reload_pass:
  assumes "LoadConfig (o_libs Q) clock1 H = Some (Inr cfg)"
  shows "hot_reload Q pd H clock1 clock2 g =
    run_pass Q (runDiscovery (o_libs Q) clock2 (o_env Q) pd CtxBackground) (g\<lparr>gw_disc := \<lparr>staticConfig = cfg, lastConfig = None\<rparr>\<rparr>)"
  using assms
  by (cases "gw_disc g")
    (auto simp: hot_reload_def run_pass_def UpdateStaticConfig_def Let_def split: option.splits)

lemma hot_reload_keeps:
  assumes "gateway_inv Q cfg0 auth g" and "hot_reload Q pd H clock1 clock2 g = Some g'"
  shows "gateway_inv Q cfg0 auth g'"
proof -
  obtain r where r: "LoadConfig (o_libs Q) clock1 H = Some r"
    using assms(2) by (auto simp: hot_reload_def split: option.splits)
  show ?thesis
  proof (cases r)
    case (Inl err)
    then show ?thesis using assms r by (simp add: hot_reload_def)
  next
    case (Inr cfg)
    let ?g = "g\<lparr>gw_disc := \<lparr>staticConfig = cfg, lastConfig = None\<rparr>\<rparr>"
    have "run_pass Q (runDiscovery (o_libs Q) clock2 (o_env Q) pd CtxBackground) ?g = Some g'"
      using assms(2) r Inr by (simp add: hot_reload_pass)
    moreover have "gateway_inv Q cfg0 auth ?g" using assms(1) by (simp add: gateway_inv_def)
    ultimately show ?thesis by (rule pass_keeps [rotated])
  qed
qed

lemma react_keeps:
  assumes "gateway_inv Q cfg0 auth g" and "react Q pd e g = Some g'"
  shows "gateway_inv Q cfg0 auth g'"
proof (cases e)
  case (Request r)
  then show ?thesis
    using assms gateway_inv_same serves_config [OF serve_serves] by fastforce
next
  case (Goroutine i)
  then show ?thesis
    using assms gateway_inv_same run_pending_same by (fastforce split: if_splits)
next
  case (DiscoveryTick clock)
  then show ?thesis using assms pass_keeps by (simp add: discovery_pass_def)
next
  case (Sighup H clock1 clock2)
  then show ?thesis using assms hot_reload_keeps by simp
next
  case IdleTick
  then show ?thesis
    using assms(2) gateway_inv_same [OF assms(1) same_config_manager] by (auto simp: idle_tick_def mgr_do_def)
next
  case (CronFires eid)
  have "same_config (gw_server g) (gw_server g)" by (simp add: same_config_def)
  then show ?thesis
    using CronFires assms(2) gateway_inv_same [OF assms(1)] by (auto simp: cron_fires_def split: option.splits)
next
  case CleanupTick
  obtain t s where c: "clock_now Q (gw_server g) = (t, s)" by (meson surj_pair)
  have "same_config (gw_server g) (s\<lparr>sv_rateLimiter := x\<rparr>)" for x
    using on_mgr_same [OF c [unfolded clock_now_def]] by (simp add: same_config_def)
  then show ?thesis using CleanupTick assms(2) c gateway_inv_same [OF assms(1)] by (auto simp: cleanup_tick_def)
qed

interpretation gw_loop: event_loop "react Q pd" "gateway_inv Q cfg0 auth" for Q pd cfg0 auth
  by unfold_locales (rule react_keeps)

section \<open>From start-up on\<close>

lemma start_gateway_Inr:
  assumes "start_gateway Q pd H clock1 clock2 client w c = Some (Inr g)"
  obtains cfg g1 where "LoadConfig (o_libs Q) clock1 H = Some (Inr cfg)" and "client = None"
    and "discovery_pass Q pd clock2 \<lparr>gw_server = NewServer (o_libs Q) (NewContainerManager w) (NewScheduleManager c) cfg,
           gw_disc = NewDiscoveryManager cfg, gw_auth = AdminAuth (Gateway cfg)\<rparr> = Some g1"
    and "0 < DiscoveryInterval (Gateway cfg)"
    and "g = g1\<lparr>gw_server := initial_sync Q cfg (gw_server g1),
           gw_auth := AdminAuth (Gateway (GetConfig (initial_sync Q cfg (gw_server g1))))\<rparr>"
  using assms by (auto simp: start_gateway_def ticker_panics_def Let_def split: option.splits sum.splits if_splits)

lemma LoadConfig_valid: "LoadConfig L clock H = Some (Inr cfg) \<Longrightarrow> Validate L clock cfg = Some Pass"
  by (erule LoadConfig_Inr)

lemma empty_sched_inv: "cron_jobs C c = Map.empty \<Longrightarrow> sched_inv C (NewScheduleManager c)"
  by (simp add: sched_inv_def NewScheduleManager_def entry_ids_def)

lemma initial_sync_fields [simp]:
  "sv_cfg (initial_sync Q cfg s) = sv_cfg s" "consistent L (initial_sync Q cfg s) = consistent L s"
  by (simp_all add: initial_sync_def consistent_def)

lemma start_spec:
  assumes "cron_lib_ok (o_libs Q) (o_cron Q)" and "cron_jobs (o_cron Q) c = Map.empty"
    and "start_gateway Q pd H clock1 clock2 client w c = Some (Inr g)"
  obtains cfg where "LoadConfig (o_libs Q) clock1 H = Some (Inr cfg)"
    and "gateway_inv Q cfg (AdminAuth (Gateway cfg)) g"
    and "registered_jobs Q (gw_server g) = scheduled_jobs (o_libs Q) cfg"
    and "lastConfig (gw_disc g) = None \<longrightarrow> sv_cfg (gw_server g) = cfg"
proof -
  obtain cfg g1 where l: "LoadConfig (o_libs Q) clock1 H = Some (Inr cfg)"
    and p: "discovery_pass Q pd clock2 \<lparr>gw_server = NewServer (o_libs Q) (NewContainerManager w) (NewScheduleManager c) cfg,
           gw_disc = NewDiscoveryManager cfg, gw_auth = AdminAuth (Gateway cfg)\<rparr> = Some g1"
    and g: "g = g1\<lparr>gw_server := initial_sync Q cfg (gw_server g1),
           gw_auth := AdminAuth (Gateway (GetConfig (initial_sync Q cfg (gw_server g1))))\<rparr>"
    using assms(3) by (rule start_gateway_Inr)
  let ?s0 = "NewServer (o_libs Q) (NewContainerManager w) (NewScheduleManager c) cfg"
  note v = LoadConfig_valid [OF l] and e = empty_sched_inv [OF assms(2)]
  have "consistent (o_libs Q) (gw_server g1) \<and> (\<exists>clock. Validate (o_libs Q) clock (sv_cfg (gw_server g1)) = Some Pass) \<and>
      AdminAuth (Gateway (sv_cfg (gw_server g1))) = AdminAuth (Gateway cfg) \<and>
      sched_inv (o_cron Q) (sv_scheduler (gw_server g1)) \<and>
      (sv_cfg (gw_server g1) = cfg \<or> Groups (sv_cfg (gw_server g1)) = []) \<and>
      (lastConfig (gw_disc g1) = None \<and> sv_cfg (gw_server g1) = cfg \<or>
       lastConfig (gw_disc g1) = Some (sv_cfg (gw_server g1)) \<and> Groups (sv_cfg (gw_server g1)) = [])"
    using p [unfolded discovery_pass_def]
  proof (cases rule: pass_cases)
    case quiet
    then have s: "sv_cfg (gw_server g1) = cfg" "sv_scheduler (gw_server g1) = NewScheduleManager c"
      by (simp_all add: same_config_def NewServer_def)
    have "same_config ?s0 (gw_server g1)" using quiet(1) by simp
    from consistent_same [OF this consistent_NewServer] show ?thesis using quiet(2) v e s by (auto simp: NewDiscoveryManager_def)
  next
    case (push cfg' dyn s)
    have "sched_inv (o_cron Q) (sv_scheduler s)" using push(4) e by (simp add: same_config_def NewServer_def)
    note jobs = ReloadConfig_jobs [OF assms(1) this push(2)]
    have "sv_cfg (ReloadConfig Q cfg' s) = cfg'" by (simp add: ReloadConfig_def Let_def)
    then show ?thesis
      using push jobs consistent_ReloadConfig [of Q cfg' s] by (auto simp: mergeConfigs_def NewDiscoveryManager_def)
  qed
  note g1 = this
  note sync = initial_sync_jobs [OF assms(1) _ v, of "gw_server g1"]
  show thesis
    using l g1 sync assms(1) by (intro that [of cfg]) (auto simp: g gateway_inv_def GetConfig_def)
qed

text \<open>The states of a process: started on a host, then driven by events.\<close>

definition process :: "('w, 'c) outside \<Rightarrow> (string \<Rightarrow> duration option) \<Rightarrow> GatewayConfig \<Rightarrow> ('w, 'c) gateway \<Rightarrow> bool" where
  "process Q pd cfg0 g \<longleftrightarrow>
     (\<exists>H clock1 clock2 client w c g0 es.
        cron_jobs (o_cron Q) c = Map.empty \<and> LoadConfig (o_libs Q) clock1 H = Some (Inr cfg0) \<and>
        start_gateway Q pd H clock1 clock2 client w c = Some (Inr g0) \<and> runs (react Q pd) g0 es g)"

lemma process_inv:
  assumes "cron_lib_ok (o_libs Q) (o_cron Q)" and "process Q pd cfg0 g"
  shows "gateway_inv Q cfg0 (AdminAuth (Gateway cfg0)) g"
proof -
  from assms(2) obtain H clock1 clock2 client w c g0 es where
    c: "cron_jobs (o_cron Q) c = Map.empty" and l: "LoadConfig (o_libs Q) clock1 H = Some (Inr cfg0)"
    and st: "start_gateway Q pd H clock1 clock2 client w c = Some (Inr g0)" and r: "runs (react Q pd) g0 es g"
    by (auto simp: process_def)
  obtain cfg where "LoadConfig (o_libs Q) clock1 H = Some (Inr cfg)"
    and "gateway_inv Q cfg (AdminAuth (Gateway cfg)) g0"
    using assms(1) c st by (rule start_spec)
  with l gw_loop.runs_keep [OF r] show ?thesis by simp
qed

text \<open>
  C2 (invariant, \<^verbatim>\<open>main\<close>): in every state a started process reaches, whatever requests,
  ticks, reloads and jobs came before: the active configuration has passed validation, the
  server's indexes, trusted proxies and time zone belong to it, the admin credentials are
  the ones loaded at start-up, every registered job is listed for removal and belongs to
  the active configuration or to the file loaded at start-up, and the groups are those of
  that file or none.
\<close>

theorem process_invariant:
  assumes "cron_lib_ok (o_libs Q) (o_cron Q)" and "process Q pd cfg0 g"
  shows "gateway_inv Q cfg0 (AdminAuth (Gateway cfg0)) g"
  using assms by (rule process_inv)

text \<open>
  \<^verbatim>\<open>main\<close> and \<^verbatim>\<open>EnsureDepsRunning\<close>: in every state of a process the start
  order of every container of the active configuration can be computed, so no awakening
  fails for a dependency cycle or an unknown name, with labels merged in at run time too.
\<close>

theorem process_sorts_dependencies:
  assumes "cron_lib_ok (o_libs Q) (o_cron Q)" and "process Q pd cfg0 g"
    and "c \<in> set (Containers (sv_cfg (gw_server g)))"
  shows "\<exists>order. TopologicalSort (c_Name c) (Containers (sv_cfg (gw_server g))) = Inr order"
proof -
  obtain clock where "Validate (o_libs Q) clock (sv_cfg (gw_server g)) = Some Pass"
    using process_inv [OF assms(1,2)] by (auto simp: gateway_inv_def)
  then have "valid_config (o_libs Q) (sv_cfg (gw_server g))" by (simp add: Validate_Pass)
  then show ?thesis using assms(3) by (auto intro!: valid_TopologicalSort)
qed

text \<open>
  C28 (safety, \<^verbatim>\<open>Server.Start\<close> and \<^verbatim>\<open>ReloadConfig\<close>): in every state of a process a request to
  an admin path without the credentials of start-up gets 401 and changes nothing at all,
  whatever credentials the configurations loaded since then hold.
\<close>

theorem process_guards_admin:
  assumes "cron_lib_ok (o_libs Q) (o_cron Q)" and "process Q pd cfg0 g"
    and "r_Path r \<in> set admin_paths" and "cleanPath (r_Path r) = r_Path r"
    and "\<not> authorized (AdminAuth (Gateway cfg0)) r"
  shows "react Q pd (Request r) g = Some g \<and>
    (\<exists>resp. serve Q (gw_auth g) r (gw_server g) = Some (resp, gw_server g) \<and> p_Status resp = 401)"
proof -
  have "gw_auth g = AdminAuth (Gateway cfg0)" using process_inv [OF assms(1,2)] by (simp add: gateway_inv_def)
  with serve_unauthorized [OF assms(3-5), of Q "gw_server g"] show ?thesis by (auto simp: with_server_def)
qed

text \<open>
  C19 (safety, \<^verbatim>\<open>mergeConfigs\<close> in the running process): once a discovery pass has pushed a
  configuration no request is routed to a group any more; a request that is routed to one
  finds the configuration loaded at start-up still active.
\<close>

theorem process_loses_groups:
  assumes "cron_lib_ok (o_libs Q) (o_cron Q)" and "process Q pd cfg0 g"
  shows "(lastConfig (gw_disc g) \<noteq> None \<longrightarrow> resolveGroup r (gw_server g) = None) \<and>
    (resolveGroup r (gw_server g) = Some grp \<longrightarrow> sv_cfg (gw_server g) = cfg0 \<and> lastConfig (gw_disc g) = None)"
proof -
  have inv: "gateway_inv Q cfg0 (AdminAuth (Gateway cfg0)) g" by (rule process_inv [OF assms])
  have "resolveGroup r (gw_server g) = None" if "Groups (sv_cfg (gw_server g)) = []"
    using that inv
    by (auto simp: gateway_inv_def consistent_def resolveGroup_def host_lookup_def BuildGroupHostIndex_def
        split: option.split)
  with inv show ?thesis by (auto simp: gateway_inv_def)
qed

text \<open>
  C18 (safety, \<^verbatim>\<open>main\<close>): after start-up the registered jobs are those of the file only,
  although the first discovery pass may have made a configuration with labelled containers
  active: \<^verbatim>\<open>main\<close> synchronises with the file after that pass. A discovery tick that leaves the
  active configuration as it is does not bring the jobs of labelled containers back.
\<close>

theorem startup_forgets_label_jobs:
  assumes "cron_lib_ok (o_libs Q) (o_cron Q)" and "cron_jobs (o_cron Q) c = Map.empty"
    and "start_gateway Q pd H clock1 clock2 client w c = Some (Inr g)"
  shows "\<exists>cfg. LoadConfig (o_libs Q) clock1 H = Some (Inr cfg) \<and>
    registered_jobs Q (gw_server g) = scheduled_jobs (o_libs Q) cfg \<and>
    (react Q pd (DiscoveryTick clock3) g = Some g' \<and> sv_cfg (gw_server g') = sv_cfg (gw_server g) \<longrightarrow>
       registered_jobs Q (gw_server g') = scheduled_jobs (o_libs Q) cfg)"
proof -
  obtain cfg where l: "LoadConfig (o_libs Q) clock1 H = Some (Inr cfg)"
    and inv: "gateway_inv Q cfg (AdminAuth (Gateway cfg)) g"
    and j: "registered_jobs Q (gw_server g) = scheduled_jobs (o_libs Q) cfg"
    and n: "lastConfig (gw_disc g) = None \<longrightarrow> sv_cfg (gw_server g) = cfg"
    using assms by (rule start_spec)
  have "registered_jobs Q (gw_server g') = scheduled_jobs (o_libs Q) cfg"
    if "react Q pd (DiscoveryTick clock3) g = Some g'" and same: "sv_cfg (gw_server g') = sv_cfg (gw_server g)"
  proof -
    have "run_pass Q (runDiscovery (o_libs Q) clock3 (o_env Q) pd CtxRoot) g = Some g'"
      using that(1) by (simp add: discovery_pass_def)
    then show ?thesis
    proof (cases rule: pass_cases)
      case quiet
      then show ?thesis using j by (simp add: registered_jobs_def same_config_def)
    next
      case (push cfg' dyn s)
      have "sv_cfg (ReloadConfig Q cfg' s) = cfg'" by (simp add: ReloadConfig_def Let_def)
      with push(5) same have "cfg' = sv_cfg (gw_server g)" by simp
      with push(8) inv n have "cfg' = cfg" by (auto simp: gateway_inv_def)
      moreover have "sched_inv (o_cron Q) (sv_scheduler s)"
        using inv push(4) by (simp add: gateway_inv_def same_config_def)
      ultimately show ?thesis using ReloadConfig_jobs(2) [OF assms(1) _ push(2)] push(5) by simp
    qed
  qed
  with l j show ?thesis by blast
qed

lemma runDiscovery_fresh:
  assumes "lastConfig dm = None"
  shows "runDiscovery L clock E pd ctx dm s =
    (case DiscoverLabeledContainers E pd ctx s of
       (Inl err, s1) \<Rightarrow> Some (None, dm, s1)
     | (Inr dyn, s1) \<Rightarrow>
         (case Validate L clock (mergeConfigs (staticConfig dm) dyn) of
            None \<Rightarrow> None
          | Some (Fail err) \<Rightarrow> Some (None, dm, s1)
          | Some Pass \<Rightarrow>
              Some (Some (mergeConfigs (staticConfig dm) dyn), dm\<lparr>lastConfig := Some (mergeConfigs (staticConfig dm) dyn)\<rparr>, s1)))"
  by (simp add: runDiscovery_def assms Let_def split: prod.split sum.split option.split verdict.split)

lemma fresh_pass:
  assumes "lastConfig (gw_disc g) = None"
  shows "run_pass Q (runDiscovery (o_libs Q) clock E pd ctx) g =
    (case DiscoverLabeledContainers E pd ctx (mg_io (sv_manager (gw_server g))) of
       (found, io) \<Rightarrow>
         (let s1 = (gw_server g)\<lparr>sv_manager := (sv_manager (gw_server g))\<lparr>mg_io := io\<rparr>\<rparr> in
          case found of
            Inl err \<Rightarrow> Some (g\<lparr>gw_server := s1\<rparr>)
          | Inr dyn \<Rightarrow>
              (let merged = mergeConfigs (staticConfig (gw_disc g)) dyn in
               case Validate (o_libs Q) clock merged of
                 None \<Rightarrow> None
               | Some (Fail err) \<Rightarrow> Some (g\<lparr>gw_server := s1\<rparr>)
               | Some Pass \<Rightarrow>
                   Some (g\<lparr>gw_disc := (gw_disc g)\<lparr>lastConfig := Some merged\<rparr>, gw_server := ReloadConfig Q merged s1\<rparr>))))"
  unfolding run_pass_def runDiscovery_fresh [OF assms] Let_def push_config_def
  by (cases g) (auto split: prod.split sum.split option.split verdict.split)

lemma reload_pass:
  assumes "LoadConfig (o_libs Q) clock1 H = Some (Inr cfg)"
    and "DiscoverLabeledContainers (o_env Q) pd CtxBackground (mg_io (sv_manager (gw_server g))) = (found, io)"
    and "s1 = (gw_server g)\<lparr>sv_manager := (sv_manager (gw_server g))\<lparr>mg_io := io\<rparr>\<rparr>"
  shows "hot_reload Q pd H clock1 clock2 g =
    (case found of
       Inl err \<Rightarrow> Some (g\<lparr>gw_disc := \<lparr>staticConfig = cfg, lastConfig = None\<rparr>, gw_server := s1\<rparr>)
     | Inr dyn \<Rightarrow>
         (case Validate (o_libs Q) clock2 (mergeConfigs cfg dyn) of
            None \<Rightarrow> None
          | Some (Fail err) \<Rightarrow> Some (g\<lparr>gw_disc := \<lparr>staticConfig = cfg, lastConfig = None\<rparr>, gw_server := s1\<rparr>)
          | Some Pass \<Rightarrow>
              Some (g\<lparr>gw_disc := \<lparr>staticConfig = cfg, lastConfig = Some (mergeConfigs cfg dyn)\<rparr>,
                gw_server := ReloadConfig Q (mergeConfigs cfg dyn) s1\<rparr>)))"
  using assms(2)
  by (simp add: hot_reload_pass [OF assms(1)] fresh_pass assms(3) Let_def split: sum.split option.split verdict.split)

text \<open>
  C27 (functional, \<^verbatim>\<open>main\<close>'s signal handler): a reload whose file does not load changes
  nothing. One that loads always replaces the static configuration and runs a discovery pass
  at once. When the pass can list the labelled containers and the file merged with them passes
  validation, that is the active configuration from then on, with everything derived from it
  and exactly its jobs registered; when Docker does not answer or the merge is invalid the
  active configuration and the jobs stay, and nothing is remembered as pushed, so that a later
  tick tries again. The reload ends unless that validation does not, and the admin credentials
  stay those of start-up.
\<close>

theorem hot_reload_outcome:
  assumes "cron_lib_ok (o_libs Q) (o_cron Q)" and "process Q pd cfg0 g"
    and "found = fst (DiscoverLabeledContainers (o_env Q) pd CtxBackground (mg_io (sv_manager (gw_server g))))"
  shows "(LoadConfig (o_libs Q) clock1 H = Some (Inl err) \<longrightarrow> react Q pd (Sighup H clock1 clock2) g = Some g) \<and>
    (LoadConfig (o_libs Q) clock1 H = Some (Inr cfg) \<longrightarrow>
       (react Q pd (Sighup H clock1 clock2) g = None \<longleftrightarrow>
          (\<exists>dyn. found = Inr dyn \<and> Validate (o_libs Q) clock2 (mergeConfigs cfg dyn) = None))) \<and>
    (LoadConfig (o_libs Q) clock1 H = Some (Inr cfg) \<and> react Q pd (Sighup H clock1 clock2) g = Some g' \<longrightarrow>
       staticConfig (gw_disc g') = cfg \<and> gw_auth g' = AdminAuth (Gateway cfg0) \<and>
       (if \<exists>dyn. found = Inr dyn \<and> Validate (o_libs Q) clock2 (mergeConfigs cfg dyn) = Some Pass
        then (\<exists>dyn. found = Inr dyn \<and> sv_cfg (gw_server g') = mergeConfigs cfg dyn \<and>
           lastConfig (gw_disc g') = Some (mergeConfigs cfg dyn) \<and> consistent (o_libs Q) (gw_server g') \<and>
           registered_jobs Q (gw_server g') = scheduled_jobs (o_libs Q) (mergeConfigs cfg dyn))
        else same_config (gw_server g) (gw_server g') \<and> lastConfig (gw_disc g') = None))"
proof -
  obtain io where d: "DiscoverLabeledContainers (o_env Q) pd CtxBackground (mg_io (sv_manager (gw_server g))) = (found, io)"
    using assms(3) by (metis prod.collapse)
  let ?s1 = "(gw_server g)\<lparr>sv_manager := (sv_manager (gw_server g))\<lparr>mg_io := io\<rparr>\<rparr>"
  have inv: "gateway_inv Q cfg0 (AdminAuth (Gateway cfg0)) g" by (rule process_inv [OF assms(1,2)])
  then have auth: "gw_auth g = AdminAuth (Gateway cfg0)" and sched: "sched_inv (o_cron Q) (sv_scheduler ?s1)"
    by (simp_all add: gateway_inv_def)
  have same: "same_config (gw_server g) ?s1" by (simp add: same_config_def)
  have none: "LoadConfig (o_libs Q) clock1 H = Some (Inr cfg) \<longrightarrow>
       (react Q pd (Sighup H clock1 clock2) g = None \<longleftrightarrow>
          (\<exists>dyn. found = Inr dyn \<and> Validate (o_libs Q) clock2 (mergeConfigs cfg dyn) = None))"
    by (auto simp: reload_pass [OF _ d refl] split: sum.splits option.splits verdict.splits)
  have some: "staticConfig (gw_disc g') = cfg \<and> gw_auth g' = AdminAuth (Gateway cfg0) \<and>
       (if \<exists>dyn. found = Inr dyn \<and> Validate (o_libs Q) clock2 (mergeConfigs cfg dyn) = Some Pass
        then (\<exists>dyn. found = Inr dyn \<and> sv_cfg (gw_server g') = mergeConfigs cfg dyn \<and>
           lastConfig (gw_disc g') = Some (mergeConfigs cfg dyn) \<and> consistent (o_libs Q) (gw_server g') \<and>
           registered_jobs Q (gw_server g') = scheduled_jobs (o_libs Q) (mergeConfigs cfg dyn))
        else same_config (gw_server g) (gw_server g') \<and> lastConfig (gw_disc g') = None)"
    if "LoadConfig (o_libs Q) clock1 H = Some (Inr cfg)" "react Q pd (Sighup H clock1 clock2) g = Some g'"
  proof (cases "\<exists>dyn. found = Inr dyn \<and> Validate (o_libs Q) clock2 (mergeConfigs cfg dyn) = Some Pass")
    case True
    then obtain dyn where f: "found = Inr dyn" and v: "Validate (o_libs Q) clock2 (mergeConfigs cfg dyn) = Some Pass" by blast
    have "g' = g\<lparr>gw_disc := \<lparr>staticConfig = cfg, lastConfig = Some (mergeConfigs cfg dyn)\<rparr>,
        gw_server := ReloadConfig Q (mergeConfigs cfg dyn) ?s1\<rparr>"
      using that(2) f v by (simp add: reload_pass [OF that(1) d refl])
    moreover have "sv_cfg (ReloadConfig Q (mergeConfigs cfg dyn) ?s1) = mergeConfigs cfg dyn"
      by (simp add: ReloadConfig_def Let_def)
    ultimately show ?thesis
      using ReloadConfig_jobs(2) [OF assms(1) sched v] consistent_ReloadConfig [of Q "mergeConfigs cfg dyn" ?s1] f v auth
      by simp
  next
    case False
    then have "g' = g\<lparr>gw_disc := \<lparr>staticConfig = cfg, lastConfig = None\<rparr>, gw_server := ?s1\<rparr>"
      using that(2) by (auto simp: reload_pass [OF that(1) d refl] split: sum.splits option.splits verdict.splits)
    with False auth same show ?thesis by simp
  qed
  have "LoadConfig (o_libs Q) clock1 H = Some (Inl err) \<longrightarrow> react Q pd (Sighup H clock1 clock2) g = Some g"
    by (simp add: hot_reload_def)
  with none some show ?thesis by blast
qed

section \<open>Who starts and stops containers\<close>

fun may_start :: "gw_event \<Rightarrow> bool" where
  "may_start (Goroutine i) = True"
| "may_start (CronFires eid) = True"
| "may_start e = False"

fun may_stop :: "gw_event \<Rightarrow> bool" where
  "may_stop IdleTick = True"
| "may_stop (CronFires eid) = True"
| "may_stop e = False"

lemma run_task_effect:
  assumes "run_task Q t s = Some (res, s')"
  shows "\<exists>ns. effect UNIV ns [] (sv_manager s) (sv_manager s')"
proof -
  have any: "effect A ns ms m m' \<Longrightarrow> effect UNIV ns ms m m'" for A ns ms and m m' :: "'a mgr"
    by (rule effect_mono) simp_all
  have ctx: "effect UNIV ns [] (sv_manager s) m'"
    if "task_context Q d s = (c, s1)" "effect UNIV ns [] (sv_manager s1) m'" for d c s1 ns m'
    using effect_silent_then [OF task_context_fields(1) [OF that(1)] that(2)] .
  have er: "\<exists>ns. effect UNIV ns [] m m'" if "EnsureRunning (o_env Q) c cfg m = Some (r, m')" for c cfg m r m'
    using effect_EnsureRunning [OF that] any by blast
  have ed: "\<exists>ns. effect UNIV ns [] m m'" if "EnsureDepsRunning (o_env Q) c n cs m = Some (r, m')" for c n cs m r m'
    using EnsureDepsRunning_spec [OF that] any by blast
  have eg: "\<exists>ns. effect UNIV ns [] m m'" if "EnsureGroupRunning (o_env Q) c grp cs m = Some (r, m')" for c grp cs m r m'
    using EnsureGroupRunning_spec [OF that] any by blast
  show ?thesis
  proof (cases t)
    case (TaskDeps n d cs)
    obtain c s1 where c: "task_context Q d s = (c, s1)" by (meson surj_pair)
    then show ?thesis using assms TaskDeps ed ctx [OF c] by (fastforce simp: run_task_def on_mgr_opt_def)
  next
    case (TaskStart cfg)
    obtain c s1 where c: "task_context Q (c_StartTimeout cfg) s = (c, s1)" by (meson surj_pair)
    have "\<exists>ns. effect UNIV ns [] (sv_manager s1) (sv_manager s')"
    proof (cases "c_DependsOn cfg = []")
      case True
      then show ?thesis using assms TaskStart c er by (fastforce simp: run_task_def on_mgr_opt_def Let_def)
    next
      case False
      then obtain r m where d: "EnsureDepsRunning (o_env Q) c (c_Name cfg) (Containers (GetConfig s1)) (sv_manager s1) = Some (r, m)"
        using assms TaskStart c by (auto simp: run_task_def on_mgr_opt_def Let_def split: option.splits)
      obtain ns where ns: "effect UNIV ns [] (sv_manager s1) m" using ed [OF d] by blast
      show ?thesis
      proof (cases r)
        case (Some err)
        then show ?thesis using assms TaskStart c d False ns by (auto simp: run_task_def on_mgr_opt_def Let_def)
      next
        case None
        then obtain r2 m2 where e: "EnsureRunning (o_env Q) c cfg m = Some (r2, m2)" and "sv_manager s' = m2"
          using assms TaskStart c d False by (auto simp: run_task_def on_mgr_opt_def Let_def)
        moreover obtain ns2 where "effect UNIV ns2 [] m m2" using er [OF e] by blast
        ultimately show ?thesis using effect_trans [OF ns] by fastforce
      qed
    qed
    then show ?thesis using ctx [OF c] by blast
  next
    case (TaskGroup grp)
    obtain c s1 where c: "task_context Q (group_timeout (sv_containerMap s) grp) s = (c, s1)" by (meson surj_pair)
    then show ?thesis using assms TaskGroup eg ctx [OF c] by (fastforce simp: run_task_def on_mgr_opt_def Let_def)
  next
    case (TaskWake cfg)
    obtain c s1 where c: "task_context Q (c_StartTimeout cfg) s = (c, s1)" by (meson surj_pair)
    then show ?thesis using assms TaskWake er ctx [OF c] by (fastforce simp: run_task_def on_mgr_opt_def)
  qed
qed

lemma quiet_effect: "quiet (mg_io m) io \<Longrightarrow> effect A [] [] m (m\<lparr>mg_io := io\<rparr>)"
  by (auto simp: quiet_def effect_def)

lemma pass_effect:
  assumes "run_pass Q (runDiscovery (o_libs Q) clock E pd ctx) g = Some g'"
  shows "effect UNIV [] [] (sv_manager (gw_server g)) (sv_manager (gw_server g'))"
proof -
  obtain pushed dm io where r: "runDiscovery (o_libs Q) clock E pd ctx (gw_disc g) (mg_io (sv_manager (gw_server g))) =
      Some (pushed, dm, io)"
    and g': "sv_manager (gw_server g') = (sv_manager (gw_server g))\<lparr>mg_io := io\<rparr>"
    using assms by (auto simp: run_pass_def Let_def push_config_def ReloadConfig_def split: option.splits)
  from runDiscovery_spec [OF r] show ?thesis using quiet_effect g' by auto
qed

lemma active_acyclic:
  assumes "gateway_inv Q cfg0 auth g"
  shows "detectDependencyCycles (Containers (sv_cfg (gw_server g))) = None"
  using assms by (auto simp: gateway_inv_def Validate_Pass valid_config_def detect_None_iff)

text \<open>
  What one event does to the containers. \<open>idle_chain\<close>: an entry point of the active
  configuration reaches the container, has an idle timeout and was last used that long ago.
\<close>

definition idle_chain :: "('w, 'c) outside \<Rightarrow> ('w, 'c) server \<Rightarrow> string \<Rightarrow> bool" where
  "idle_chain Q s n \<longleftrightarrow>
     (\<exists>cfg \<in> set (Containers (sv_cfg s)). \<exists>seen.
        c_Host cfg \<noteq> '''' \<and> c_IdleTimeout cfg \<noteq> 0 \<and>
        lastSeen (sv_manager s) (c_Name cfg) = Some seen \<and>
        c_IdleTimeout cfg \<le> time_Sub (fst (Now (o_env Q) (world (mg_io (sv_manager s))))) seen \<and>
        (c_Name cfg, n) \<in> (dep_rel (Containers (sv_cfg s)))\<^sup>*)"

lemma request_effect:
  assumes "react Q pd (Request r) g = Some g'"
  shows "effect UNIV [] [] (sv_manager (gw_server g)) (sv_manager (gw_server g'))"
  using assms serve_serves by (fastforce simp: serves_def with_server_def)

lemma goroutine_effect:
  assumes "react Q pd (Goroutine i) g = Some g'"
  shows "\<exists>ns. effect UNIV ns [] (sv_manager (gw_server g)) (sv_manager (gw_server g'))"
proof (cases "i < length (sv_tasks (gw_server g))")
  case True
  then obtain res s where "run_pending Q i (gw_server g) = Some (res, s)" and g': "g' = with_server g s"
    using assms by auto
  then show ?thesis using run_task_effect by (fastforce simp: run_pending_def with_server_def)
next
  case False
  then have "g' = g" using assms by simp
  then show ?thesis by (intro exI [of _ "[]"]) simp
qed

lemma sighup_effect:
  assumes "react Q pd (Sighup H clock1 clock2) g = Some g'"
  shows "effect UNIV [] [] (sv_manager (gw_server g)) (sv_manager (gw_server g'))"
proof -
  obtain r where r: "LoadConfig (o_libs Q) clock1 H = Some r"
    using assms by (auto simp: hot_reload_def split: option.splits)
  show ?thesis
  proof (cases r)
    case (Inl err)
    then show ?thesis using assms r by (simp add: hot_reload_def)
  next
    case (Inr cfg)
    then show ?thesis using pass_effect assms r by (fastforce simp: hot_reload_pass)
  qed
qed

lemma cron_effect:
  assumes "react Q pd (CronFires eid) g = Some g'"
  shows "\<exists>ns ms. effect UNIV ns ms (sv_manager (gw_server g)) (sv_manager (gw_server g'))"
proof (cases "cron_jobs (o_cron Q) (sm_cron (sv_scheduler (gw_server g))) eid")
  case None
  then have "sv_manager (gw_server g') = sv_manager (gw_server g)"
    using assms by (auto simp: cron_fires_def with_server_def)
  then show ?thesis by (intro exI [of _ "[]"]) simp
next
  case (Some a)
  obtain spec j where a: "a = (spec, j)" by (meson surj_pair)
  with Some obtain m where j: "run_job (o_env Q) j (sv_manager (gw_server g)) = Some m" and g': "sv_manager (gw_server g') = m"
    using assms by (auto simp: with_server_def cron_fires_def)
  show ?thesis using run_job_spec [OF j] effect_mono [where B = UNIV] g' by (fastforce split: job.splits)
qed

lemma cleanup_effect:
  assumes "react Q pd CleanupTick g = Some g'"
  shows "effect UNIV [] [] (sv_manager (gw_server g)) (sv_manager (gw_server g'))"
proof -
  obtain t s where c: "clock_now Q (gw_server g) = (t, s)" by (meson surj_pair)
  then have "sv_manager (gw_server g') = sv_manager s" using assms by (auto simp: with_server_def cleanup_tick_def)
  then show ?thesis using serves_clock [OF c, of UNIV] by (simp add: serves_def)
qed

lemma idle_effect:
  assumes "gateway_inv Q cfg0 auth g" and "ranges_keys (o_env Q)" and "react Q pd IdleTick g = Some g'"
  shows "\<exists>ms. effect UNIV [] ms (sv_manager (gw_server g)) (sv_manager (gw_server g')) \<and>
    (\<forall>n \<in> set ms. idle_chain Q (gw_server g) n)"
proof -
  let ?cs = "Containers (sv_cfg (gw_server g))" and ?m = "sv_manager (gw_server g)"
  have eq: "sv_manager (gw_server g') = checkIdle (o_env Q) CtxRoot ?cs ?m"
    using assms(3) by (auto simp: idle_tick_def GetConfig_def mgr_do_def with_server_def)
  from checkIdle_spec [OF active_acyclic [OF assms(1)] assms(2), of ?m CtxRoot] obtain ms where
    e: "effect (set ms) [] ms ?m (sv_manager (gw_server g'))" and "\<forall>n \<in> set ms. idle_chain Q (gw_server g) n"
    unfolding eq idle_chain_def by blast
  then show ?thesis using effect_mono [OF e subset_UNIV] by blast
qed

text \<open>
  C3 (safety, \<^verbatim>\<open>main\<close>): who touches the containers. In every state of a process an event
  other than a goroutine or a cron job starts nothing and an event other than an
  idle-watcher tick or a cron job stops nothing; an idle tick stops only containers that an
  entry point of the active configuration reaches which has an idle timeout and was last
  used at least that long ago.
\<close>

theorem who_touches_containers:
  assumes "cron_lib_ok (o_libs Q) (o_cron Q)" and "process Q pd cfg0 g" and "ranges_keys (o_env Q)"
    and "react Q pd e g = Some g'"
  shows "\<exists>ns ms. effect UNIV ns ms (sv_manager (gw_server g)) (sv_manager (gw_server g')) \<and>
    (may_start e \<or> ns = []) \<and> (may_stop e \<or> ms = []) \<and>
    (e = IdleTick \<longrightarrow> (\<forall>n \<in> set ms. idle_chain Q (gw_server g) n))"
proof (cases e)
  case (Request r)
  then show ?thesis using request_effect assms(4) by fastforce
next
  case (Goroutine i)
  then show ?thesis using goroutine_effect assms(4) by fastforce
next
  case (DiscoveryTick clock)
  then show ?thesis using pass_effect assms(4) by (fastforce simp: discovery_pass_def)
next
  case (Sighup H clock1 clock2)
  then show ?thesis using sighup_effect assms(4) by fastforce
next
  case IdleTick
  then show ?thesis using idle_effect [OF process_inv [OF assms(1,2)] assms(3)] assms(4) by fastforce
next
  case (CronFires eid)
  then show ?thesis using cron_effect assms(4) by fastforce
next
  case CleanupTick
  then show ?thesis using cleanup_effect assms(4) by fastforce
qed

section \<open>A process on the sample daemon\<close>

text \<open>
  The file is empty, and the daemon lists one labelled container: \<open>early\<close> of \<open>SchedManager\<close>,
  with a start schedule.
\<close>

definition bare_with :: "AdminAuthConfig \<Rightarrow> GatewayConfig" where
  "bare_with a = \<lparr>Gateway = demo_global\<lparr>AdminAuth := a\<rparr>, Containers = [], Groups = []\<rparr>"

definition bare_cfg :: GatewayConfig where
  "bare_cfg = bare_with (AdminAuth demo_global)"

definition bare_host :: "AdminAuthConfig \<Rightarrow> host" where
  "bare_host a =
     \<lparr>Getenv = (\<lambda>_. ''''), ReadFile = (\<lambda>_. Inr ''bare''), Unmarshal = (\<lambda>_. Inr (bare_with a)),
      ParseDuration = (\<lambda>_. None)\<rparr>"

definition early_item :: listed where
  "early_item = \<lparr>l_Names = [''/app''],
     l_Labels = [''dag.host'' \<mapsto> ''app.localhost'', ''dag.schedule_start'' \<mapsto> ''0 8 * * *'']\<rparr>"

definition label_outside :: "(string list \<times> nat, sim_cron) outside" where
  "label_outside = sim_outside\<lparr>o_env := sim_env\<lparr>ContainerList := (\<lambda>_ _ w. (Inr [early_item], w))\<rparr>\<rparr>"

lemma label_outside_sel [simp]:
  "o_libs label_outside = demo_libs" "o_cron label_outside = list_cron demo_libs"
  by (simp_all add: label_outside_def sim_outside_def)

lemma bare_loads:
  assumes "auth_ok a" and "a_Method a \<noteq> ''''"
  shows "LoadConfig demo_libs clock (bare_host a) = Some (Inr (bare_with a))"
proof -
  have d: "applyDefaults (bare_with a) = bare_with a"
    using assms(2) by (simp add: applyDefaults_def bare_with_def demo_global_def default_defs second_def)
  have o: "override_env (bare_host a) (bare_with a) = bare_with a"
    by (simp add: override_env_def override_interval_def override_auth_def bare_host_def bare_with_def Let_def)
  have "dep_rel (Containers (bare_with a)) = {}"
    by (auto simp: bare_with_def dep_rel_def deps_of_def container_map_def)
  then have "acyclic (dep_rel (Containers (bare_with a)))" by (simp add: acyclic_def)
  then have "valid_config demo_libs (bare_with a)" unfolding valid_config_def
    using assms(1) by (simp add: bare_with_def demo_global_def resolveLocation_def ResolveLocation_def ctr_hosts_def)
  then have "Validate demo_libs clock (bare_with a) = Some Pass"
    by (simp add: Validate_Pass schedules_ok_def bare_with_def)
  moreover have "ReadFile (bare_host a) p = Inr ''bare''" "Unmarshal (bare_host a) x = Inr (bare_with a)" for p x
    by (simp_all add: bare_host_def)
  ultimately show ?thesis by (simp add: LoadConfig_def d o Let_def)
qed

lemma open_loads: "LoadConfig demo_libs clock (bare_host (AdminAuth demo_global)) = Some (Inr bare_cfg)"
  unfolding bare_cfg_def by (rule bare_loads) (simp_all add: auth_ok_def demo_global_def)

lemma early_labelled: "labeled_container pd early_item = Some early"
  by (simp add: early_item_def labeled_container_def label_or_def label_duration_def early_def mk_ctr_def zero_container_def
      TrimPrefix_def HasPrefix_def)

lemma bare_merge:
  "DiscoverLabeledContainers (o_env label_outside) pd ctx s = (Inr [early], s\<lparr>trace := trace s @ [EvList]\<rparr>)"
  "mergeConfigs bare_cfg [early] = early_cfg"
proof -
  show "DiscoverLabeledContainers (o_env label_outside) pd ctx s = (Inr [early], s\<lparr>trace := trace s @ [EvList]\<rparr>)"
    by (cases s) (simp add: DiscoverLabeledContainers_def label_outside_def call_def List.map_filter_def early_labelled)
  show "mergeConfigs bare_cfg [early] = early_cfg"
    by (simp add: mergeConfigs_def bare_cfg_def bare_with_def early_cfg_def)
qed

lemma bare_discovery:
  "runDiscovery demo_libs clock (o_env label_outside) pd ctx \<lparr>staticConfig = bare_cfg, lastConfig = None\<rparr> s =
     Some (Some early_cfg, \<lparr>staticConfig = bare_cfg, lastConfig = Some early_cfg\<rparr>, s\<lparr>trace := trace s @ [EvList]\<rparr>)"
  by (simp add: runDiscovery_def bare_merge early_valid Let_def)

lemma bare_discovery_again:
  "runDiscovery demo_libs clock (o_env label_outside) pd ctx \<lparr>staticConfig = bare_cfg, lastConfig = Some early_cfg\<rparr> s =
     Some (None, \<lparr>staticConfig = bare_cfg, lastConfig = Some early_cfg\<rparr>, s\<lparr>trace := trace s @ [EvList]\<rparr>)"
  by (simp add: runDiscovery_def bare_merge early_valid Equal_iff Let_def)

definition bare_start :: "(exit_reason + (string list \<times> nat, sim_cron) gateway) option" where
  "bare_start = start_gateway label_outside (\<lambda>_. None) (bare_host (AdminAuth demo_global)) (\<lambda>_. 0) (\<lambda>_. 0) None ([], 0) (0, Map.empty)"

lemma bare_starts:
  "\<exists>g. bare_start = Some (Inr g) \<and> sv_cfg (gw_server g) = early_cfg \<and> gw_disc g = \<lparr>staticConfig = bare_cfg, lastConfig = Some early_cfg\<rparr>"
  by (simp add: bare_start_def start_gateway_def open_loads discovery_pass_def run_pass_def NewDiscoveryManager_def
      bare_discovery push_config_def ReloadConfig_def Let_def)
    (simp add: bare_cfg_def bare_with_def demo_global_def ticker_panics_def second_def)

lemma bare_cron: "cron_jobs (list_cron demo_libs) (0, Map.empty) = Map.empty"
  by (simp add: list_cron_def fun_eq_iff)

lemma process_start:
  assumes "start_gateway Q pd H clock1 clock2 client w c = Some (Inr g)" and "cron_jobs (o_cron Q) c = Map.empty"
    and "LoadConfig (o_libs Q) clock1 H = Some (Inr cfg)"
  shows "process Q pd cfg g"
  using assms unfolding process_def by (blast intro: runs_refl)

lemma bare_process:
  "\<exists>g. bare_start = Some (Inr g) \<and> process label_outside (\<lambda>_. None) bare_cfg g \<and> sv_cfg (gw_server g) = early_cfg \<and>
     gw_disc g = \<lparr>staticConfig = bare_cfg, lastConfig = Some early_cfg\<rparr>"
proof -
  obtain g where g: "bare_start = Some (Inr g)" "sv_cfg (gw_server g) = early_cfg"
    "gw_disc g = \<lparr>staticConfig = bare_cfg, lastConfig = Some early_cfg\<rparr>" using bare_starts by blast
  have "process label_outside (\<lambda>_. None) bare_cfg g"
    using process_start [OF g(1) [unfolded bare_start_def], of bare_cfg] bare_cron open_loads by simp
  with g show ?thesis by blast
qed

lemma label_cron_ok: "cron_lib_ok (o_libs label_outside) (o_cron label_outside)"
  by (simp add: list_cron_ok)

theorem process_invariant_witness:
  "\<exists>g. bare_start = Some (Inr g) \<and> gateway_inv label_outside bare_cfg (AdminAuth demo_global) g"
proof -
  obtain g where "bare_start = Some (Inr g)" and p: "process label_outside (\<lambda>_. None) bare_cfg g"
    using bare_process by blast
  with process_invariant [OF label_cron_ok p] show ?thesis by (auto simp: bare_cfg_def bare_with_def)
qed

theorem process_sorts_dependencies_witness:
  "\<exists>order. TopologicalSort ''app'' (Containers early_cfg) = Inr order"
proof -
  obtain g where p: "process label_outside (\<lambda>_. None) bare_cfg g" and c: "sv_cfg (gw_server g) = early_cfg"
    using bare_process by blast
  have "early \<in> set (Containers (sv_cfg (gw_server g)))" by (simp add: c early_cfg_def)
  from process_sorts_dependencies [OF label_cron_ok p this] show ?thesis by (simp add: c)
qed

text \<open>A process whose file has a group, at the sample daemon, which lists no labelled container.\<close>

definition grouped_host :: host where
  "grouped_host =
     \<lparr>Getenv = (\<lambda>_. ''''), ReadFile = (\<lambda>_. Inr ''grouped''), Unmarshal = (\<lambda>_. Inr grouped), ParseDuration = (\<lambda>_. None)\<rparr>"

lemma grouped_loads: "LoadConfig demo_libs clock grouped_host = Some (Inr grouped)"
proof -
  have d: "override_env grouped_host (applyDefaults grouped) = grouped"
    by (simp add: override_env_def override_interval_def override_auth_def grouped_host_def grouped_def demo_cfg_def
        demo_global_def applyDefaults_def default_defs mk_ctr_def second_def)
  have v: "valid_config demo_libs demo_cfg" using demo_valid [of clock] by (simp add: Validate_Pass)
  have "valid_config demo_libs grouped"
    using v unfolding valid_config_def
    by (simp add: grouped_def demo_cfg_def group_ok_def container_ok_def nameSet_def groupMembers_def depTargets_def
        ctr_hosts_def)
  moreover have "schedules_ok demo_libs clock grouped"
    by (simp add: schedules_ok_def check_schedule_def grouped_def demo_cfg_def All_less_Suc2)
  ultimately have "Validate demo_libs clock grouped = Some Pass" by (simp add: Validate_Pass)
  moreover have "ReadFile grouped_host p = Inr ''grouped''" "Unmarshal grouped_host x = Inr grouped" for p x
    by (simp_all add: grouped_host_def)
  ultimately show ?thesis by (simp add: LoadConfig_def d Let_def)
qed

lemma grouped_discovery:
  "runDiscovery demo_libs clock sim_env pd ctx \<lparr>staticConfig = grouped, lastConfig = None\<rparr> s =
     Some (Some demo_cfg, \<lparr>staticConfig = grouped, lastConfig = Some demo_cfg\<rparr>, s\<lparr>trace := trace s @ [EvList]\<rparr>)"
proof -
  have "mergeConfigs grouped [] = demo_cfg" by (simp add: mergeConfigs_def grouped_def demo_cfg_def)
  then show ?thesis
    by (cases s) (simp add: runDiscovery_def DiscoverLabeledContainers_def call_def sim_env_def sim_outside_def demo_valid
        List.map_filter_def Let_def)
qed

theorem process_loses_groups_witness:
  "\<exists>g. process sim_outside (\<lambda>_. None) grouped g \<and>
     BuildGroupHostIndex grouped ''g.localhost'' = Some (hd (Groups grouped)) \<and>
     resolveGroup (get_request ''g.localhost'' '''') (gw_server g) = None"
proof -
  have o: "o_libs sim_outside = demo_libs" "o_cron sim_outside = list_cron demo_libs"
    by (simp_all add: sim_outside_def)
  have t: "\<not> ticker_panics (DiscoveryInterval (Gateway grouped))"
    by (simp add: grouped_def demo_cfg_def demo_global_def ticker_panics_def second_def)
  have "\<exists>g. start_gateway sim_outside (\<lambda>_. None) grouped_host (\<lambda>_. 0) (\<lambda>_. 0) None ([], 0) (0, Map.empty) =
      Some (Inr g) \<and> lastConfig (gw_disc g) \<noteq> None"
    by (simp add: start_gateway_def o grouped_loads discovery_pass_def run_pass_def NewDiscoveryManager_def
        grouped_discovery push_config_def ReloadConfig_def t Let_def)
  then obtain g where st: "start_gateway sim_outside (\<lambda>_. None) grouped_host (\<lambda>_. 0) (\<lambda>_. 0) None ([], 0) (0, Map.empty) =
      Some (Inr g)" and d: "lastConfig (gw_disc g) \<noteq> None" by blast
  have p: "process sim_outside (\<lambda>_. None) grouped g"
    using process_start [OF st, of grouped] bare_cron grouped_loads by (simp add: o)
  have "cron_lib_ok (o_libs sim_outside) (o_cron sim_outside)" by (simp add: o list_cron_ok)
  from process_loses_groups [OF this p] d have "resolveGroup (get_request ''g.localhost'' '''') (gw_server g) = None" by blast
  moreover have "BuildGroupHostIndex grouped ''g.localhost'' = Some (hd (Groups grouped))"
    by (simp add: BuildGroupHostIndex_def grouped_def)
  ultimately show ?thesis using p by blast
qed

theorem startup_forgets_label_jobs_witness:
  "\<exists>g g'. bare_start = Some (Inr g) \<and> react label_outside (\<lambda>_. None) (DiscoveryTick (\<lambda>_. 0)) g = Some g' \<and>
     registered_jobs label_outside (gw_server g') = {} \<and>
     (''0 8 * * *'', StartJob early) \<in> scheduled_jobs demo_libs (sv_cfg (gw_server g'))"
proof -
  obtain g where st: "bare_start = Some (Inr g)" and a: "sv_cfg (gw_server g) = early_cfg"
    and d: "gw_disc g = \<lparr>staticConfig = bare_cfg, lastConfig = Some early_cfg\<rparr>" using bare_starts by blast
  obtain g' where r: "react label_outside (\<lambda>_. None) (DiscoveryTick (\<lambda>_. 0)) g = Some g'"
    and a': "sv_cfg (gw_server g') = early_cfg"
    by (simp add: discovery_pass_def run_pass_def d bare_discovery_again push_config_def a Let_def)
  have "cron_jobs (o_cron label_outside) (0, Map.empty) = Map.empty" by (simp add: bare_cron)
  from startup_forgets_label_jobs [OF label_cron_ok this st [unfolded bare_start_def], of "\<lambda>_. 0" g'] r a a'
  have "registered_jobs label_outside (gw_server g') = scheduled_jobs demo_libs bare_cfg"
    by (auto simp: open_loads)
  then have "registered_jobs label_outside (gw_server g') = {}"
    by (simp add: scheduled_jobs_def bare_cfg_def bare_with_def)
  moreover have "(''0 8 * * *'', StartJob early) \<in> scheduled_jobs demo_libs early_cfg"
    by (simp add: scheduled_jobs_def early_cfg_def container_jobs_def demo_global_def effective_loc_def
        ResolveLocation_def cronExprFromLoc_def)
  ultimately show ?thesis using st r a' by auto
qed

theorem hot_reload_outcome_witness:
  "\<exists>g g'. bare_start = Some (Inr g) \<and>
     react label_outside (\<lambda>_. None) (Sighup (bare_host (AdminAuth demo_global)) (\<lambda>_. 0) (\<lambda>_. 0)) g = Some g' \<and>
     sv_cfg (gw_server g') = early_cfg \<and>
     registered_jobs label_outside (gw_server g') = scheduled_jobs demo_libs early_cfg"
proof -
  let ?e = "Sighup (bare_host (AdminAuth demo_global)) (\<lambda>_. 0) (\<lambda>_. 0)"
  obtain g where st: "bare_start = Some (Inr g)" and p: "process label_outside (\<lambda>_. None) bare_cfg g"
    using bare_process by blast
  have l: "LoadConfig (o_libs label_outside) (\<lambda>_. 0) (bare_host (AdminAuth demo_global)) = Some (Inr bare_cfg)"
    by (simp add: open_loads)
  obtain g' where r: "react label_outside (\<lambda>_. None) ?e g = Some g'" and a: "sv_cfg (gw_server g') = early_cfg"
    and d: "lastConfig (gw_disc g') = Some early_cfg"
    by (simp add: hot_reload_pass [OF l] run_pass_def bare_discovery push_config_def ReloadConfig_def Let_def)
  note out = hot_reload_outcome [OF label_cron_ok p refl, of "\<lambda>_. 0" "bare_host (AdminAuth demo_global)" _ "\<lambda>_. 0" bare_cfg g']
  have "registered_jobs label_outside (gw_server g') = scheduled_jobs (o_libs label_outside) (sv_cfg (gw_server g'))"
    using out l r d by (auto split: if_splits)
  then have "registered_jobs label_outside (gw_server g') = scheduled_jobs demo_libs early_cfg" by (simp add: a)
  with st r a show ?thesis by blast
qed

theorem who_touches_containers_witness:
  "\<exists>g g'. bare_start = Some (Inr g) \<and> react label_outside (\<lambda>_. None) IdleTick g = Some g' \<and>
     starts (trace (mg_io (sv_manager (gw_server g')))) = starts (trace (mg_io (sv_manager (gw_server g))))"
proof -
  obtain g where st: "bare_start = Some (Inr g)" and p: "process label_outside (\<lambda>_. None) bare_cfg g"
    using bare_process by blast
  have rk: "ranges_keys (o_env label_outside)" using sim_ranges by (simp add: ranges_keys_def label_outside_def)
  obtain g' where r: "react label_outside (\<lambda>_. None) IdleTick g = Some g'" by simp
  from who_touches_containers [OF label_cron_ok p rk r] st r show ?thesis by (auto simp: effect_def)
qed

text \<open>A process with a bearer token, at a daemon that does not answer.\<close>

definition silent_outside :: "(string list \<times> nat, sim_cron) outside" where
  "silent_outside = sim_outside\<lparr>o_env := sim_env\<lparr>ContainerList := (\<lambda>_ _ w. (Inl ''down'', w))\<rparr>\<rparr>"

definition token_auth :: AdminAuthConfig where
  "token_auth = \<lparr>a_Method = ''bearer'', a_Username = '''', a_Password = '''', a_Token = ''t''\<rparr>"

theorem process_guards_admin_witness:
  "\<exists>g. process silent_outside (\<lambda>_. None) (bare_with token_auth) g \<and>
     react silent_outside (\<lambda>_. None) (Request ((get_request ''x'' '''')\<lparr>r_Path := ''/_status/api''\<rparr>)) g = Some g"
proof -
  let ?r = "(get_request ''x'' '''')\<lparr>r_Path := ''/_status/api''\<rparr>"
  have o: "o_libs silent_outside = demo_libs" "o_cron silent_outside = list_cron demo_libs"
    by (simp_all add: silent_outside_def sim_outside_def)
  have l: "LoadConfig demo_libs (\<lambda>_. 0) (bare_host token_auth) = Some (Inr (bare_with token_auth))"
    by (rule bare_loads) (simp_all add: token_auth_def auth_ok_def)
  have dd: "runDiscovery demo_libs clock (o_env silent_outside) pd ctx dm s = Some (None, dm, s\<lparr>trace := trace s @ [EvList]\<rparr>)"
    for clock pd ctx dm s
    by (cases s) (simp add: runDiscovery_def DiscoverLabeledContainers_def call_def silent_outside_def)
  obtain g where "start_gateway silent_outside (\<lambda>_. None) (bare_host token_auth) (\<lambda>_. 0) (\<lambda>_. 0) None ([], 0) (0, Map.empty) =
      Some (Inr g)"
    by (simp add: start_gateway_def o l discovery_pass_def run_pass_def dd push_config_def Let_def)
      (simp add: bare_with_def demo_global_def ticker_panics_def second_def Let_def)
  from process_start [OF this, of "bare_with token_auth"] have p: "process silent_outside (\<lambda>_. None) (bare_with token_auth) g"
    using bare_cron l by (simp add: o)
  have u: "\<not> authorized (AdminAuth (Gateway (bare_with token_auth))) ?r"
    by (simp add: authorized_def bare_with_def token_auth_def)
  have c: "cleanPath (r_Path ?r) = r_Path ?r" by (simp, code_simp)
  have "cron_lib_ok (o_libs silent_outside) (o_cron silent_outside)" by (simp add: o list_cron_ok)
  from process_guards_admin [OF this p _ c u] p show ?thesis by (auto simp: admin_paths_def)
qed

end
