(* ===== verification/Passes.thy ===== *)
theory Passes
  imports Gateway
begin

text \<open>
  Discovery passes that overlap. The polling goroutine and the signal handler of \<^verbatim>\<open>main.go\<close>
  both run \<^verbatim>\<open>runDiscovery\<close>; \<^verbatim>\<open>dm.mu\<close> protects the merge and the comparison, but a pass lists,
  merges, compares and pushes in separate steps, between which the other goroutine runs.
\<close>

section \<open>A pass, step by step\<close>

text \<open>
  Where a goroutine stands: in no pass, before \<^verbatim>\<open>UpdateStaticConfig\<close> stores the configuration,
  before the labels are listed, before the critical section of \<^verbatim>\<open>mergeConfigs\<close>, before
  validation and the comparison with \<^verbatim>\<open>lastConfig\<close>, before \<^verbatim>\<open>onConfigChange\<close>.
\<close>

datatype pass_stage =
    Idle
  | Installing GatewayConfig
  | Listing
  | Merging "ContainerConfig list"
  | Comparing GatewayConfig
  | Pushing GatewayConfig

fun pass_advance :: "('w, 'c) outside \<Rightarrow> (string \<Rightarrow> duration option) \<Rightarrow> (nat \<Rightarrow> time) \<Rightarrow> ctx \<Rightarrow> pass_stage \<Rightarrow>
    ('w, 'c) gateway \<Rightarrow> (pass_stage \<times> ('w, 'c) gateway) option" where
  "pass_advance Q pd clock ctx Idle g = None"
| "pass_advance Q pd clock ctx (Installing cfg) g =
     Some (Listing, g\<lparr>gw_disc := (gw_disc g)\<lparr>staticConfig := cfg, lastConfig := None\<rparr>\<rparr>)"
| "pass_advance Q pd clock ctx Listing g =
     (let s = gw_server g; m = sv_manager s in
      case DiscoverLabeledContainers (o_env Q) pd ctx (mg_io m) of
        (r, io) \<Rightarrow>
          (let g1 = g\<lparr>gw_server := s\<lparr>sv_manager := m\<lparr>mg_io := io\<rparr>\<rparr>\<rparr>
           in case r of
                Inl err \<Rightarrow> Some (Idle, g1)
              | Inr dynamicContainers \<Rightarrow> Some (Merging dynamicContainers, g1)))"
| "pass_advance Q pd clock ctx (Merging dynamicContainers) g =
     Some (Comparing (mergeConfigs (staticConfig (gw_disc g)) dynamicContainers), g)"
| "pass_advance Q pd clock ctx (Comparing merged) g =
     (case Validate (o_libs Q) clock merged of
        None \<Rightarrow> None
      | Some (Fail err) \<Rightarrow> Some (Idle, g)
      | Some Pass \<Rightarrow>
          (let dm = gw_disc g
           in if lastConfig dm \<noteq> None \<and> Equal (lastConfig dm) (Some merged) then Some (Idle, g)
              else Some (Pushing merged, g\<lparr>gw_disc := dm\<lparr>lastConfig := Some merged\<rparr>\<rparr>)))"
| "pass_advance Q pd clock ctx (Pushing merged) g =
     Some (Idle, g\<lparr>gw_server := push_config Q (Some merged) (gw_server g)\<rparr>)"

inductive pass_alone :: "('w, 'c) outside \<Rightarrow> (string \<Rightarrow> duration option) \<Rightarrow> (nat \<Rightarrow> time) \<Rightarrow> ctx \<Rightarrow> pass_stage \<Rightarrow>
    ('w, 'c) gateway \<Rightarrow> ('w, 'c) gateway \<Rightarrow> bool" for Q pd clock ctx where
  pass_done: "pass_alone Q pd clock ctx Idle g g"
| pass_next: "pass_advance Q pd clock ctx st g = Some (st1, g1) \<Longrightarrow> pass_alone Q pd clock ctx st1 g1 g' \<Longrightarrow>
    pass_alone Q pd clock ctx st g g'"

inductive_simps pass_alone_Idle [simp]: "pass_alone Q pd clock ctx Idle g g'"
inductive_simps pass_alone_Installing: "pass_alone Q pd clock ctx (Installing cfg) g g'"
inductive_simps pass_alone_Listing: "pass_alone Q pd clock ctx Listing g g'"
inductive_simps pass_alone_Merging: "pass_alone Q pd clock ctx (Merging dyn) g g'"
inductive_simps pass_alone_Comparing: "pass_alone Q pd clock ctx (Comparing merged) g g'"
inductive_simps pass_alone_Pushing: "pass_alone Q pd clock ctx (Pushing merged) g g'"

lemma same_disc [simp]: "g\<lparr>gw_disc := gw_disc g\<rparr> = g" "g\<lparr>gw_disc := gw_disc g, gw_server := s\<rparr> = g\<lparr>gw_server := s\<rparr>"
  by (cases g; simp)+

text \<open>Undisturbed, the steps of a pass are the pass of \<open>Discovery\<close> and \<open>Gateway\<close>.\<close>

theorem pass_refines_runDiscovery:
  "pass_alone Q pd clock ctx Listing g g' \<longleftrightarrow> run_pass Q (runDiscovery (o_libs Q) clock (o_env Q) pd ctx) g = Some g'"
proof -
  let ?m = "sv_manager (gw_server g)"
  obtain r io where d: "DiscoverLabeledContainers (o_env Q) pd ctx (mg_io ?m) = (r, io)" by (meson surj_pair)
  let ?g = "g\<lparr>gw_server := (gw_server g)\<lparr>sv_manager := ?m\<lparr>mg_io := io\<rparr>\<rparr>\<rparr>"
  show ?thesis
  proof (cases r)
    case (Inl err)
    then show ?thesis
      by (auto simp: pass_alone_Listing d run_pass_def runDiscovery_def push_config_def Let_def)
  next
    case (Inr dyn)
    let ?c = "mergeConfigs (staticConfig (gw_disc g)) dyn"
    have "pass_alone Q pd clock ctx Listing g g' \<longleftrightarrow> pass_alone Q pd clock ctx (Comparing ?c) ?g g'"
      by (simp add: pass_alone_Listing pass_alone_Merging d Inr Let_def)
    also have "\<dots> \<longleftrightarrow> run_pass Q (runDiscovery (o_libs Q) clock (o_env Q) pd ctx) g = Some g'"
    proof (cases "Validate (o_libs Q) clock ?c")
      case None
      then show ?thesis by (simp add: pass_alone_Comparing run_pass_def runDiscovery_def d Inr Let_def)
    next
      case (Some v)
      then show ?thesis
        by (cases v) (auto simp: pass_alone_Comparing pass_alone_Pushing run_pass_def runDiscovery_def push_config_def d Inr Let_def)
    qed
    finally show ?thesis .
  qed
qed

theorem installing_refines_hot_reload:
  assumes "LoadConfig (o_libs Q) clock1 H = Some (Inr cfg)"
  shows "pass_alone Q pd clock2 CtxBackground (Installing cfg) g g' \<longleftrightarrow> hot_reload Q pd H clock1 clock2 g = Some g'"
  using pass_refines_runDiscovery [of Q pd clock2 CtxBackground "g\<lparr>gw_disc := \<lparr>staticConfig = cfg, lastConfig = None\<rparr>\<rparr>" g']
  by (cases "gw_disc g") (simp add: pass_alone_Installing hot_reload_pass [OF assms])

section \<open>The two goroutines\<close>

record ('w, 'c) disc_system =
  ds_gw :: "('w, 'c) gateway"
  ds_poll :: pass_stage
  ds_sig :: pass_stage

text \<open>The events of \<open>Gateway\<close> that are no discovery pass.\<close>

fun no_pass :: "gw_event \<Rightarrow> bool" where
  "no_pass (DiscoveryTick clock) = False"
| "no_pass (Sighup H clock1 clock2) = False"
| "no_pass e = True"

text \<open>
  The steps: the ticker of the polling goroutine fires when it is in no pass; a signal is
  taken when the handler is in none and the file loads; either goroutine goes on to its
  next stage; any other event of the process happens in between.
\<close>

inductive disc_step :: "('w, 'c) outside \<Rightarrow> (string \<Rightarrow> duration option) \<Rightarrow> ('w, 'c) disc_system \<Rightarrow>
    ('w, 'c) disc_system \<Rightarrow> bool" for Q pd where
  ticked: "disc_step Q pd \<lparr>ds_gw = g, ds_poll = Idle, ds_sig = q\<rparr> \<lparr>ds_gw = g, ds_poll = Listing, ds_sig = q\<rparr>"
| signalled: "LoadConfig (o_libs Q) clock H = Some (Inr cfg) \<Longrightarrow>
    disc_step Q pd \<lparr>ds_gw = g, ds_poll = p, ds_sig = Idle\<rparr> \<lparr>ds_gw = g, ds_poll = p, ds_sig = Installing cfg\<rparr>"
| polling: "pass_advance Q pd clock CtxRoot p g = Some (p', g') \<Longrightarrow>
    disc_step Q pd \<lparr>ds_gw = g, ds_poll = p, ds_sig = q\<rparr> \<lparr>ds_gw = g', ds_poll = p', ds_sig = q\<rparr>"
| handling: "pass_advance Q pd clock CtxBackground q g = Some (q', g') \<Longrightarrow>
    disc_step Q pd \<lparr>ds_gw = g, ds_poll = p, ds_sig = q\<rparr> \<lparr>ds_gw = g', ds_poll = p, ds_sig = q'\<rparr>"
| elsewhere: "no_pass e \<Longrightarrow> react Q pd e g = Some g' \<Longrightarrow>
    disc_step Q pd \<lparr>ds_gw = g, ds_poll = p, ds_sig = q\<rparr> \<lparr>ds_gw = g', ds_poll = p, ds_sig = q\<rparr>"

abbreviation disc_steps :: "('w, 'c) outside \<Rightarrow> (string \<Rightarrow> duration option) \<Rightarrow> ('w, 'c) disc_system \<Rightarrow>
    ('w, 'c) disc_system \<Rightarrow> bool" where
  "disc_steps Q pd \<equiv> (disc_step Q pd)\<^sup>*\<^sup>*"

text \<open>What stays true of the served state: the invariant of the process without discovery's memory.\<close>

definition serving_inv :: "('w, 'c) outside \<Rightarrow> GatewayConfig \<Rightarrow> AdminAuthConfig \<Rightarrow> ('w, 'c) gateway \<Rightarrow> bool" where
  "serving_inv Q cfg0 auth g \<longleftrightarrow> gateway_inv Q cfg0 auth (g\<lparr>gw_disc := (gw_disc g)\<lparr>lastConfig := None\<rparr>\<rparr>)"

lemma gateway_serving: "gateway_inv Q cfg0 auth g \<Longrightarrow> serving_inv Q cfg0 auth g"
  by (simp add: serving_inv_def gateway_inv_def)

lemma serving_inv_disc [simp]: "serving_inv Q cfg0 auth (g\<lparr>gw_disc := d\<rparr>) = serving_inv Q cfg0 auth g"
  by (simp add: serving_inv_def gateway_inv_def)

lemma disc_after_server: "g\<lparr>gw_disc := d, gw_server := s\<rparr> = g\<lparr>gw_server := s, gw_disc := d\<rparr>"
  by simp

lemma with_server_disc: "with_server (g\<lparr>gw_disc := d\<rparr>) = (\<lambda>s. (with_server g s)\<lparr>gw_disc := d\<rparr>)"
  by (simp add: fun_eq_iff with_server_def)

lemma steps_keep:
  assumes "step\<^sup>*\<^sup>* s s'" and "Inv s" and "\<And>x y. step x y \<Longrightarrow> Inv x \<Longrightarrow> Inv y"
  shows "Inv s'"
  using assms(1,2) by (induction rule: rtranclp_induct) (auto intro: assms(3))

lemma react_disc:
  assumes "no_pass e"
  shows "react Q pd e (g\<lparr>gw_disc := d\<rparr>) = map_option (\<lambda>g'. g'\<lparr>gw_disc := d\<rparr>) (react Q pd e g)"
  using assms
  by (cases e) (simp_all add: with_server_disc option.map_comp comp_def case_prod_unfold)

lemma react_keeps_serving:
  assumes "serving_inv Q cfg0 auth g" and "no_pass e" and "react Q pd e g = Some g'"
  shows "serving_inv Q cfg0 auth g'"
proof -
  let ?d = "(gw_disc g)\<lparr>lastConfig := None\<rparr>"
  have "react Q pd e (g\<lparr>gw_disc := ?d\<rparr>) = Some (g'\<lparr>gw_disc := ?d\<rparr>)"
    using react_disc [OF assms(2), of Q pd ?d g] assms(3) by simp
  then have "gateway_inv Q cfg0 auth (g'\<lparr>gw_disc := ?d\<rparr>)"
    by (rule gw_loop.step_keeps [OF assms(1) [unfolded serving_inv_def]])
  then show ?thesis by (simp add: serving_inv_def gateway_inv_def)
qed

text \<open>A goroutine that is about to push holds a validated configuration without groups.\<close>

fun stage_ok :: "libs \<Rightarrow> pass_stage \<Rightarrow> bool" where
  "stage_ok L (Comparing cfg) = (Groups cfg = [])"
| "stage_ok L (Pushing cfg) = (Groups cfg = [] \<and> (\<exists>clock. Validate L clock cfg = Some Pass))"
| "stage_ok L st = True"

lemma pass_advance_keeps:
  assumes "pass_advance Q pd clock ctx st g = Some (st', g')"
    and "serving_inv Q cfg0 auth g" and "stage_ok (o_libs Q) st"
  shows "serving_inv Q cfg0 auth g' \<and> stage_ok (o_libs Q) st'"
proof (cases st)
  case Listing
  have io: "serving_inv Q cfg0 auth (g\<lparr>gw_server := (gw_server g)\<lparr>sv_manager := m\<rparr>\<rparr>)" for m
    using gateway_inv_same [OF assms(2) [unfolded serving_inv_def] same_config_manager]
    by (simp add: serving_inv_def with_server_def disc_after_server)
  with assms(1) Listing show ?thesis by (auto simp: Let_def split: prod.splits sum.splits)
next
  case (Pushing cfg)
  with assms(3) obtain clock where v: "Validate (o_libs Q) clock cfg = Some Pass" and n: "Groups cfg = []" by auto
  have "cron_lib_ok (o_libs Q) (o_cron Q)" "sched_inv (o_cron Q) (sv_scheduler (gw_server g))"
    using assms(2) by (simp_all add: serving_inv_def gateway_inv_def)
  note jobs = ReloadConfig_jobs [OF this v]
  have "sv_cfg (ReloadConfig Q cfg (gw_server g)) = cfg" by (simp add: ReloadConfig_def Let_def)
  moreover have "gw_auth g = auth" using assms(2) by (simp add: serving_inv_def gateway_inv_def)
  ultimately have "serving_inv Q cfg0 auth (g\<lparr>gw_server := ReloadConfig Q cfg (gw_server g)\<rparr>)"
    using jobs v n consistent_ReloadConfig [of Q cfg "gw_server g"] \<open>cron_lib_ok (o_libs Q) (o_cron Q)\<close>
    by (auto simp: serving_inv_def gateway_inv_def)
  with assms(1) Pushing show ?thesis by (auto simp: push_config_def)
qed (use assms in \<open>auto simp: mergeConfigs_def Let_def split: option.splits verdict.splits if_splits\<close>)

text \<open>
  C17 (type, \<^verbatim>\<open>runDiscovery\<close> in two goroutines): however the passes of the polling
  goroutine and of the signal handler overlap, with each other and with every other event,
  the state that is served stays sound: the active configuration is valid and the server's
  indexes, credentials and jobs are as the invariant of the process says.
\<close>

theorem overlapping_passes_serve_valid:
  assumes "cron_lib_ok (o_libs Q) (o_cron Q)" and "process Q pd cfg0 g"
    and "disc_steps Q pd \<lparr>ds_gw = g, ds_poll = Idle, ds_sig = Idle\<rparr> s"
  shows "serving_inv Q cfg0 (AdminAuth (Gateway cfg0)) (ds_gw s)"
proof -
  let ?ok = "\<lambda>s. serving_inv Q cfg0 (AdminAuth (Gateway cfg0)) (ds_gw s) \<and>
    stage_ok (o_libs Q) (ds_poll s) \<and> stage_ok (o_libs Q) (ds_sig s)"
  have step: "?ok s'" if "disc_step Q pd s1 s'" "?ok s1" for s1 s'
    using that
  proof (cases rule: disc_step.cases)
    case (elsewhere e g g' p q)
    then show ?thesis using that(2) react_keeps_serving by fastforce
  next
    case (polling clock p g p' g' q)
    then show ?thesis using that(2) pass_advance_keeps [of Q pd clock CtxRoot p g p' g'] by fastforce
  next
    case (handling clock q g q' g' p)
    then show ?thesis using that(2) pass_advance_keeps [of Q pd clock CtxBackground q g q' g'] by fastforce
  qed auto
  have "?ok \<lparr>ds_gw = g, ds_poll = Idle, ds_sig = Idle\<rparr>"
    using gateway_serving [OF process_inv [OF assms(1,2)]] by simp
  then have "?ok s" by (rule steps_keep [where Inv = ?ok, OF assms(3)]) (rule step)
  then show ?thesis by simp
qed

section \<open>A reload that is lost\<close>

lemma handler_pass:
  assumes "pass_alone Q pd clock CtxBackground st g g'"
  shows "disc_steps Q pd \<lparr>ds_gw = g, ds_poll = p, ds_sig = st\<rparr> \<lparr>ds_gw = g', ds_poll = p, ds_sig = Idle\<rparr>"
  using assms
proof induction
  case (pass_done g)
  then show ?case by simp
next
  case (pass_next st g st1 g1 g')
  from disc_step.handling [OF pass_next(1)] pass_next(3) show ?case by (rule converse_rtranclp_into_rtranclp)
qed

text \<open>
  C14 (safety, \<^verbatim>\<open>UpdateStaticConfig\<close> and \<^verbatim>\<open>runDiscovery\<close>): a reload can be lost. When
  the signal comes while the polling goroutine is about to push, the handler may complete
  its whole pass first; then the old configuration is pushed over the new one, although
  \<^verbatim>\<open>lastConfig\<close> is the new one. From then on every pass that finds the same labels takes the
  configuration for unchanged and leaves the old one active.
\<close>

theorem reload_lost_to_overlapping_pass:
  assumes "ds_poll s = Pushing old" and "ds_sig s = Idle" and "LoadConfig (o_libs Q) clock1 H = Some (Inr cfg)"
    and "DiscoverLabeledContainers (o_env Q) pd CtxBackground (mg_io (sv_manager (gw_server (ds_gw s)))) = (Inr dyn, io)"
    and "Validate (o_libs Q) clock2 (mergeConfigs cfg dyn) = Some Pass"
  shows "\<exists>g'. disc_steps Q pd s \<lparr>ds_gw = g', ds_poll = Idle, ds_sig = Idle\<rparr> \<and>
    gw_disc g' = \<lparr>staticConfig = cfg, lastConfig = Some (mergeConfigs cfg dyn)\<rparr> \<and> sv_cfg (gw_server g') = old \<and>
    (\<forall>clock ctx io'. DiscoverLabeledContainers (o_env Q) pd ctx (mg_io (sv_manager (gw_server g'))) = (Inr dyn, io') \<and>
       Validate (o_libs Q) clock (mergeConfigs cfg dyn) = Some Pass \<longrightarrow>
       run_pass Q (runDiscovery (o_libs Q) clock (o_env Q) pd ctx) g' =
         Some (g'\<lparr>gw_server := (gw_server g')\<lparr>sv_manager := (sv_manager (gw_server g'))\<lparr>mg_io := io'\<rparr>\<rparr>\<rparr>))"
proof -
  let ?g = "ds_gw s" and ?new = "mergeConfigs cfg dyn"
  let ?m = "sv_manager (gw_server ?g)"
  let ?g1 = "?g\<lparr>gw_disc := \<lparr>staticConfig = cfg, lastConfig = Some ?new\<rparr>,
    gw_server := ReloadConfig Q ?new ((gw_server ?g)\<lparr>sv_manager := ?m\<lparr>mg_io := io\<rparr>\<rparr>)\<rparr>"
  let ?g2 = "?g1\<lparr>gw_server := ReloadConfig Q old (gw_server ?g1)\<rparr>"
  have s: "s = \<lparr>ds_gw = ?g, ds_poll = Pushing old, ds_sig = Idle\<rparr>" using assms(1,2) by simp
  have "disc_step Q pd s \<lparr>ds_gw = ?g, ds_poll = Pushing old, ds_sig = Installing cfg\<rparr>"
    using disc_step.signalled [OF assms(3), of pd ?g "Pushing old"] s by simp
  also have "pass_alone Q pd clock2 CtxBackground (Installing cfg) ?g ?g1"
    using assms(4,5)
    by (simp add: pass_alone_Installing pass_alone_Listing pass_alone_Merging pass_alone_Comparing pass_alone_Pushing
        push_config_def Let_def)
  note handler_pass [OF this, of "Pushing old"]
  also have "disc_step Q pd \<lparr>ds_gw = ?g1, ds_poll = Pushing old, ds_sig = Idle\<rparr> \<lparr>ds_gw = ?g2, ds_poll = Idle, ds_sig = Idle\<rparr>"
    by (rule disc_step.polling) (simp add: push_config_def)
  finally have "disc_steps Q pd s \<lparr>ds_gw = ?g2, ds_poll = Idle, ds_sig = Idle\<rparr>" by simp
  moreover have "sv_cfg (gw_server ?g2) = old" by (simp add: ReloadConfig_def Let_def)
  moreover have "run_pass Q (runDiscovery (o_libs Q) clock (o_env Q) pd ctx) ?g2 =
      Some (?g2\<lparr>gw_server := (gw_server ?g2)\<lparr>sv_manager := (sv_manager (gw_server ?g2))\<lparr>mg_io := io'\<rparr>\<rparr>\<rparr>)"
    if "DiscoverLabeledContainers (o_env Q) pd ctx (mg_io (sv_manager (gw_server ?g2))) = (Inr dyn, io')"
      "Validate (o_libs Q) clock ?new = Some Pass" for clock ctx io'
    using that by (simp add: run_pass_def runDiscovery_def push_config_def Equal_iff Let_def)
  ultimately show ?thesis by (intro exI [of _ ?g2]) simp
qed

section \<open>On the sample daemon\<close>

text \<open>
  The daemon does not answer the first listing, so the gateway starts with the bare file;
  then the labelled container appears, and the file is replaced by one with a token.
\<close>

definition late_outside :: "(string list \<times> nat, sim_cron) outside" where
  "late_outside = sim_outside\<lparr>o_env := sim_env\<lparr>ContainerList :=
     (\<lambda>_ _ w. if snd w = 0 then (Inl ''down'', (fst w, 1)) else (Inr [early_item], w))\<rparr>\<rparr>"

definition token_cfg :: GatewayConfig where
  "token_cfg = early_cfg\<lparr>Gateway := demo_global\<lparr>AdminAuth := token_auth\<rparr>\<rparr>"

lemma late_outside_sel [simp]:
  "o_libs late_outside = demo_libs" "o_cron late_outside = list_cron demo_libs"
  by (simp_all add: late_outside_def sim_outside_def)

lemma late_discovery:
  "DiscoverLabeledContainers (o_env late_outside) pd ctx \<lparr>world = (up, 0), trace = tr\<rparr> =
     (Inl ''down'', \<lparr>world = (up, 1), trace = tr @ [EvList]\<rparr>)"
  "DiscoverLabeledContainers (o_env late_outside) pd ctx \<lparr>world = (up, Suc k), trace = tr\<rparr> =
     (Inr [early], \<lparr>world = (up, Suc k), trace = tr @ [EvList]\<rparr>)"
  by (simp_all add: DiscoverLabeledContainers_def late_outside_def call_def List.map_filter_def early_labelled)

lemma token_merge: "mergeConfigs (bare_with token_auth) [early] = token_cfg"
  by (simp add: mergeConfigs_def bare_with_def token_cfg_def early_cfg_def)

lemma token_valid: "Validate demo_libs clock token_cfg = Some Pass"
  using early_valid [of clock]
  by (simp add: Validate_Pass valid_config_def schedules_ok_def early_cfg_def token_cfg_def auth_ok_def token_auth_def
      container_ok_def check_schedule_def nameSet_def groupMembers_def depTargets_def)

lemma token_loads: "LoadConfig demo_libs clock (bare_host token_auth) = Some (Inr (bare_with token_auth))"
  by (rule bare_loads) (simp_all add: token_auth_def auth_ok_def)

lemma late_starts:
  "\<exists>g. process late_outside (\<lambda>_. None) bare_cfg g \<and> sv_cfg (gw_server g) = bare_cfg \<and>
     gw_disc g = \<lparr>staticConfig = bare_cfg, lastConfig = None\<rparr> \<and>
     world (mg_io (sv_manager (gw_server g))) = ([], 1)"
proof -
  have io: "mg_io (NewContainerManager w) = \<lparr>world = w, trace = []\<rparr>" for w :: "string list \<times> nat"
    by (simp add: NewContainerManager_def)
  have t: "\<not> ticker_panics (DiscoveryInterval (Gateway bare_cfg))"
    by (simp add: bare_cfg_def bare_with_def demo_global_def ticker_panics_def second_def)
  have "\<exists>g. start_gateway late_outside (\<lambda>_. None) (bare_host (AdminAuth demo_global)) (\<lambda>_. 0) (\<lambda>_. 0) None
      ([], 0) (0, Map.empty) = Some (Inr g) \<and> sv_cfg (gw_server g) = bare_cfg \<and>
      gw_disc g = \<lparr>staticConfig = bare_cfg, lastConfig = None\<rparr> \<and> world (mg_io (sv_manager (gw_server g))) = ([], 1)"
    by (simp add: start_gateway_def open_loads discovery_pass_def run_pass_def NewDiscoveryManager_def runDiscovery_def
        NewServer_def io late_discovery push_config_def initial_sync_def t Let_def)
  then obtain g where st: "start_gateway late_outside (\<lambda>_. None) (bare_host (AdminAuth demo_global)) (\<lambda>_. 0) (\<lambda>_. 0) None
      ([], 0) (0, Map.empty) = Some (Inr g)"
    and g: "sv_cfg (gw_server g) = bare_cfg" "gw_disc g = \<lparr>staticConfig = bare_cfg, lastConfig = None\<rparr>"
      "world (mg_io (sv_manager (gw_server g))) = ([], 1)" by blast
  from process_start [OF st, of bare_cfg] have "process late_outside (\<lambda>_. None) bare_cfg g"
    using bare_cron open_loads by simp
  with g show ?thesis by blast
qed

lemma late_push:
  "\<exists>g s. process late_outside (\<lambda>_. None) bare_cfg g \<and>
     disc_steps late_outside (\<lambda>_. None) \<lparr>ds_gw = g, ds_poll = Idle, ds_sig = Idle\<rparr> s \<and>
     ds_poll s = Pushing early_cfg \<and> ds_sig s = Idle \<and>
     world (mg_io (sv_manager (gw_server (ds_gw s)))) = ([], 1)"
proof -
  obtain g where p: "process late_outside (\<lambda>_. None) bare_cfg g"
    and d: "gw_disc g = \<lparr>staticConfig = bare_cfg, lastConfig = None\<rparr>"
    and w: "world (mg_io (sv_manager (gw_server g))) = ([], 1)" using late_starts by blast
  let ?m = "sv_manager (gw_server g)" and ?pd = "\<lambda>_ :: string. None :: duration option" and ?clock = "\<lambda>_ :: nat. 0 :: time"
  let ?io = "\<lparr>world = ([], 1), trace = trace (mg_io ?m) @ [EvList]\<rparr>"
  let ?g1 = "g\<lparr>gw_server := (gw_server g)\<lparr>sv_manager := ?m\<lparr>mg_io := ?io\<rparr>\<rparr>\<rparr>"
  let ?g2 = "?g1\<lparr>gw_disc := \<lparr>staticConfig = bare_cfg, lastConfig = Some early_cfg\<rparr>\<rparr>"
  have "mg_io ?m = \<lparr>world = ([], Suc 0), trace = trace (mg_io ?m)\<rparr>" using w by (cases "mg_io ?m") simp
  with late_discovery(2) [of ?pd CtxRoot "[]" 0 "trace (mg_io ?m)"]
  have dl: "DiscoverLabeledContainers (o_env late_outside) ?pd CtxRoot (mg_io ?m) = (Inr [early], ?io)" by simp
  have 1: "pass_advance late_outside ?pd ?clock CtxRoot Listing g = Some (Merging [early], ?g1)"
    by (simp add: dl Let_def)
  have 2: "pass_advance late_outside ?pd ?clock CtxRoot (Merging [early]) ?g1 = Some (Comparing early_cfg, ?g1)"
    by (simp add: d bare_merge)
  have 3: "pass_advance late_outside ?pd ?clock CtxRoot (Comparing early_cfg) ?g1 = Some (Pushing early_cfg, ?g2)"
    by (simp add: d early_valid Let_def)
  have "disc_steps late_outside ?pd \<lparr>ds_gw = g, ds_poll = Idle, ds_sig = Idle\<rparr> \<lparr>ds_gw = ?g2, ds_poll = Pushing early_cfg, ds_sig = Idle\<rparr>"
    by (rule converse_rtranclp_into_rtranclp [OF disc_step.ticked converse_rtranclp_into_rtranclp [OF disc_step.polling [OF 1]
        converse_rtranclp_into_rtranclp [OF disc_step.polling [OF 2] r_into_rtranclp [where r = "disc_step late_outside ?pd", OF disc_step.polling [OF 3]]]]])
  with p show ?thesis by fastforce
qed

theorem overlapping_passes_serve_valid_witness:
  "\<exists>s :: (string list \<times> nat, sim_cron) disc_system. ds_poll s = Pushing early_cfg \<and> serving_inv late_outside bare_cfg (AdminAuth demo_global) (ds_gw s)"
proof -
  obtain g s where p: "process late_outside (\<lambda>_. None) bare_cfg g" and "ds_poll s = Pushing early_cfg"
    and s: "disc_steps late_outside (\<lambda>_. None) \<lparr>ds_gw = g, ds_poll = Idle, ds_sig = Idle\<rparr> s" using late_push by blast
  moreover have "cron_lib_ok (o_libs late_outside) (o_cron late_outside)" by (simp add: list_cron_ok)
  moreover have "AdminAuth (Gateway bare_cfg) = AdminAuth demo_global" by (simp add: bare_cfg_def bare_with_def)
  ultimately have "serving_inv late_outside bare_cfg (AdminAuth demo_global) (ds_gw s)"
    using overlapping_passes_serve_valid [of late_outside "\<lambda>_. None" bare_cfg g s] by simp
  then show ?thesis using \<open>ds_poll s = Pushing early_cfg\<close> by blast
qed

theorem reload_lost_to_overlapping_pass_witness:
  "\<exists>g s g'. process late_outside (\<lambda>_. None) bare_cfg g \<and>
     disc_steps late_outside (\<lambda>_. None) \<lparr>ds_gw = g, ds_poll = Idle, ds_sig = Idle\<rparr> s \<and>
     disc_steps late_outside (\<lambda>_. None) s \<lparr>ds_gw = g', ds_poll = Idle, ds_sig = Idle\<rparr> \<and>
     gw_disc g' = \<lparr>staticConfig = bare_with token_auth, lastConfig = Some token_cfg\<rparr> \<and>
     sv_cfg (gw_server g') = early_cfg \<and> early_cfg \<noteq> token_cfg"
proof -
  obtain g s where p: "process late_outside (\<lambda>_. None) bare_cfg g"
    and s: "disc_steps late_outside (\<lambda>_. None) \<lparr>ds_gw = g, ds_poll = Idle, ds_sig = Idle\<rparr> s"
    and st: "ds_poll s = Pushing early_cfg" "ds_sig s = Idle"
    and w: "world (mg_io (sv_manager (gw_server (ds_gw s)))) = ([], 1)" using late_push by blast
  have "mg_io (sv_manager (gw_server (ds_gw s))) = \<lparr>world = ([], Suc 0), trace = trace (mg_io (sv_manager (gw_server (ds_gw s))))\<rparr>"
    using w by (cases "mg_io (sv_manager (gw_server (ds_gw s)))") simp
  from arg_cong [OF this, of "DiscoverLabeledContainers (o_env late_outside) (\<lambda>_. None) CtxBackground"]
  obtain io where io: "DiscoverLabeledContainers (o_env late_outside) (\<lambda>_. None) CtxBackground
      (mg_io (sv_manager (gw_server (ds_gw s)))) = (Inr [early], io)" by (simp add: late_discovery)
  have l: "LoadConfig (o_libs late_outside) (\<lambda>_. 0) (bare_host token_auth) = Some (Inr (bare_with token_auth))"
    by (simp add: token_loads)
  have v: "Validate (o_libs late_outside) (\<lambda>_. 0) (mergeConfigs (bare_with token_auth) [early]) = Some Pass"
    by (simp add: token_merge token_valid)
  have "early_cfg \<noteq> token_cfg" by (simp add: early_cfg_def token_cfg_def demo_global_def token_auth_def)
  with reload_lost_to_overlapping_pass [OF st l io v] p s show ?thesis by (auto simp: token_merge)
qed

end
