(* ===== verification/Lifecycle.thy ===== *)
theory Lifecycle
  imports Gateway
begin

text \<open>
  The end of the process: the termination signal of \<^verbatim>\<open>main.go\<close>, the background goroutines that
  leave with the root context, and \<^verbatim>\<open>Server.Start\<close> from listening to the shut-down. A request
  is handled (the event \<open>Answer\<close>) when its handler has ended: it was answered, or, when the
  handler panicked, \<^verbatim>\<open>net/http\<close> recovered and aborted the connection without an answer. The
  behaviour of \<^verbatim>\<open>http.Server\<close> is the documented one: a request that was accepted goes on
  during \<^verbatim>\<open>Shutdown\<close>, a new one is not accepted, and \<^verbatim>\<open>Shutdown\<close> returns without an error only
  when no request is being served.
\<close>

section \<open>The states of the process\<close>

text \<open>
  Before the signal; after \<^verbatim>\<open>cancel()\<close>; in \<^verbatim>\<open>httpServer.Shutdown\<close>; ended, with the exit status.
\<close>

datatype phase = Serving | Cancelled | Draining | Exited nat

text \<open>The goroutines that end with the root context, and the one that handles signals.\<close>

datatype background = DiscoveryLoop | CronLoop | IdleLoop | CleanupLoop | SignalLoop

record ('w, 'c) life =
  lf_gw :: "('w, 'c) gateway"
  lf_phase :: phase
  lf_loops :: "background list"
  lf_inflight :: "request list"

definition launched :: "('w, 'c) gateway \<Rightarrow> ('w, 'c) life" where
  "launched g = \<lparr>lf_gw = g, lf_phase = Serving,
     lf_loops = [DiscoveryLoop, CronLoop, IdleLoop, SignalLoop, CleanupLoop], lf_inflight = []\<rparr>"

datatype life_event =
    Accept request
  | Answer nat
  | Background gw_event
  | Terminate
  | LoopReturns background
  | CloseListener
  | Drained
  | GraceOver
  | ListenFails

text \<open>Who runs an event of \<open>Gateway\<close>: one of the loops, or a goroutine a handler started.\<close>

fun runner :: "background list \<Rightarrow> gw_event \<Rightarrow> bool" where
  "runner loops (Request r) = False"
| "runner loops (Goroutine i) = True"
| "runner loops (DiscoveryTick clock) = (DiscoveryLoop \<in> set loops)"
| "runner loops (Sighup H clock1 clock2) = (SignalLoop \<in> set loops)"
| "runner loops IdleTick = (IdleLoop \<in> set loops)"
| "runner loops (CronFires eid) = (CronLoop \<in> set loops)"
| "runner loops CleanupTick = (CleanupLoop \<in> set loops)"

fun ended :: "phase \<Rightarrow> bool" where
  "ended (Exited code) = True"
| "ended p = False"

text \<open>
  One event; \<open>None\<close> is one that cannot happen in the state. A loop that is still there may
  take a last tick after \<^verbatim>\<open>cancel()\<close>, since \<^verbatim>\<open>select\<close> picks any case that is ready. \<open>GraceOver\<close>
  is \<^verbatim>\<open>Shutdown\<close> returning the error of its expired context, which \<^verbatim>\<open>main\<close> turns into status 1.
\<close>

fun live :: "('w, 'c) outside \<Rightarrow> (string \<Rightarrow> duration option) \<Rightarrow> life_event \<Rightarrow> ('w, 'c) life \<Rightarrow>
    ('w, 'c) life option" where
  "live Q pd (Accept r) s =
     (if lf_phase s = Serving \<or> lf_phase s = Cancelled
      then Some (s\<lparr>lf_inflight := lf_inflight s @ [r]\<rparr>) else None)"
| "live Q pd (Answer i) s =
     (if \<not> ended (lf_phase s) \<and> i < length (lf_inflight s)
      then map_option (\<lambda>g. s\<lparr>lf_gw := g, lf_inflight := take i (lf_inflight s) @ drop (Suc i) (lf_inflight s)\<rparr>)
             (react Q pd (Request (lf_inflight s ! i)) (lf_gw s))
      else None)"
| "live Q pd (Background e) s =
     (if \<not> ended (lf_phase s) \<and> runner (lf_loops s) e
      then map_option (\<lambda>g. s\<lparr>lf_gw := g\<rparr>) (react Q pd e (lf_gw s)) else None)"
| "live Q pd Terminate s =
     (if lf_phase s = Serving \<and> SignalLoop \<in> set (lf_loops s)
      then Some (s\<lparr>lf_phase := Cancelled, lf_loops := removeAll SignalLoop (lf_loops s)\<rparr>) else None)"
| "live Q pd (LoopReturns l) s =
     (if (lf_phase s = Cancelled \<or> lf_phase s = Draining) \<and> l \<in> set (lf_loops s)
      then Some (s\<lparr>lf_loops := removeAll l (lf_loops s)\<rparr>) else None)"
| "live Q pd CloseListener s =
     (if lf_phase s = Cancelled then Some (s\<lparr>lf_phase := Draining\<rparr>) else None)"
| "live Q pd Drained s =
     (if lf_phase s = Draining \<and> lf_inflight s = [] then Some (s\<lparr>lf_phase := Exited 0\<rparr>) else None)"
| "live Q pd GraceOver s =
     (if lf_phase s = Draining then Some (s\<lparr>lf_phase := Exited 1\<rparr>) else None)"
| "live Q pd ListenFails s =
     (if lf_phase s = Serving \<or> lf_phase s = Cancelled then Some (s\<lparr>lf_phase := Exited 1\<rparr>) else None)"

section \<open>What holds to the end\<close>

text \<open>The invariant of the process holds in every phase.\<close>

lemma live_gw:
  assumes "live Q pd e s = Some s'"
  shows "lf_gw s' = lf_gw s \<or> (\<exists>b. react Q pd b (lf_gw s) = Some (lf_gw s'))"
  using assms by (cases e) (auto split: if_splits simp del: react.simps)

interpretation life_loop: event_loop "live Q pd" "\<lambda>s. gateway_inv Q cfg0 auth (lf_gw s)" for Q pd cfg0 auth
proof unfold_locales
  fix s s' e
  assume "gateway_inv Q cfg0 auth (lf_gw s)" and "live Q pd e s = Some s'"
  then show "gateway_inv Q cfg0 auth (lf_gw s')" using live_gw [of Q pd e s s'] react_keeps by fastforce
qed

text \<open>From an event on, what comes later.\<close>

definition after :: "'e \<Rightarrow> ('e \<Rightarrow> bool) \<Rightarrow> 'e list \<Rightarrow> bool" where
  "after a P es \<longleftrightarrow> (\<forall>pre post. es = pre @ a # post \<longrightarrow> (\<forall>e \<in> set post. P e))"

lemma after_Nil [simp]: "after a P []"
  by (simp add: after_def)

lemma after_snoc [simp]: "after a P (es @ [e]) \<longleftrightarrow> after a P es \<and> (a \<in> set es \<longrightarrow> P e)"
proof
  assume l: "after a P (es @ [e])"
  have "after a P es"
    unfolding after_def
  proof (intro allI impI)
    fix pre post
    assume "es = pre @ a # post"
    then have "es @ [e] = pre @ a # (post @ [e])" by simp
    with l have "\<forall>x \<in> set (post @ [e]). P x" unfolding after_def by blast
    then show "\<forall>x \<in> set post. P x" by simp
  qed
  moreover have "P e" if a: "a \<in> set es"
  proof -
    obtain pre post where "es = pre @ a # post" using split_list [OF a] by blast
    then have "es @ [e] = pre @ a # (post @ [e])" by simp
    with l have "\<forall>x \<in> set (post @ [e]). P x" unfolding after_def by blast
    then show ?thesis by simp
  qed
  ultimately show "after a P es \<and> (a \<in> set es \<longrightarrow> P e)" by blast
next
  assume r: "after a P es \<and> (a \<in> set es \<longrightarrow> P e)"
  show "after a P (es @ [e])"
    unfolding after_def
  proof (intro allI impI)
    fix pre post
    assume s: "es @ [e] = pre @ a # post"
    show "\<forall>x \<in> set post. P x"
    proof (cases post rule: rev_cases)
      case Nil
      then show ?thesis by simp
    next
      case (snoc post' x)
      then have "es = pre @ a # post'" "x = e" using s by (simp_all add: append_eq_append_conv2)
      with r snoc show ?thesis by (auto simp: after_def)
    qed
  qed
qed

fun is_accept :: "life_event \<Rightarrow> bool" where
  "is_accept (Accept r) = True"
| "is_accept e = False"

fun is_answer :: "life_event \<Rightarrow> bool" where
  "is_answer (Answer i) = True"
| "is_answer e = False"

fun is_signal :: "life_event \<Rightarrow> bool" where
  "is_signal Terminate = True"
| "is_signal (Background (Sighup H clock1 clock2)) = True"
| "is_signal e = False"

definition shutdown_inv :: "life_event list \<Rightarrow> ('w, 'c) life \<Rightarrow> bool" where
  "shutdown_inv es s \<longleftrightarrow>
     length (filter is_accept es) = length (filter is_answer es) + length (lf_inflight s) \<and>
     (lf_phase s = Exited 0 \<longrightarrow> lf_inflight s = []) \<and>
     (lf_phase s \<in> {Cancelled, Draining, Exited 0} \<longrightarrow> Terminate \<in> set es) \<and>
     (Terminate \<in> set es \<longrightarrow> SignalLoop \<notin> set (lf_loops s) \<and> lf_phase s \<noteq> Serving) \<and>
     (lf_phase s \<in> {Draining, Exited 0} \<longrightarrow> CloseListener \<in> set es) \<and>
     (CloseListener \<in> set es \<longrightarrow> lf_phase s \<notin> {Serving, Cancelled}) \<and>
     after Terminate (\<lambda>e. \<not> is_signal e) es \<and> after CloseListener (\<lambda>e. \<not> is_accept e) es"

lemma runner_no_signal: "runner loops b \<Longrightarrow> SignalLoop \<notin> set loops \<Longrightarrow> \<not> is_signal (Background b)"
  by (cases b) simp_all

lemma shutdown_inv_step:
  assumes "shutdown_inv es s" and "live Q pd e s = Some s'"
  shows "shutdown_inv (es @ [e]) s'"
proof (cases e)
  case (Answer i)
  with assms show ?thesis by (clarsimp simp: shutdown_inv_def simp del: react.simps split: if_splits) arith
next
  case (Background b)
  with assms show ?thesis
    using runner_no_signal [of "lf_loops s" b]
    by (clarsimp simp: shutdown_inv_def simp del: react.simps split: if_splits)
next
  case Terminate
  with assms show ?thesis by (clarsimp simp: shutdown_inv_def split: if_splits)
next
  case (LoopReturns l)
  with assms show ?thesis by (clarsimp simp: shutdown_inv_def split: if_splits)
next
  case CloseListener
  with assms show ?thesis by (clarsimp simp: shutdown_inv_def split: if_splits)
next
  case Drained
  with assms show ?thesis by (clarsimp simp: shutdown_inv_def split: if_splits)
next
  case GraceOver
  with assms show ?thesis by (clarsimp simp: shutdown_inv_def split: if_splits)
next
  case ListenFails
  with assms show ?thesis by (clarsimp simp: shutdown_inv_def split: if_splits)
next
  case (Accept r)
  with assms show ?thesis by (auto simp: shutdown_inv_def split: if_splits)
qed

lemma runs_shutdown_inv: "runs (live Q pd) (launched g) es s \<Longrightarrow> shutdown_inv es s"
proof (induction "launched g" es s rule: runs.induct)
  case runs_refl
  show ?case by (simp add: shutdown_inv_def launched_def)
next
  case (runs_step es s e s')
  then show ?case using shutdown_inv_step by blast
qed

text \<open>
  C29 (safety, \<^verbatim>\<open>main\<close> and \<^verbatim>\<open>Server.Start\<close>): the end of the process is graceful as far as
  requests go. In every phase the invariant of the process holds; status 0 is reached only
  after a termination signal and when every request that was accepted has been handled
  (answered, or aborted by \<^verbatim>\<open>net/http\<close> because its handler panicked);
  once the listener is closed no request is accepted; after the signal no reload and no
  further signal is handled; and after the exit nothing happens any more, so an awakening
  that still waits in its goroutine is never run.
\<close>

theorem graceful_exit:
  assumes "cron_lib_ok (o_libs Q) (o_cron Q)" and "process Q pd cfg0 g" and "runs (live Q pd) (launched g) es s"
  shows "gateway_inv Q cfg0 (AdminAuth (Gateway cfg0)) (lf_gw s) \<and>
    (lf_phase s = Exited 0 \<longrightarrow>
       Terminate \<in> set es \<and> length (filter is_answer es) = length (filter is_accept es)) \<and>
    after CloseListener (\<lambda>e. \<not> is_accept e) es \<and> after Terminate (\<lambda>e. \<not> is_signal e) es \<and>
    (ended (lf_phase s) \<longrightarrow> (\<forall>e. live Q pd e s = None))"
proof -
  have "gateway_inv Q cfg0 (AdminAuth (Gateway cfg0)) (lf_gw (launched g))"
    using process_inv [OF assms(1,2)] by (simp add: launched_def)
  from life_loop.runs_keep [OF assms(3) this] have "gateway_inv Q cfg0 (AdminAuth (Gateway cfg0)) (lf_gw s)" .
  moreover have "live Q pd e s = None" if "ended (lf_phase s)" for e
    using that by (cases e; cases "lf_phase s") simp_all
  ultimately show ?thesis using runs_shutdown_inv [OF assms(3)] by (auto simp: shutdown_inv_def)
qed

text \<open>A request whose path is not canonical is redirected by the multiplexer.\<close>

theorem graceful_exit_witness:
  "\<exists>g s. runs (live label_outside (\<lambda>_. None)) (launched g)
     [Accept ((get_request ''x'' '''')\<lparr>r_Path := ''''\<rparr>), Terminate, Answer 0, CloseListener, LoopReturns IdleLoop, Drained] s \<and>
     lf_phase s = Exited 0 \<and> gateway_inv label_outside bare_cfg (AdminAuth demo_global) (lf_gw s)"
proof -
  let ?Q = label_outside and ?pd = "\<lambda>_ :: string. None :: duration option"
  let ?r = "(get_request ''x'' '''')\<lparr>r_Path := ''''\<rparr>"
  obtain g where p: "process ?Q ?pd bare_cfg g" using bare_process by blast
  have "serve ?Q a ?r s = Some (\<lparr>p_Status = 301, p_Header = [(''Location'', ''/'')], p_Body = Payload (Redirect ''/'')\<rparr>, s)"
    for a s by (simp add: serve_def cleanPath_def get_request_def label_outside_def sim_outside_def Let_def)
  then have r: "react ?Q ?pd (Request ?r) g = Some g" by (cases g) (simp add: with_server_def)
  let ?s = "\<lambda>ph ls rs. \<lparr>lf_gw = g, lf_phase = ph, lf_loops = ls, lf_inflight = rs\<rparr>"
    and ?ls = "[DiscoveryLoop, CronLoop, IdleLoop, CleanupLoop]"
  note step = runs_step [where step = "live ?Q ?pd" and s = "launched g"]
  have 0: "runs (live ?Q ?pd) (launched g) [Accept ?r]
      (?s Serving [DiscoveryLoop, CronLoop, IdleLoop, SignalLoop, CleanupLoop] [?r])"
    using step [OF runs_refl, of "Accept ?r" "?s Serving [DiscoveryLoop, CronLoop, IdleLoop, SignalLoop, CleanupLoop] [?r]"] by (simp add: launched_def)
  have 1: "runs (live ?Q ?pd) (launched g) [Accept ?r, Terminate]
      (?s Cancelled ?ls [?r])"
    using step [OF 0, of "Terminate" "?s Cancelled ?ls [?r]"] by simp
  have 2: "runs (live ?Q ?pd) (launched g) [Accept ?r, Terminate, Answer 0]
      (?s Cancelled ?ls [])"
    using step [OF 1, of "Answer 0" "?s Cancelled ?ls []"] by (simp add: r del: react.simps)
  have 3: "runs (live ?Q ?pd) (launched g) [Accept ?r, Terminate, Answer 0, CloseListener]
      (?s Draining ?ls [])"
    using step [OF 2, of "CloseListener" "?s Draining ?ls []"] by simp
  have 4: "runs (live ?Q ?pd) (launched g) [Accept ?r, Terminate, Answer 0, CloseListener, LoopReturns IdleLoop]
      (?s Draining [DiscoveryLoop, CronLoop, CleanupLoop] [])"
    using step [OF 3, of "LoopReturns IdleLoop" "?s Draining [DiscoveryLoop, CronLoop, CleanupLoop] []"] by simp
  have 5: "runs (live ?Q ?pd) (launched g) [Accept ?r, Terminate, Answer 0, CloseListener, LoopReturns IdleLoop, Drained]
      (?s (Exited 0) [DiscoveryLoop, CronLoop, CleanupLoop] [])"
    using step [OF 4, of "Drained" "?s (Exited 0) [DiscoveryLoop, CronLoop, CleanupLoop] []"] by simp
  from 5 obtain s where s: "runs (live ?Q ?pd) (launched g)
     [Accept ?r, Terminate, Answer 0, CloseListener, LoopReturns IdleLoop, Drained] s" and ph: "lf_phase s = Exited 0" by fastforce
  have "cron_lib_ok (o_libs ?Q) (o_cron ?Q)" by (rule label_cron_ok)
  from graceful_exit [OF this p s] have "gateway_inv ?Q bare_cfg (AdminAuth demo_global) (lf_gw s)"
    by (simp add: bare_cfg_def bare_with_def)
  with s ph show ?thesis by blast
qed

end
