(* ===== verification/Watching.thy ===== *)
theory Watching
  imports IdleWatcher
begin

text \<open>
  A tick of the idle watcher (\<^verbatim>\<open>checkIdle\<close> and \<^verbatim>\<open>cascadeStop\<close> of \<^verbatim>\<open>gateway/manager.go\<close>) step by
  step. The watcher holds \<^verbatim>\<open>m.mu\<close> only while it copies the activity map, so everything else
  goes on between the copy, the reading of the clock and each of its Docker calls.
\<close>

section \<open>A tick, step by step\<close>

text \<open>
  Where the watcher stands: waiting for its ticker; after the copy of \<^verbatim>\<open>lastSeen\<close>; with the
  idle entry points; at the head of the loop over the names left to stop; asking for the
  dependents left of a name; before the status check of the name; before its docker stop.
  The set \<^verbatim>\<open>toStop\<close> is carried along.
\<close>

datatype watch_stage =
    Waiting
  | Deciding "string \<Rightarrow> time option"
  | Cascading "string list"
  | Looping "string list" "string list"
  | Asking "string list" string "string list" "string list"
  | Checking "string list" string "string list"
  | Halting "string list" string "string list"

fun watch_advance :: "'w env \<Rightarrow> ctx \<Rightarrow> ContainerConfig list \<Rightarrow> watch_stage \<Rightarrow> 'w mgr \<Rightarrow> watch_stage \<times> 'w mgr" where
  "watch_advance E ctx cfgs Waiting m = (Deciding (lastSeen m), m)"
| "watch_advance E ctx cfgs (Deciding snapshot) m =
     (case time_Now E m of
        (now, m1) \<Rightarrow>
          (let idleEntryPoints = map c_Name (filter (idle_entry snapshot now) cfgs)
           in (if 0 < length idleEntryPoints then Cascading idleEntryPoints else Waiting, m1)))"
| "watch_advance E ctx cfgs (Cascading idleEntryPoints) m =
     (let toStop = collect_stop cfgs idleEntryPoints [] in
      if toStop = [] then (Waiting, m)
      else
        (case on_io (call (RangeOrder E toStop) (\<lambda>_. [])) m of
           (iter, m1) \<Rightarrow> (Looping toStop (rev (topoMergeStop (set toStop) iter cfgs)), m1)))"
| "watch_advance E ctx cfgs (Looping toStop []) m = (Waiting, m)"
| "watch_advance E ctx cfgs (Looping toStop (name # names)) m =
     (Asking toStop name (BuildReverseDeps cfgs name) names, m)"
| "watch_advance E ctx cfgs (Asking toStop name [] names) m = (Checking toStop name names, m)"
| "watch_advance E ctx cfgs (Asking toStop name (dependent # dependents) names) m =
     (if dependent \<in> set toStop then (Asking toStop name dependents names, m)
      else
        (case on_io (GetContainerStatus E ctx dependent) m of
           (depStatus, m1) \<Rightarrow>
             (if depStatus = Inr ''running'' then Looping toStop names
              else Asking toStop name dependents names, m1)))"
| "watch_advance E ctx cfgs (Checking toStop name names) m =
     (case on_io (GetContainerStatus E ctx name) m of
        (status, m1) \<Rightarrow>
          (if status \<noteq> Inr ''running'' then Looping toStop names else Halting toStop name names, m1))"
| "watch_advance E ctx cfgs (Halting toStop name names) m =
     (case on_io (StopContainer E ctx name) m of
        (Some err, m1) \<Rightarrow> (Looping toStop names, m1)
      | (None, m1) \<Rightarrow>
          (Looping toStop names,
           setStartState name ''unknown'' '''' (snd (on_io (\<lambda>s. ((), RecordIdleStop name s)) m1))))"

section \<open>Undisturbed, a tick is \<open>checkIdle\<close>\<close>

inductive watch_alone :: "'w env \<Rightarrow> ctx \<Rightarrow> ContainerConfig list \<Rightarrow> watch_stage \<Rightarrow> 'w mgr \<Rightarrow> 'w mgr \<Rightarrow> bool"
  for E ctx cfgs where
  watch_done: "watch_alone E ctx cfgs Waiting m m"
| watch_next: "st \<noteq> Waiting \<Longrightarrow> watch_advance E ctx cfgs st m = (st1, m1) \<Longrightarrow> watch_alone E ctx cfgs st1 m1 m' \<Longrightarrow>
    watch_alone E ctx cfgs st m m'"

inductive_simps watch_alone_Waiting [simp]: "watch_alone E ctx cfgs Waiting m m'"

lemma watch_alone_step:
  "st \<noteq> Waiting \<Longrightarrow> watch_alone E ctx cfgs st m m' \<longleftrightarrow>
     watch_alone E ctx cfgs (fst (watch_advance E ctx cfgs st m)) (snd (watch_advance E ctx cfgs st m)) m'"
  by (subst watch_alone.simps) (auto simp: prod_eq_iff)

lemma watch_alone_Asking:
  "watch_alone E ctx cfgs (Asking toStop n ds ns) m m' \<longleftrightarrow>
     (case still_needed E ctx toStop ds m of
        (needed, m1) \<Rightarrow> watch_alone E ctx cfgs (if needed then Looping toStop ns else Checking toStop n ns) m1 m')"
proof (induction ds arbitrary: m)
  case Nil
  then show ?case by (simp add: watch_alone_step)
next
  case (Cons d ds)
  then show ?case by (subst watch_alone_step) (simp_all split: prod.split)
qed

lemma watch_alone_Checking:
  "watch_alone E ctx cfgs (Checking toStop n ns) m m' \<longleftrightarrow>
     (case on_io (GetContainerStatus E ctx n) m of
        (status, m1) \<Rightarrow>
          if status \<noteq> Inr ''running'' then watch_alone E ctx cfgs (Looping toStop ns) m1 m'
          else watch_alone E ctx cfgs (Halting toStop n ns) m1 m')"
  by (subst watch_alone_step) (simp_all split: prod.split)

lemma watch_alone_Halting:
  "watch_alone E ctx cfgs (Halting toStop n ns) m m' \<longleftrightarrow>
     watch_alone E ctx cfgs (Looping toStop ns)
       (case on_io (StopContainer E ctx n) m of
          (Some err, m1) \<Rightarrow> m1
        | (None, m1) \<Rightarrow> setStartState n ''unknown'' '''' (snd (on_io (\<lambda>s. ((), RecordIdleStop n s)) m1))) m'"
  by (subst watch_alone_step) (simp_all split: prod.split option.split)

lemma watch_alone_Visiting:
  "watch_alone E ctx cfgs (Looping toStop ns) m m' \<longleftrightarrow>
     m' = foldl (\<lambda>m n. stop_one E ctx (BuildReverseDeps cfgs) toStop n m) m ns"
proof (induction ns arbitrary: m)
  case Nil
  then show ?case by (subst watch_alone_step) auto
next
  case (Cons n ns)
  have "watch_alone E ctx cfgs (Looping toStop (n # ns)) m m' \<longleftrightarrow>
      watch_alone E ctx cfgs (Asking toStop n (BuildReverseDeps cfgs n) ns) m m'"
    by (subst watch_alone_step) simp_all
  also have "\<dots> \<longleftrightarrow> watch_alone E ctx cfgs (Looping toStop ns) (stop_one E ctx (BuildReverseDeps cfgs) toStop n m) m'"
    by (simp add: watch_alone_Asking watch_alone_Checking watch_alone_Halting stop_one_def split: prod.split)
  finally show ?case using Cons.IH by simp
qed

lemma watch_alone_Cascading:
  "watch_alone E ctx cfgs (Cascading eps) m m' \<longleftrightarrow> m' = cascadeStop E ctx eps cfgs m"
  by (subst watch_alone_step) (auto simp: watch_alone_Visiting cascadeStop_def Let_def split: prod.split)

text \<open>
  A tick that nothing disturbs ends, in exactly the state the function \<open>checkIdle\<close> of the
  model computes.
\<close>

lemma tick_is_checkIdle:
  "watch_alone E ctx cfgs (Deciding (lastSeen m)) m m' \<longleftrightarrow> m' = checkIdle E ctx cfgs m"
  by (subst watch_alone_step) (auto simp: watch_alone_Cascading checkIdle_def Let_def split: prod.split)

section \<open>What a step keeps\<close>

lemma watch_advance_lastSeen:
  assumes "watch_advance E ctx cfgs st m = (st', m')"
  shows "lastSeen m' = lastSeen m"
  using assms
  by (cases "(E, ctx, cfgs, st, m)" rule: watch_advance.cases)
    (auto simp: time_Now_def on_io_def setStartState_def Let_def split: prod.splits option.splits if_splits)

text \<open>The docker stop a step issues, the names a stage may still stop, the copy it carries.\<close>

fun halted :: "watch_stage \<Rightarrow> string list" where
  "halted (Halting toStop name names) = [name]"
| "halted st = []"

fun pending :: "watch_stage \<Rightarrow> string list" where
  "pending (Cascading eps) = eps"
| "pending (Looping toStop names) = names"
| "pending (Asking toStop name dependents names) = name # names"
| "pending (Checking toStop name names) = name # names"
| "pending (Halting toStop name names) = name # names"
| "pending st = []"

fun copied :: "watch_stage \<Rightarrow> (string \<Rightarrow> time option) option" where
  "copied (Deciding snapshot) = Some snapshot"
| "copied st = None"

lemma watch_advance_copied:
  assumes "watch_advance E ctx cfgs st m = (st', m')" and "copied st' = Some snapshot"
  shows "snapshot = lastSeen m"
proof -
  have "copied (fst (watch_advance E ctx cfgs st m)) = Some snapshot \<Longrightarrow> snapshot = lastSeen m"
    by (cases "(E, ctx, cfgs, st, m)" rule: watch_advance.cases)
      (auto simp: Let_def split: prod.splits if_splits option.splits)
  with assms show ?thesis by simp
qed

lemma watch_advance_effect:
  assumes "watch_advance E ctx cfgs st m = (st', m')"
  shows "effect (set (halted st)) [] (halted st) m m'"
proof (cases "(E, ctx, cfgs, st, m)" rule: watch_advance.cases)
  case (2 E' ctx' cfgs' snapshot m'')
  then show ?thesis using assms by (auto split: prod.splits dest: effect_time_Now)
next
  case (3 E' ctx' cfgs' eps m'')
  then show ?thesis using assms by (auto simp: Let_def split: prod.splits if_splits dest!: effect_call)
next
  case (7 E' ctx' cfgs' toStop n d ds ns m'')
  then show ?thesis using assms by (auto split: prod.splits if_splits dest: effect_status)
next
  case (8 E' ctx' cfgs' toStop n ns m'')
  then show ?thesis using assms by (auto split: prod.splits dest: effect_status)
next
  case (9 E' ctx' cfgs' toStop n ns m'')
  obtain r m1 where s: "on_io (StopContainer E ctx n) m = (r, m1)" by (meson surj_pair)
  have e1: "effect {n} [] [n] m m1" by (rule effect_stop [OF s])
  show ?thesis
  proof (cases r)
    case (Some err)
    then show ?thesis using 9 assms s e1 by auto
  next
    case None
    have "effect {n} [] [] m1 (snd (on_io (\<lambda>s. ((), RecordIdleStop n s)) m1))"
      by (rule effect_quiet [where f = "\<lambda>s. ((), RecordIdleStop n s)" and r = "()"])
        (simp_all add: on_io_def metrics_quiet)
    then have "effect {n} [] [n] m (setStartState n ''unknown'' '''' (snd (on_io (\<lambda>s. ((), RecordIdleStop n s)) m1)))"
      by (intro effect_then_silent [OF effect_then_silent [OF e1] effect_setStartState]) simp_all
    then show ?thesis using 9 None assms s by auto
  qed
qed (use assms in auto)

lemma collect_stop_sub: "set (collect_stop cfgs eps []) \<subseteq> (dep_rel cfgs)\<^sup>* `` set eps"
  by (auto simp: collect_stop_set sortable_def)

lemma watch_advance_pending:
  assumes "detectDependencyCycles cfgs = None" and "ranges_keys E" and "watch_advance E ctx cfgs st m = (st', m')"
    and "\<not> (\<exists>snapshot. st = Deciding snapshot)"
  shows "set (pending st') \<subseteq> (dep_rel cfgs)\<^sup>* `` set (pending st)"
proof (cases "(E, ctx, cfgs, st, m)" rule: watch_advance.cases)
  case (3 E' ctx' cfgs' eps m'')
  let ?T = "collect_stop cfgs eps []"
  obtain iter m1 where r: "on_io (call (RangeOrder E ?T) (\<lambda>_. [])) m = (iter, m1)" by (meson surj_pair)
  have "set iter = set ?T" using call_mgr_world [OF r] assms(2) by (simp add: ranges_keys_def)
  moreover have "acyclic (dep_rel cfgs)" using assms(1) by (simp add: detect_None_iff)
  ultimately have "set (topoMergeStop (set ?T) iter cfgs) = set ?T" using topoMergeStop_spec by blast
  then show ?thesis using 3 assms(3) r collect_stop_sub [of cfgs eps] by (auto simp: Let_def split: if_splits)
qed (use assms(3,4) in \<open>auto split: prod.splits option.splits if_splits\<close>)

end
