(* ===== verification/Interleaving.thy ===== *)
theory Interleaving
  imports Watching
begin

text \<open>
  The goroutines of \<^verbatim>\<open>gateway/manager.go\<close> statement by statement: \<^verbatim>\<open>EnsureRunning\<close> as a thread
  that stops at every Docker call, several such threads under the per-container mutexes,
  and the idle watcher, which takes no mutex, in between.
\<close>

section \<open>A thread\<close>

text \<open>
  Where a call of \<^verbatim>\<open>EnsureRunning\<close> stands: before \<^verbatim>\<open>mu.Lock()\<close>, holding the mutex before the
  status check, before \<^verbatim>\<open>StartContainer\<close>, before \<^verbatim>\<open>GetContainerAddress\<close>, at the head of the
  polling loop, or after the return and the deferred \<^verbatim>\<open>Unlock\<close>.
\<close>

datatype stage =
    Queued
  | Locked
  | Starting time
  | Addressing time
  | Polling string time
  | Returned "mgr_error option"

fun advance :: "'w env \<Rightarrow> ctx \<Rightarrow> ContainerConfig \<Rightarrow> stage \<Rightarrow> 'w mgr \<Rightarrow> (stage \<times> 'w mgr) option" where
  "advance E ctx cfg Queued m = Some (Locked, getLock (c_Name cfg) m)"
| "advance E ctx cfg Locked m =
     (case on_io (GetContainerStatus E ctx (c_Name cfg)) m of
        (status, m1) \<Rightarrow>
          if status = Inr ''running'' then Some (Returned None, RecordActivity E (c_Name cfg) m1)
          else (case time_Now E m1 of
                  (start, m2) \<Rightarrow> Some (Starting start, setStartState (c_Name cfg) statusStarting '''' m2)))"
| "advance E ctx cfg (Starting start) m =
     (case on_io (StartContainer E ctx (c_Name cfg)) m of
        (Some err, m1) \<Rightarrow>
          Some (Returned (Some (StartFailed (c_Name cfg) err)), start_failed (c_Name cfg) ''docker start failed'' m1)
      | (None, m1) \<Rightarrow> Some (Addressing start, m1))"
| "advance E ctx cfg (Addressing start) m =
     (case on_io (GetContainerAddress E ctx (c_Name cfg) (c_Network cfg)) m of
        (Inl err, m1) \<Rightarrow>
          Some (Returned (Some (AddrFailed (c_Name cfg) err)), start_failed (c_Name cfg) ''cannot find container IP'' m1)
      | (Inr ip, m1) \<Rightarrow> Some (Polling ip start, m1))"
| "advance E ctx cfg (Polling ip start) m =
     (case on_io (call (Wait E ctx (500 * 1000000)) (\<lambda>_. [])) m of
        (CtxDone, m1) \<Rightarrow>
          Some (Returned (Some (StartTimedOut (c_Name cfg) (ip @ '':'' @ c_TargetPort cfg))),
                start_failed (c_Name cfg) ''startup timeout exceeded'' m1)
      | (Tick, m1) \<Rightarrow>
          (case on_io (GetContainerStatus E ctx (c_Name cfg)) m1 of
             (status, m2) \<Rightarrow>
               if status = Inr ''exited'' \<or> status = Inr ''dead'' then
                 Some (Returned (Some (Crashed (c_Name cfg))),
                       start_failed (c_Name cfg) ''container crashed on boot (see docker logs)'' m2)
               else
                 (case readiness E ctx cfg ip m2 of
                    None \<Rightarrow> None
                  | Some (ready, m3) \<Rightarrow>
                      if ready then Some (Returned None, start_ready E (c_Name cfg) start m3)
                      else Some (Polling ip start, m3))))"
| "advance E ctx cfg (Returned r) m = None"

inductive solo :: "'w env \<Rightarrow> ctx \<Rightarrow> ContainerConfig \<Rightarrow> stage \<Rightarrow> 'w mgr \<Rightarrow> stage \<Rightarrow> 'w mgr \<Rightarrow> bool" for E ctx cfg where
  solo_refl: "solo E ctx cfg st m st m"
| solo_step: "advance E ctx cfg st m = Some (st1, m1) \<Longrightarrow> solo E ctx cfg st1 m1 st2 m2 \<Longrightarrow> solo E ctx cfg st m st2 m2"

text \<open>What is left of the call from a stage on: the remaining stages, then the polling loop.\<close>

fun rank :: "stage \<Rightarrow> nat" where
  "rank Queued = 5"
| "rank Locked = 4"
| "rank (Starting start) = 3"
| "rank (Addressing start) = 2"
| "rank (Polling ip start) = 1"
| "rank (Returned r) = 0"

function rest_of :: "'w env \<Rightarrow> ctx \<Rightarrow> ContainerConfig \<Rightarrow> stage \<Rightarrow> 'w mgr \<Rightarrow> (mgr_error option \<times> 'w mgr) option" where
  "rest_of E ctx cfg st m =
     (case st of
        Polling ip start \<Rightarrow> await_ready E ctx cfg ip start m
      | Returned r \<Rightarrow> Some (r, m)
      | _ \<Rightarrow> (case advance E ctx cfg st m of
               None \<Rightarrow> None
             | Some (st1, m1) \<Rightarrow> if rank st1 < rank st then rest_of E ctx cfg st1 m1 else None))"
  by pat_completeness auto
termination by (relation "measure (\<lambda>(E, ctx, cfg, st, m). rank st)") auto

declare rest_of.simps [simp del]

lemma rest_of_simps [simp]:
  "rest_of E ctx cfg (Polling ip start) m = await_ready E ctx cfg ip start m"
  "rest_of E ctx cfg (Returned r) m = Some (r, m)"
  by (simp_all add: rest_of.simps)

lemma advance_rank:
  "advance E ctx cfg st m = Some (st1, m1) \<Longrightarrow> rank st1 < rank st \<or> (\<exists>ip start. st = Polling ip start \<and> st1 = st)"
  by (cases st) (auto split: prod.splits sum.splits option.splits if_splits wake.splits)

lemma rest_of_Addressing:
  "rest_of E ctx cfg (Addressing start) m =
     (case on_io (GetContainerAddress E ctx (c_Name cfg) (c_Network cfg)) m of
        (Inl err, m1) \<Rightarrow>
          Some (Some (AddrFailed (c_Name cfg) err), start_failed (c_Name cfg) ''cannot find container IP'' m1)
      | (Inr ip, m1) \<Rightarrow> await_ready E ctx cfg ip start m1)"
  by (subst rest_of.simps) (simp split: prod.split sum.split)

lemma rest_of_Starting:
  "rest_of E ctx cfg (Starting start) m =
     (case on_io (StartContainer E ctx (c_Name cfg)) m of
        (Some err, m1) \<Rightarrow>
          Some (Some (StartFailed (c_Name cfg) err), start_failed (c_Name cfg) ''docker start failed'' m1)
      | (None, m1) \<Rightarrow> rest_of E ctx cfg (Addressing start) m1)"
  by (subst rest_of.simps) (simp split: prod.split option.split)

lemma rest_of_Locked:
  "rest_of E ctx cfg Locked m =
     (case on_io (GetContainerStatus E ctx (c_Name cfg)) m of
        (status, m1) \<Rightarrow>
          if status = Inr ''running'' then Some (None, RecordActivity E (c_Name cfg) m1)
          else (case time_Now E m1 of
                  (start, m2) \<Rightarrow> rest_of E ctx cfg (Starting start) (setStartState (c_Name cfg) statusStarting '''' m2)))"
  by (subst rest_of.simps) (simp split: prod.split)

lemma rest_of_Queued: "rest_of E ctx cfg Queued m = EnsureRunning E ctx cfg m"
proof -
  have "rest_of E ctx cfg Queued m = rest_of E ctx cfg Locked (getLock (c_Name cfg) m)"
    by (subst rest_of.simps) simp
  then show ?thesis unfolding EnsureRunning_def rest_of_Locked rest_of_Starting rest_of_Addressing .
qed

lemma rest_of_advance:
  assumes "advance E ctx cfg st m = Some (st1, m1)"
  shows "rest_of E ctx cfg st1 m1 = rest_of E ctx cfg st m"
proof (cases "\<exists>ip start. st = Polling ip start")
  case True
  then show ?thesis
    using assms
    by (auto simp: await_ready.simps [of E ctx cfg _ _ m]
        split: prod.splits sum.splits option.splits if_splits wake.splits)
next
  case False
  with advance_rank [OF assms] have "rank st1 < rank st" by auto
  with assms False show ?thesis by (subst (2) rest_of.simps) (cases st; simp)
qed

lemma solo_rest_of: "solo E ctx cfg st m st' m' \<Longrightarrow> rest_of E ctx cfg st' m' = rest_of E ctx cfg st m"
  by (induction rule: solo.induct) (simp_all add: rest_of_advance)

lemma await_ready_solo:
  "await_ready E ctx cfg ip start m = Some r \<Longrightarrow> solo E ctx cfg (Polling ip start) m (Returned (fst r)) (snd r)"
proof (rule await_ready.raw_induct [where P = "\<lambda>E ctx cfg ip start m r.
    solo E ctx cfg (Polling ip start) m (Returned (fst r)) (snd r)"])
  fix f :: "'a env \<Rightarrow> ctx \<Rightarrow> ContainerConfig \<Rightarrow> string \<Rightarrow> time \<Rightarrow> 'a mgr \<Rightarrow> (mgr_error option \<times> 'a mgr) option"
    and E ctx and cfg :: ContainerConfig and ip start m r
  assume IH: "\<And>E ctx cfg ip start m r. f E ctx cfg ip start m = Some r \<Longrightarrow>
      solo E ctx cfg (Polling ip start) m (Returned (fst r)) (snd r)"
    and f: "(case on_io (call (Wait E ctx (500 * 1000000)) (\<lambda>_. [])) m of
        (CtxDone, m1) \<Rightarrow>
          Some (Some (StartTimedOut (c_Name cfg) (ip @ '':'' @ c_TargetPort cfg)),
                start_failed (c_Name cfg) ''startup timeout exceeded'' m1)
      | (Tick, m1) \<Rightarrow>
          (case on_io (GetContainerStatus E ctx (c_Name cfg)) m1 of
             (status, m2) \<Rightarrow>
               if status = Inr ''exited'' \<or> status = Inr ''dead'' then
                 Some (Some (Crashed (c_Name cfg)),
                       start_failed (c_Name cfg) ''container crashed on boot (see docker logs)'' m2)
               else
                 (case readiness E ctx cfg ip m2 of
                    None \<Rightarrow> None
                  | Some (ready, m3) \<Rightarrow>
                      if ready then Some (None, start_ready E (c_Name cfg) start m3)
                      else f E ctx cfg ip start m3))) = Some r"
  have one: "solo E ctx cfg (Polling ip start) m (Returned (fst r)) (snd r)"
    if "advance E ctx cfg (Polling ip start) m = Some (Returned (fst r), snd r)"
    using that solo_refl by (rule solo_step)
  show "solo E ctx cfg (Polling ip start) m (Returned (fst r)) (snd r)"
  proof (cases "\<exists>m3. advance E ctx cfg (Polling ip start) m = Some (Polling ip start, m3) \<and> f E ctx cfg ip start m3 = Some r")
    case True
    then obtain m3 where "advance E ctx cfg (Polling ip start) m = Some (Polling ip start, m3)"
      and "solo E ctx cfg (Polling ip start) m3 (Returned (fst r)) (snd r)" using IH by blast
    then show ?thesis by (rule solo_step)
  next
    case False
    then have "advance E ctx cfg (Polling ip start) m = Some (Returned (fst r), snd r)"
      using f by (auto split: prod.splits option.splits if_splits wake.splits)
    then show ?thesis by (rule one)
  qed
qed

lemma rest_of_solo: "rest_of E ctx cfg st m = Some (r, m') \<Longrightarrow> solo E ctx cfg st m (Returned r) m'"
proof (induction "rank st" arbitrary: st m rule: less_induct)
  case less
  show ?case
  proof (cases "\<exists>ip start. st = Polling ip start")
    case True
    then show ?thesis using less.prems await_ready_solo by fastforce
  next
    case False
    show ?thesis
    proof (cases "advance E ctx cfg st m")
      case None
      then have "st = Returned r \<and> m = m'" using less.prems False by (cases st) (auto simp: rest_of.simps)
      then show ?thesis by (simp add: solo_refl)
    next
      case (Some a)
      obtain st1 m1 where a: "advance E ctx cfg st m = Some (st1, m1)" using Some by (cases a) auto
      with advance_rank False have "rank st1 < rank st" by blast
      from less.hyps [OF this] rest_of_advance [OF a] less.prems a show ?thesis by (auto intro: solo_step)
    qed
  qed
qed

text \<open>
  \<^verbatim>\<open>EnsureRunning\<close>: a thread that runs alone returns exactly what the
  function \<open>EnsureRunning\<close> of the model returns, in the same state, and returns at all
  exactly when that function is defined; so what is proved of the function holds of the
  steps.
\<close>

theorem thread_refines_EnsureRunning:
  "solo E ctx cfg Queued m (Returned r) m' \<longleftrightarrow> EnsureRunning E ctx cfg m = Some (r, m')"
proof
  assume "solo E ctx cfg Queued m (Returned r) m'"
  from solo_rest_of [OF this] show "EnsureRunning E ctx cfg m = Some (r, m')" by (simp add: rest_of_Queued)
next
  assume "EnsureRunning E ctx cfg m = Some (r, m')"
  then show "solo E ctx cfg Queued m (Returned r) m'" by (intro rest_of_solo) (simp add: rest_of_Queued)
qed

section \<open>Threads under the mutexes\<close>

type_synonym thread = "ContainerConfig \<times> ctx \<times> stage"

record 'w system =
  sy_mgr :: "'w mgr"
  sy_threads :: "thread list"
  sy_watch :: watch_stage

text \<open>A thread holds its container's mutex from \<^verbatim>\<open>Lock\<close> to the return.\<close>

fun holds :: "stage \<Rightarrow> bool" where
  "holds Queued = False"
| "holds (Returned r) = False"
| "holds st = True"

definition holder :: "thread \<Rightarrow> string \<Rightarrow> bool" where
  "holder t n \<longleftrightarrow> (case t of (cfg, ctx, st) \<Rightarrow> holds st \<and> c_Name cfg = n)"

definition free :: "thread list \<Rightarrow> string \<Rightarrow> bool" where
  "free ts n \<longleftrightarrow> list_all (\<lambda>t. \<not> holder t n) ts"

text \<open>
  The steps: a goroutine calls \<^verbatim>\<open>EnsureRunning\<close>; a queued thread gets the mutex when nobody
  holds it; a thread that holds it goes on to its next stage; a request records activity;
  the idle watcher goes on to its next stage, at any moment and without a mutex.
\<close>

inductive sys_step :: "'w env \<Rightarrow> ContainerConfig list \<Rightarrow> 'w system \<Rightarrow> 'w system \<Rightarrow> bool" for E cfgs where
  called: "sys_step E cfgs \<lparr>sy_mgr = m, sy_threads = ts, sy_watch = w\<rparr> \<lparr>sy_mgr = m, sy_threads = ts @ [(cfg, ctx, Queued)], sy_watch = w\<rparr>"
| locked: "i < length ts \<Longrightarrow> ts ! i = (cfg, ctx, Queued) \<Longrightarrow> free ts (c_Name cfg) \<Longrightarrow>
    advance E ctx cfg Queued m = Some (st', m') \<Longrightarrow>
    sys_step E cfgs \<lparr>sy_mgr = m, sy_threads = ts, sy_watch = w\<rparr> \<lparr>sy_mgr = m', sy_threads = ts[i := (cfg, ctx, st')], sy_watch = w\<rparr>"
| moved: "i < length ts \<Longrightarrow> ts ! i = (cfg, ctx, st) \<Longrightarrow> holds st \<Longrightarrow> advance E ctx cfg st m = Some (st', m') \<Longrightarrow>
    sys_step E cfgs \<lparr>sy_mgr = m, sy_threads = ts, sy_watch = w\<rparr> \<lparr>sy_mgr = m', sy_threads = ts[i := (cfg, ctx, st')], sy_watch = w\<rparr>"
| active: "sys_step E cfgs \<lparr>sy_mgr = m, sy_threads = ts, sy_watch = w\<rparr> \<lparr>sy_mgr = RecordActivityChain E roots cfgs m, sy_threads = ts, sy_watch = w\<rparr>"
| watched: "watch_advance E CtxRoot cfgs w m = (w', m') \<Longrightarrow>
    sys_step E cfgs \<lparr>sy_mgr = m, sy_threads = ts, sy_watch = w\<rparr> \<lparr>sy_mgr = m', sy_threads = ts, sy_watch = w'\<rparr>"

inductive_cases sys_stepE: "sys_step E cfgs s s'"

inductive sys_reach :: "'w env \<Rightarrow> ContainerConfig list \<Rightarrow> 'w mgr \<Rightarrow> 'w system \<Rightarrow> bool" for E cfgs m0 where
  sys_init: "sys_reach E cfgs m0 \<lparr>sy_mgr = m0, sy_threads = [], sy_watch = Waiting\<rparr>"
| sys_next: "sys_reach E cfgs m0 s \<Longrightarrow> sys_step E cfgs s s' \<Longrightarrow> sys_reach E cfgs m0 s'"

abbreviation sys_steps :: "'w env \<Rightarrow> ContainerConfig list \<Rightarrow> 'w system \<Rightarrow> 'w system \<Rightarrow> bool" where
  "sys_steps E cfgs \<equiv> (sys_step E cfgs)\<^sup>*\<^sup>*"

lemma sys_reach_steps: "sys_steps E cfgs s s' \<Longrightarrow> sys_reach E cfgs m0 s \<Longrightarrow> sys_reach E cfgs m0 s'"
  by (induction rule: rtranclp_induct) (auto intro: sys_next)

text \<open>A tick that nothing disturbs.\<close>

lemma watch_lift:
  assumes "watch_alone E CtxRoot cfgs w m m'"
  shows "sys_steps E cfgs \<lparr>sy_mgr = m, sy_threads = ts, sy_watch = w\<rparr> \<lparr>sy_mgr = m', sy_threads = ts, sy_watch = Waiting\<rparr>"
  using assms
proof induction
  case (watch_done m)
  then show ?case by simp
next
  case (watch_next w m w1 m1 m')
  from watched [OF watch_next(2)] watch_next(4) show ?case by (rule converse_rtranclp_into_rtranclp)
qed

lemma whole_tick:
  "sys_steps E cfgs \<lparr>sy_mgr = m, sy_threads = ts, sy_watch = Waiting\<rparr>
     \<lparr>sy_mgr = checkIdle E CtxRoot cfgs m, sy_threads = ts, sy_watch = Waiting\<rparr>"
proof -
  have "watch_alone E CtxRoot cfgs (Deciding (lastSeen m)) m (checkIdle E CtxRoot cfgs m)" by (simp add: tick_is_checkIdle)
  note watch_lift [OF this, of ts]
  moreover have "sys_step E cfgs \<lparr>sy_mgr = m, sy_threads = ts, sy_watch = Waiting\<rparr>
      \<lparr>sy_mgr = m, sy_threads = ts, sy_watch = Deciding (lastSeen m)\<rparr>" by (rule watched) simp
  ultimately show ?thesis by (rule converse_rtranclp_into_rtranclp [rotated])
qed

text \<open>No two threads hold the mutex of one container.\<close>

definition exclusive :: "thread list \<Rightarrow> bool" where
  "exclusive ts \<longleftrightarrow> (\<forall>n i j. i < length ts \<longrightarrow> j < length ts \<longrightarrow> holder (ts ! i) n \<longrightarrow> holder (ts ! j) n \<longrightarrow> i = j)"

lemma exclusive_update:
  assumes "exclusive ts" and "i < length ts" and "\<And>n. holder t n \<Longrightarrow> holder (ts ! i) n \<or> free ts n"
  shows "exclusive (ts[i := t])"
  unfolding exclusive_def
proof (intro allI impI)
  fix n a b
  assume ab: "a < length (ts[i := t])" "b < length (ts[i := t])"
    and h: "holder (ts[i := t] ! a) n" "holder (ts[i := t] ! b) n"
  have fr: "\<not> holder (ts ! k) n" if "free ts n" "k < length ts" for k
    using that by (simp add: free_def list_all_length)
  show "a = b"
  proof (cases "holder (ts ! i) n")
    case True
    have "holder (ts ! a) n" using h(1) ab True by (cases "a = i") simp_all
    moreover have "holder (ts ! b) n" using h(2) ab True by (cases "b = i") simp_all
    ultimately show ?thesis using assms(1) ab by (auto simp: exclusive_def)
  next
    case False
    show ?thesis
    proof (cases "a = i \<or> b = i")
      case True
      then have "holder t n" using h ab by (auto simp: nth_list_update split: if_splits)
      then have "free ts n" using assms(3) False by blast
      then show ?thesis using h ab fr by (cases "a = i"; cases "b = i") simp_all
    next
      case False
      then show ?thesis using h ab assms(1) by (auto simp: nth_list_update exclusive_def)
    qed
  qed
qed

lemma sys_step_exclusive:
  assumes "sys_step E cfgs s s'" and "exclusive (sy_threads s)"
  shows "exclusive (sy_threads s')"
  using assms
proof (cases rule: sys_step.cases)
  case (called m ts w cfg ctx)
  have "\<not> holder (cfg, ctx, Queued) n" for n by (simp add: holder_def)
  then show ?thesis
    using assms(2) called by (auto simp: exclusive_def nth_append less_Suc_eq split: if_splits)
next
  case (locked i ts cfg ctx m st' m')
  then show ?thesis using assms(2) by (auto intro!: exclusive_update simp: holder_def)
next
  case (moved i ts cfg ctx st m st' m')
  then show ?thesis using assms(2) by (auto intro!: exclusive_update simp: holder_def)
qed simp_all

lemma sys_reach_exclusive: "sys_reach E cfgs m0 s \<Longrightarrow> exclusive (sy_threads s)"
proof (induction rule: sys_reach.induct)
  case sys_init
  show ?case by (simp add: exclusive_def)
next
  case (sys_next s s')
  show ?case using sys_next.hyps(2) sys_next.IH by (rule sys_step_exclusive)
qed

text \<open>
  \<^verbatim>\<open>getLock\<close> and \<^verbatim>\<open>EnsureRunning\<close>: in every interleaving at most one thread is
  past \<^verbatim>\<open>Lock\<close> and before its return for one container, so two goroutines never start the
  same container at the same time.
\<close>

theorem starts_exclusive:
  assumes "sys_reach E cfgs m0 s" and "i < length (sy_threads s)" and "j < length (sy_threads s)"
    and "holder (sy_threads s ! i) n" and "holder (sy_threads s ! j) n"
  shows "i = j"
  using sys_reach_exclusive [OF assms(1)] assms(2-5) by (auto simp: exclusive_def)

section \<open>No thread is stuck\<close>

lemma advance_defined: "\<not> (\<exists>ip start. st = Polling ip start) \<Longrightarrow> \<not> (\<exists>r. st = Returned r) \<Longrightarrow>
    \<exists>st1 m1. advance E ctx cfg st m = Some (st1, m1)"
  by (cases st) (simp_all split: prod.split sum.split option.split)

lemma rest_of_returns:
  assumes "ctx_expires E ctx mu"
  shows "\<exists>r m'. rest_of E ctx cfg st m = Some (r, m')"
proof (induction "rank st" arbitrary: st m rule: less_induct)
  case less
  show ?case
  proof (cases "(\<exists>ip start. st = Polling ip start) \<or> (\<exists>r. st = Returned r)")
    case True
    then show ?thesis using await_ready_returns [OF assms] by (metis rest_of_simps surj_pair)
  next
    case False
    then obtain st1 m1 where a: "advance E ctx cfg st m = Some (st1, m1)" using advance_defined by blast
    with advance_rank False have "rank st1 < rank st" by blast
    from less.hyps [OF this, of m1] rest_of_advance [OF a] show ?thesis by auto
  qed
qed

lemma solo_returns:
  assumes "ctx_expires E ctx mu"
  shows "\<exists>r m'. solo E ctx cfg st m (Returned r) m'"
  using rest_of_returns [OF assms] rest_of_solo by blast

lemma advance_holds: "advance E ctx cfg st m = Some (st1, m1) \<Longrightarrow> holds st1 \<or> (\<exists>r. st1 = Returned r)"
  by (cases st) (auto split: prod.splits sum.splits option.splits if_splits wake.splits)

lemma solo_lift:
  assumes "solo E ctx cfg st m st' m'" and "holds st \<or> (\<exists>r. st = Returned r)" and "i < length ts"
    and "ts ! i = (cfg, ctx, st)"
  shows "sys_steps E cfgs \<lparr>sy_mgr = m, sy_threads = ts, sy_watch = w\<rparr> \<lparr>sy_mgr = m', sy_threads = ts[i := (cfg, ctx, st')], sy_watch = w\<rparr>"
  using assms
proof (induction arbitrary: ts rule: solo.induct)
  case (solo_refl st m)
  then have "ts[i := (cfg, ctx, st)] = ts" by (metis list_update_id)
  then show ?case by simp
next
  case (solo_step st m st1 m1 st2 m2)
  then have "holds st" by auto
  let ?ts = "ts[i := (cfg, ctx, st1)]"
  have "sys_step E cfgs \<lparr>sy_mgr = m, sy_threads = ts, sy_watch = w\<rparr> \<lparr>sy_mgr = m1, sy_threads = ?ts, sy_watch = w\<rparr>"
    using solo_step \<open>holds st\<close> by (intro moved)
  moreover have "sys_steps E cfgs \<lparr>sy_mgr = m1, sy_threads = ?ts, sy_watch = w\<rparr> \<lparr>sy_mgr = m2, sy_threads = ?ts[i := (cfg, ctx, st2)], sy_watch = w\<rparr>"
    using solo_step.IH [of ?ts] advance_holds [OF solo_step.hyps(1)] solo_step.prems by simp
  ultimately show ?case by (simp add: converse_rtranclp_into_rtranclp)
qed

text \<open>A thread that holds its mutex, or finds it free, can be run to its return.\<close>

lemma run_to_return:
  assumes "ctx_expires E ctx mu" and "i < length ts" and "ts ! i = (cfg, ctx, st)"
    and "st = Queued \<longrightarrow> free ts (c_Name cfg)"
  shows "\<exists>r m'. sys_steps E cfgs \<lparr>sy_mgr = m, sy_threads = ts, sy_watch = w\<rparr>
    \<lparr>sy_mgr = m', sy_threads = ts[i := (cfg, ctx, Returned r)], sy_watch = w\<rparr>"
proof (cases "st = Queued")
  case True
  let ?ts = "ts[i := (cfg, ctx, Locked)]" and ?m = "getLock (c_Name cfg) m"
  have "sys_step E cfgs \<lparr>sy_mgr = m, sy_threads = ts, sy_watch = w\<rparr> \<lparr>sy_mgr = ?m, sy_threads = ?ts, sy_watch = w\<rparr>"
    using assms True by (intro locked) simp_all
  moreover obtain r m' where "solo E ctx cfg Locked ?m (Returned r) m'" using solo_returns [OF assms(1)] by blast
  then have "sys_steps E cfgs \<lparr>sy_mgr = ?m, sy_threads = ?ts, sy_watch = w\<rparr> \<lparr>sy_mgr = m', sy_threads = ?ts[i := (cfg, ctx, Returned r)], sy_watch = w\<rparr>"
    using assms(2) by (intro solo_lift) simp_all
  ultimately have "sys_steps E cfgs \<lparr>sy_mgr = m, sy_threads = ts, sy_watch = w\<rparr> \<lparr>sy_mgr = m', sy_threads = ts[i := (cfg, ctx, Returned r)], sy_watch = w\<rparr>"
    by (simp add: converse_rtranclp_into_rtranclp)
  then show ?thesis by blast
next
  case False
  obtain r m' where "solo E ctx cfg st m (Returned r) m'" using solo_returns [OF assms(1)] by blast
  moreover have "holds st \<or> (\<exists>r. st = Returned r)" using False by (cases st) simp_all
  ultimately show ?thesis using solo_lift [OF _ _ assms(2,3)] by blast
qed

lemma exclusive_freed:
  assumes "exclusive ts" and "j < length ts" and "holder (ts ! j) n" and "\<not> holder t n"
  shows "free (ts[j := t]) n"
  unfolding free_def list_all_length
proof (intro allI impI)
  fix k
  assume "k < length (ts[j := t])"
  with assms show "\<not> holder (ts[j := t] ! k) n" by (cases "k = j") (auto simp: exclusive_def)
qed

text \<open>
  C13 (liveness, \<^verbatim>\<open>EnsureRunning\<close>): there is no deadlock on the container mutexes. From every
  state of every interleaving each goroutine that has not returned can still be brought to
  its return, provided the contexts expire: the one that holds the mutex returns and
  releases it, then the waiting one goes through.
\<close>

theorem awakenings_never_deadlock:
  assumes "sys_reach E cfgs m0 s" and "\<forall>(cfg, ctx, st) \<in> set (sy_threads s). ctx_expires E ctx mu"
    and "i < length (sy_threads s)" and "sy_threads s ! i = (cfg, ctx, st)"
  shows "\<exists>s' r. sys_steps E cfgs s s' \<and> i < length (sy_threads s') \<and> sy_threads s' ! i = (cfg, ctx, Returned r)"
proof -
  let ?ts = "sy_threads s" and ?m = "sy_mgr s" and ?w = "sy_watch s"
  have s: "s = \<lparr>sy_mgr = ?m, sy_threads = ?ts, sy_watch = ?w\<rparr>" by simp
  have exp: "ctx_expires E ctx' mu" if "k < length ?ts" "?ts ! k = (cfg', ctx', st')" for k cfg' ctx' st'
    using assms(2) nth_mem [OF that(1)] that(2) by auto
  show ?thesis
  proof (cases "st = Queued \<longrightarrow> free ?ts (c_Name cfg)")
    case True
    from run_to_return [OF exp [OF assms(3,4)] assms(3,4) this, of cfgs ?m ?w] obtain r m' where
      "sys_steps E cfgs s \<lparr>sy_mgr = m', sy_threads = ?ts[i := (cfg, ctx, Returned r)], sy_watch = ?w\<rparr>" using s by auto
    then show ?thesis using assms(3) by fastforce
  next
    case False
    then obtain j where j: "j < length ?ts" "holder (?ts ! j) (c_Name cfg)"
      by (auto simp: free_def list_all_length)
    obtain cfg' ctx' st' where tj: "?ts ! j = (cfg', ctx', st')" by (metis prod_cases3)
    have hj: "holds st'" using j(2) tj by (simp add: holder_def)
    then have "st' = Queued \<longrightarrow> free ?ts (c_Name cfg')" by auto
    from run_to_return [OF exp [OF j(1) tj] j(1) tj this, of cfgs ?m ?w] obtain r' m' where
      1: "sys_steps E cfgs s \<lparr>sy_mgr = m', sy_threads = ?ts[j := (cfg', ctx', Returned r')], sy_watch = ?w\<rparr>" using s by auto
    let ?ts' = "?ts[j := (cfg', ctx', Returned r')]"
    have ij: "i \<noteq> j" using False hj tj assms(4) by auto
    have "free ?ts' (c_Name cfg)"
      using exclusive_freed [OF sys_reach_exclusive [OF assms(1)] j] by (simp add: holder_def)
    moreover have ti: "?ts' ! i = (cfg, ctx, st)" using ij assms(4) by simp
    ultimately obtain r m'' where
      "sys_steps E cfgs \<lparr>sy_mgr = m', sy_threads = ?ts', sy_watch = ?w\<rparr> \<lparr>sy_mgr = m'', sy_threads = ?ts'[i := (cfg, ctx, Returned r)], sy_watch = ?w\<rparr>"
      using run_to_return [OF exp [OF assms(3,4)], of i ?ts' cfg st cfgs m' ?w] assms(3) by auto
    with 1 have "sys_steps E cfgs s \<lparr>sy_mgr = m'', sy_threads = ?ts'[i := (cfg, ctx, Returned r)], sy_watch = ?w\<rparr>" by (rule rtranclp_trans)
    then show ?thesis using assms(3) by fastforce
  qed
qed

section \<open>The idle watcher in between\<close>

text \<open>Until it returns nil a thread records no activity for its container.\<close>

lemma advance_lastSeen:
  assumes "advance E ctx cfg st m = Some (st1, m1)" and "st1 \<noteq> Returned None"
  shows "lastSeen m1 = lastSeen m"
proof (cases st)
  case Queued
  then show ?thesis using assms by (auto simp: getLock_def)
next
  case Locked
  then show ?thesis
    using assms by (auto simp: setStartState_def time_Now_def on_io_def split: prod.splits if_splits)
next
  case (Starting start)
  then show ?thesis
    using assms by (auto simp: start_failed_def setStartState_def on_io_def split: prod.splits option.splits)
next
  case (Addressing start)
  then show ?thesis
    using assms by (auto simp: start_failed_def setStartState_def on_io_def split: prod.splits sum.splits)
next
  case (Polling ip start)
  then show ?thesis
    using assms
    by (auto simp: start_failed_def setStartState_def readiness_def on_io_def Let_def
        split: prod.splits option.splits if_splits wake.splits)
next
  case (Returned r)
  then show ?thesis using assms by simp
qed

text \<open>
  A container with an idle timeout of an hour that was used last two hours ago and sleeps;
  a request has just called \<^verbatim>\<open>EnsureRunning\<close> for it.
\<close>

definition nap_cs :: "ContainerConfig list" where
  "nap_cs = [(mk_ctr ''app'' ''app.localhost'' [])\<lparr>c_IdleTimeout := 3600 * second\<rparr>]"

definition nap_env :: "(string list \<times> nat) env" where
  "nap_env = sim_env\<lparr>Wait := (\<lambda>_ _ w. (Tick, (fst w, Suc (snd w))))\<rparr>"

definition nap_mgr :: "(string list \<times> nat) mgr" where
  "nap_mgr = (NewContainerManager ([], 7200))\<lparr>lastSeen := [''app'' \<mapsto> 0]\<rparr>"

lemma nap_env_sel [simp]:
  "ContainerInspect nap_env c n w =
     (Inr \<lparr>i_Status = (if n \<in> set (fst w) then ''running'' else ''exited''), i_Image = ''img'',
           i_StartedAt = '''', i_FinishedAt = '''', i_Networks = [(''bridge'', ''10.0.0.2'')]\<rparr>, w)"
  "ContainerStart nap_env c n w = (None, (n # fst w, snd w))"
  "ContainerStop nap_env c n w = (None, (removeAll n (fst w), snd w))"
  "DialTimeout nap_env a d w = (None, w)" "Now nap_env w = (int (snd w) * second, w)"
  "Wait nap_env c d w = (Tick, (fst w, Suc (snd w)))" "RangeOrder nap_env xs w = (xs, w)"
  by (simp_all add: nap_env_def)

lemma nap_eval:
  "TopologicalSort ''app'' nap_cs = Inr [''app'']" "topoMergeStop {''app''} [''app''] nap_cs = [''app'']"
  "BuildReverseDeps nap_cs ''app'' = []"
  "map c_Name (filter (idle_entry [''app'' \<mapsto> 0] (7200 * second)) nap_cs) = [''app'']"
  by (simp_all add: TopologicalSort_def topoMergeStop_def BuildReverseDeps_def nap_cs_def container_map_def
      topo_visit.simps(2) merge_visit.simps(2) idle_entry_def time_Sub_def duration_defs minDuration_def maxDuration_def)

text \<open>The states between the stages of the call; the daemon runs \<open>app\<close> from the start on.\<close>

definition nap_at :: "string list \<Rightarrow> nat \<Rightarrow> startState option \<Rightarrow> event list \<Rightarrow> (string list \<times> nat) mgr" where
  "nap_at up k st tr =
     \<lparr>locks = {''app''}, lastSeen = [''app'' \<mapsto> 0], startStates = (case st of None \<Rightarrow> Map.empty | Some x \<Rightarrow> [''app'' \<mapsto> x]),
      mg_io = \<lparr>world = (up, k), trace = tr\<rparr>\<rparr>"

lemma nap_stages:
  "\<exists>tr. advance nap_env ctx (hd nap_cs) Queued nap_mgr = Some (Locked, nap_at [] 7200 None tr)"
  "\<exists>tr'. advance nap_env ctx (hd nap_cs) Locked (nap_at [] 7200 None tr) =
     Some (Starting (7200 * second), nap_at [] 7200 (Some \<lparr>ss_Status = ''starting'', ss_Err = ''''\<rparr>) tr')"
  "\<exists>tr'. advance nap_env ctx (hd nap_cs) (Starting t) (nap_at [] 7200 x tr) =
     Some (Addressing t, nap_at [''app''] 7200 x tr')"
  "\<exists>tr'. advance nap_env ctx (hd nap_cs) (Addressing t) (nap_at up 7200 x tr) =
     Some (Polling ''10.0.0.2'' t, nap_at up 7200 x tr')"
  "\<exists>m. advance nap_env ctx (hd nap_cs) (Polling ip t) (nap_at [''app''] 7200 x tr) = Some (Returned None, m)"
  "\<exists>m. advance nap_env ctx (hd nap_cs) (Polling ip t) (nap_at [] 7200 x tr) = Some (Returned (Some (Crashed ''app'')), m) \<and>
     GetStartState ''app'' m = (''failed'', ''container crashed on boot (see docker logs)'')"
  by (auto simp: nap_at_def nap_mgr_def nap_cs_def NewContainerManager_def getLock_def on_io_def call_def docker_ops
      time_Now_def setStartState_def status_defs container_address_def readiness_def start_failed_def
      RecordStart_def GetStartState_def Let_def fun_eq_iff split: option.split)

lemma nap_tick: "\<exists>x' tr'. checkIdle nap_env CtxRoot nap_cs (nap_at [''app''] 7200 (Some x) tr) = nap_at [] 7200 (Some x') tr'"
proof -
  have t: "time_Now nap_env (nap_at up k y tr) = (int k * second, nap_at up k y tr)" for up k y tr
    by (simp add: time_Now_def on_io_def call_def nap_at_def)
  have "checkIdle nap_env CtxRoot nap_cs (nap_at [''app''] 7200 (Some x) tr) =
      cascadeStop nap_env CtxRoot [''app''] nap_cs (nap_at [''app''] 7200 (Some x) tr)"
  proof -
    have "filter (idle_entry [''app'' \<mapsto> 0] (7200 * second)) nap_cs \<noteq> []" using nap_eval(4) by auto
    moreover have "lastSeen (nap_at up k y tr) = [''app'' \<mapsto> 0]" for up k y tr by (simp add: nap_at_def)
    ultimately show ?thesis by (simp add: checkIdle_def t nap_eval(4))
  qed
  also have "\<exists>x' tr'. \<dots> = nap_at [] 7200 (Some x') tr'"
    by (simp add: cascadeStop_def nap_eval Let_def on_io_def call_def stop_one_def docker_ops nap_at_def
        RecordIdleStop_def emit_def setStartState_def) blast
  finally show ?thesis .
qed

text \<open>
  C15 (safety, \<^verbatim>\<open>EnsureRunning\<close> and \<^verbatim>\<open>checkIdle\<close>): the idle watcher can stop a container that
  is being started. Activity is recorded when the start has succeeded only, so a container
  last used longer ago than its idle timeout is idle while it boots; a tick that falls
  between the docker start and the first poll stops it, and the goroutine reports a crash
  on boot. Left alone the same call succeeds.
\<close>

theorem idle_watcher_stops_booting_container:
  "(\<exists>m. EnsureRunning nap_env (CtxDeadline (7270 * second)) (hd nap_cs) nap_mgr = Some (None, m)) \<and>
   (\<exists>s. sys_reach nap_env nap_cs nap_mgr s \<and>
      sy_threads s = [(hd nap_cs, CtxDeadline (7270 * second), Returned (Some (Crashed ''app'')))] \<and>
      GetStartState ''app'' (sy_mgr s) = (''failed'', ''container crashed on boot (see docker logs)''))"
proof
  let ?c = "hd nap_cs" and ?ctx = "CtxDeadline (7270 * second)" and ?st = "\<lparr>ss_Status = ''starting'', ss_Err = ''''\<rparr>"
  let ?t = "7200 * second" and ?ip = "''10.0.0.2''"
  obtain tr1 where 1: "advance nap_env ?ctx ?c Queued nap_mgr = Some (Locked, nap_at [] 7200 None tr1)"
    using nap_stages(1) by blast
  obtain tr2 where 2: "advance nap_env ?ctx ?c Locked (nap_at [] 7200 None tr1) = Some (Starting ?t, nap_at [] 7200 (Some ?st) tr2)"
    using nap_stages(2) by blast
  obtain tr3 where 3: "advance nap_env ?ctx ?c (Starting ?t) (nap_at [] 7200 (Some ?st) tr2) =
      Some (Addressing ?t, nap_at [''app''] 7200 (Some ?st) tr3)"
    using nap_stages(3) by blast
  obtain tr4 where 4: "advance nap_env ?ctx ?c (Addressing ?t) (nap_at [''app''] 7200 (Some ?st) tr3) =
      Some (Polling ?ip ?t, nap_at [''app''] 7200 (Some ?st) tr4)"
    using nap_stages(4) by blast
  obtain m where 5: "advance nap_env ?ctx ?c (Polling ?ip ?t) (nap_at [''app''] 7200 (Some ?st) tr4) = Some (Returned None, m)"
    using nap_stages(5) by blast
  have "solo nap_env ?ctx ?c Queued nap_mgr (Returned None) m"
    by (rule solo_step [OF 1 solo_step [OF 2 solo_step [OF 3 solo_step [OF 4 solo_step [OF 5 solo_refl]]]]])
  then have "EnsureRunning nap_env ?ctx ?c nap_mgr = Some (None, m)"
    using solo_rest_of by (fastforce simp: rest_of_Queued)
  then show "\<exists>m. EnsureRunning nap_env ?ctx ?c nap_mgr = Some (None, m)" ..
  let ?reach = "\<lambda>m st. sys_reach nap_env nap_cs nap_mgr \<lparr>sy_mgr = m, sy_threads = [(?c, ?ctx, st)], sy_watch = Waiting\<rparr>"
  have "?reach nap_mgr Queued" using sys_next [OF sys_init called] by simp
  then have "?reach (nap_at [] 7200 None tr1) Locked"
    using sys_next [OF _ locked [OF _ _ _ 1, of 0]] by (fastforce simp: free_def holder_def)
  have move: "?reach m' st'" if "?reach m st" "holds st" "advance nap_env ?ctx ?c st m = Some (st', m')" for m st m' st'
    using sys_next [OF that(1) moved [OF _ _ that(2,3), of 0]] by simp
  have "?reach (nap_at [''app''] 7200 (Some ?st) tr4) (Polling ?ip ?t)"
    using move [OF move [OF move [OF \<open>?reach (nap_at [] 7200 None tr1) Locked\<close> _ 2] _ 3] _ 4] by simp
  moreover obtain x tr5 where "checkIdle nap_env CtxRoot nap_cs (nap_at [''app''] 7200 (Some ?st) tr4) = nap_at [] 7200 (Some x) tr5"
    using nap_tick by blast
  ultimately have "?reach (nap_at [] 7200 (Some x) tr5) (Polling ?ip ?t)" using sys_reach_steps [OF whole_tick] by fastforce
  moreover obtain m' where 6: "advance nap_env ?ctx ?c (Polling ?ip ?t) (nap_at [] 7200 (Some x) tr5) =
      Some (Returned (Some (Crashed ''app'')), m')"
    and "GetStartState ''app'' m' = (''failed'', ''container crashed on boot (see docker logs)'')"
    using nap_stages(6) by blast
  ultimately show "\<exists>s. sys_reach nap_env nap_cs nap_mgr s \<and>
      sy_threads s = [(?c, ?ctx, Returned (Some (Crashed ''app'')))] \<and>
      GetStartState ''app'' (sy_mgr s) = (''failed'', ''container crashed on boot (see docker logs)'')"
    using move [OF _ _ 6] by fastforce
qed

section \<open>On the sample daemon\<close>

text \<open>Two goroutines for \<open>db\<close>, the first of which has the mutex.\<close>

definition two_callers :: "(string list \<times> nat) system" where
  "two_callers = \<lparr>sy_mgr = getLock ''db'' (NewContainerManager ([], 0)),
     sy_threads = [(mk_ctr ''db'' '''' [], CtxRoot, Locked), (mk_ctr ''db'' '''' [], CtxBackground, Queued)], sy_watch = Waiting\<rparr>"

lemma two_callers_reach: "sys_reach sim_env [] (NewContainerManager ([], 0)) two_callers"
proof -
  let ?d = "mk_ctr ''db'' '''' []" and ?m = "NewContainerManager ([], 0) :: (string list \<times> nat) mgr"
  have 1: "sys_reach sim_env [] ?m \<lparr>sy_mgr = ?m, sy_threads = [(?d, CtxRoot, Queued)], sy_watch = Waiting\<rparr>"
    using sys_next [OF sys_init called] by simp
  then have 2: "sys_reach sim_env [] ?m \<lparr>sy_mgr = ?m, sy_threads = [(?d, CtxRoot, Queued), (?d, CtxBackground, Queued)], sy_watch = Waiting\<rparr>"
    using sys_next [OF 1 called] by simp
  have "sys_step sim_env [] \<lparr>sy_mgr = ?m, sy_threads = [(?d, CtxRoot, Queued), (?d, CtxBackground, Queued)], sy_watch = Waiting\<rparr> two_callers"
    using locked [of 0 "[(?d, CtxRoot, Queued), (?d, CtxBackground, Queued)]" ?d CtxRoot sim_env ?m Locked "getLock ''db'' ?m" "[]"]
    by (simp add: two_callers_def free_def holder_def)
  then show ?thesis using 2 by (rule sys_next [rotated])
qed

theorem starts_exclusive_witness:
  "sys_reach sim_env [] (NewContainerManager ([], 0)) two_callers \<and> \<not> holder (sy_threads two_callers ! 1) ''db''"
proof -
  have "0 = Suc 0" if "holder (sy_threads two_callers ! 1) ''db''"
    using starts_exclusive [OF two_callers_reach, of 0 "Suc 0" "''db''"] that
    by (simp add: two_callers_def holder_def)
  then show ?thesis using two_callers_reach by auto
qed

theorem awakenings_never_deadlock_witness:
  "\<exists>s' r. sys_steps sim_env [] two_callers s' \<and>
     sy_threads s' ! 1 = (mk_ctr ''db'' '''' [], CtxBackground, Returned r)"
proof -
  have "\<forall>(cfg, ctx, st) \<in> set (sy_threads two_callers). ctx_expires sim_env ctx (\<lambda>w. 60 - snd w)"
    using sim_env_expires by auto
  from awakenings_never_deadlock [OF two_callers_reach this, of 1] show ?thesis by (auto simp: two_callers_def)
qed

end
