(* ===== verification/Stopping.thy ===== *)
theory Stopping
  imports Interleaving
begin

text \<open>
  What the idle watcher of \<^verbatim>\<open>gateway/manager.go\<close> stops while requests and awakenings go on
  between its steps: only what was idle when it took its copy, and also what has been used
  since.
\<close>

section \<open>Idle at an earlier moment\<close>

text \<open>
  \<open>n\<close> was idle before \<open>s\<close>: in a state the watcher copied the activity of an entry point from,
  then in one it read the clock in, the timeout had passed, and the entry point reaches \<open>n\<close>.
\<close>

definition was_idle :: "'w env \<Rightarrow> ContainerConfig list \<Rightarrow> 'w mgr \<Rightarrow> 'w system \<Rightarrow> string \<Rightarrow> bool" where
  "was_idle E cfgs m0 s n \<longleftrightarrow>
     (\<exists>sa sb cfg seen. sys_reach E cfgs m0 sa \<and> sys_steps E cfgs sa sb \<and> sys_steps E cfgs sb s \<and>
        cfg \<in> set cfgs \<and> c_Host cfg \<noteq> '''' \<and> c_IdleTimeout cfg \<noteq> 0 \<and>
        lastSeen (sy_mgr sa) (c_Name cfg) = Some seen \<and>
        c_IdleTimeout cfg \<le> time_Sub (fst (Now E (world (mg_io (sy_mgr sb))))) seen \<and>
        (c_Name cfg, n) \<in> (dep_rel cfgs)\<^sup>*)"

lemma was_idle_later: "was_idle E cfgs m0 s n \<Longrightarrow> sys_step E cfgs s s' \<Longrightarrow> was_idle E cfgs m0 s' n"
  unfolding was_idle_def by (meson rtranclp.rtrancl_into_rtrancl)

lemma was_idle_reaches: "was_idle E cfgs m0 s n \<Longrightarrow> (n, k) \<in> (dep_rel cfgs)\<^sup>* \<Longrightarrow> was_idle E cfgs m0 s k"
  unfolding was_idle_def by (meson rtrancl_trans)


definition watch_ok :: "'w env \<Rightarrow> ContainerConfig list \<Rightarrow> 'w mgr \<Rightarrow> 'w system \<Rightarrow> bool" where
  "watch_ok E cfgs m0 s \<longleftrightarrow>
     (\<forall>n \<in> set (pending (sy_watch s)). was_idle E cfgs m0 s n) \<and>
     (\<forall>snapshot. copied (sy_watch s) = Some snapshot \<longrightarrow>
        (\<exists>sa. sys_reach E cfgs m0 sa \<and> sys_steps E cfgs sa s \<and> snapshot = lastSeen (sy_mgr sa)))"

lemma watch_ok_elsewhere:
  assumes "watch_ok E cfgs m0 s" and "sys_step E cfgs s s'" and "sy_watch s' = sy_watch s"
  shows "watch_ok E cfgs m0 s'"
  unfolding watch_ok_def
proof (intro conjI allI impI ballI)
  fix n
  assume "n \<in> set (pending (sy_watch s'))"
  then show "was_idle E cfgs m0 s' n" using assms was_idle_later by (fastforce simp: watch_ok_def)
next
  fix snapshot
  assume "copied (sy_watch s') = Some snapshot"
  then show "\<exists>sa. sys_reach E cfgs m0 sa \<and> sys_steps E cfgs sa s' \<and> snapshot = lastSeen (sy_mgr sa)"
    using assms by (auto simp: watch_ok_def intro: rtranclp.rtrancl_into_rtrancl)
qed

lemma decided_idle:
  assumes "sys_reach E cfgs m0 sa" and "sys_steps E cfgs sa s" and "sys_step E cfgs s s'"
    and "watch_advance E ctx cfgs (Deciding (lastSeen (sy_mgr sa))) (sy_mgr s) = (w', m')" and "n \<in> set (pending w')"
  shows "was_idle E cfgs m0 s' n"
proof -
  obtain now m1 where t: "time_Now E (sy_mgr s) = (now, m1)" by (meson surj_pair)
  have now: "now = fst (Now E (world (mg_io (sy_mgr s))))" using t by (auto simp: time_Now_def dest: call_mgr_world)
  from assms(4,5) t obtain cfg where "cfg \<in> set cfgs" "idle_entry (lastSeen (sy_mgr sa)) now cfg" "n = c_Name cfg"
    by (auto simp: Let_def split: if_splits)
  then show ?thesis
    using assms(1-3) now unfolding was_idle_def idle_entry_def
    by (intro exI [of _ sa] exI [of _ s] exI [of _ cfg]) (auto split: if_splits option.splits)
qed

lemma watch_ok_watched:
  assumes "detectDependencyCycles cfgs = None" and "ranges_keys E" and "watch_ok E cfgs m0 s" and "sys_reach E cfgs m0 s"
    and "watch_advance E CtxRoot cfgs (sy_watch s) (sy_mgr s) = (sy_watch s', sy_mgr s')" and "sys_step E cfgs s s'"
  shows "watch_ok E cfgs m0 s'"
proof (cases "copied (sy_watch s)")
  case (Some snapshot)
  then have w: "sy_watch s = Deciding snapshot" by (cases "sy_watch s") simp_all
  obtain sa where sa: "sys_reach E cfgs m0 sa" "sys_steps E cfgs sa s" "snapshot = lastSeen (sy_mgr sa)"
    using assms(3) Some by (auto simp: watch_ok_def)
  have "copied (sy_watch s') = None" using assms(5) by (cases "sy_watch s'") (auto simp: w Let_def split: prod.splits if_splits)
  moreover have "\<forall>n \<in> set (pending (sy_watch s')). was_idle E cfgs m0 s' n"
    using decided_idle [OF sa(1,2) assms(6)] assms(5) w sa(3) by auto
  ultimately show ?thesis by (simp add: watch_ok_def)
next
  case None
  then have nd: "\<not> (\<exists>snapshot. sy_watch s = Deciding snapshot)" by auto
  have "was_idle E cfgs m0 s' n" if n: "n \<in> set (pending (sy_watch s'))" for n
  proof -
    obtain k where "k \<in> set (pending (sy_watch s))" and r: "(k, n) \<in> (dep_rel cfgs)\<^sup>*"
      using watch_advance_pending [OF assms(1,2,5) nd] n by blast
    then have "was_idle E cfgs m0 s k" using assms(3) by (simp add: watch_ok_def)
    from was_idle_reaches [OF was_idle_later [OF this assms(6)] r] show ?thesis .
  qed
  moreover have "snapshot = lastSeen (sy_mgr s)" if "copied (sy_watch s') = Some snapshot" for snapshot
    using watch_advance_copied [OF assms(5) that] .
  ultimately show ?thesis using assms(4,6) by (auto simp: watch_ok_def)
qed

lemma sys_reach_watch_ok:
  assumes "detectDependencyCycles cfgs = None" and "ranges_keys E" and "sys_reach E cfgs m0 s"
  shows "watch_ok E cfgs m0 s"
  using assms(3)
proof induction
  case sys_init
  show ?case by (simp add: watch_ok_def)
next
  case (sys_next s s')
  show ?case using sys_next(2)
  proof (cases rule: sys_step.cases)
    case (watched w m w' m' ts)
    then show ?thesis using watch_ok_watched [OF assms(1,2) sys_next.IH sys_next(1) _ sys_next(2)] by simp
  qed (use watch_ok_elsewhere [OF sys_next.IH sys_next(2)] in auto)
qed

section \<open>Every stop was decided on an idle chain\<close>

lemma advance_effect:
  assumes "advance E ctx cfg st m = Some (st', m')"
  shows "\<exists>ns. effect {c_Name cfg} ns [] m m'"
proof (cases st)
  case Queued
  then show ?thesis using assms effect_getLock by (intro exI [of _ "[]"]) auto
next
  case Locked
  obtain r m1 where s: "on_io (GetContainerStatus E ctx (c_Name cfg)) m = (r, m1)" by (meson surj_pair)
  obtain t m2 where t: "time_Now E m1 = (t, m2)" by (meson surj_pair)
  have 1: "effect {c_Name cfg} [] [] m m1" and 2: "effect {c_Name cfg} [] [] m1 m2"
    by (rule effect_status [OF s], rule effect_time_Now [OF t])
  have "effect {c_Name cfg} [] [] m m'"
    using assms Locked s t effect_then_silent [OF 1 effect_RecordActivity]
      effect_then_silent [OF effect_then_silent [OF 1 2] effect_setStartState]
    by (auto split: if_splits)
  then show ?thesis ..
next
  case (Starting start)
  obtain r m1 where s: "on_io (StartContainer E ctx (c_Name cfg)) m = (r, m1)" by (meson surj_pair)
  have "effect {c_Name cfg} [c_Name cfg] [] m m'"
    using assms Starting s effect_start [OF s] effect_then_failed [OF effect_start [OF s]]
    by (auto split: option.splits)
  then show ?thesis ..
next
  case (Addressing start)
  obtain r m1 where s: "on_io (GetContainerAddress E ctx (c_Name cfg) (c_Network cfg)) m = (r, m1)" by (meson surj_pair)
  have "effect {c_Name cfg} [] [] m m'"
    using assms Addressing s effect_address [OF s] effect_then_failed [OF effect_address [OF s]]
    by (auto split: sum.splits)
  then show ?thesis ..
next
  case (Polling ip start)
  obtain w m1 where w: "on_io (call (Wait E ctx (500 * 1000000)) (\<lambda>_. [])) m = (w, m1)" by (meson surj_pair)
  obtain r m2 where s: "on_io (GetContainerStatus E ctx (c_Name cfg)) m1 = (r, m2)" by (meson surj_pair)
  have 1: "effect {c_Name cfg} [] [] m m1" by (rule effect_call [OF w]) simp_all
  have 2: "effect {c_Name cfg} [] [] m m2" by (rule effect_then_silent [OF 1 effect_status [OF s]])
  have "effect {c_Name cfg} [] [] m m'"
  proof (cases "readiness E ctx cfg ip m2")
    case None
    then show ?thesis
      using assms Polling w s effect_then_failed [OF 1] effect_then_failed [OF 2] by (auto split: wake.splits if_splits)
  next
    case (Some b)
    obtain ready m3 where b: "b = (ready, m3)" by (meson surj_pair)
    have 3: "effect {c_Name cfg} [] [] m m3"
      using Some b by (intro effect_then_silent [OF 2 effect_readiness]) simp
    show ?thesis
      using assms Polling w s Some b 3 effect_then_failed [OF 1] effect_then_failed [OF 2] effect_then_ready [OF 3]
      by (auto split: wake.splits if_splits)
  qed
  then show ?thesis ..
qed (use assms in simp)

lemma effect_no_stops: "effect A ns [] m m' \<Longrightarrow> \<exists>es. trace (mg_io m') = trace (mg_io m) @ es \<and> stop_calls es = []"
  by (auto simp: effect_def)

text \<open>
  C8 (safety, \<^verbatim>\<open>checkIdle\<close> among requests and awakenings): whatever goes on between its steps,
  the gateway issues a docker stop only where the idle watcher stands before one, and only
  for a container that an entry point reaches which had an idle timeout, was recorded in the
  copy of the activity map the watcher took and, when it then read the clock, had not been
  used for that long.
\<close>

theorem every_stop_was_idle:
  assumes "detectDependencyCycles cfgs = None" and "ranges_keys E" and "sys_reach E cfgs m0 s"
    and "sys_step E cfgs s s'"
  shows "\<exists>es. trace (mg_io (sy_mgr s')) = trace (mg_io (sy_mgr s)) @ es \<and>
    (\<forall>n \<in> set (stop_calls es). n \<in> set (halted (sy_watch s)) \<and> was_idle E cfgs m0 s n)"
  using assms(4)
proof (cases rule: sys_step.cases)
  case (called m ts w cfg ctx)
  then show ?thesis by (intro exI [of _ "[]"]) simp
next
  case (locked i ts cfg ctx m st' m')
  then show ?thesis using advance_effect [OF locked(6)] effect_no_stops by fastforce
next
  case (moved i ts cfg ctx st m st' m')
  then show ?thesis using advance_effect [OF moved(6)] effect_no_stops by fastforce
next
  case (active m ts w roots)
  then show ?thesis using conjunct1 [OF RecordActivityChain_spec [where m = m]] effect_no_stops by fastforce
next
  case (watched w m w' m' ts)
  obtain es where "trace (mg_io m') = trace (mg_io m) @ es" and es: "stop_calls es = halted w"
    using watch_advance_effect [OF watched(3)] by (auto simp: effect_def)
  moreover have "set (halted w) \<subseteq> set (pending w)" by (cases w) auto
  moreover have "\<forall>n \<in> set (pending w). was_idle E cfgs m0 s n"
    using sys_reach_watch_ok [OF assms(1-3)] watched(1) by (simp add: watch_ok_def)
  ultimately show ?thesis using watched(1,2) by (intro exI [of _ es]) auto
qed

section \<open>Activity that comes too late\<close>

text \<open>
  C16 (safety, \<^verbatim>\<open>checkIdle\<close> and \<^verbatim>\<open>RecordActivityChain\<close>): a container that is used between the
  watcher's decision and its stop is stopped all the same. Whenever the watcher stands
  before a docker stop, a request may record activity for that very container, and the next
  step of the watcher still issues the stop; the activity map then says the container was
  used just now.
\<close>

theorem stop_ignores_new_activity:
  assumes "sy_watch s = Halting toStop n ns" and "TopologicalSort n cfgs = Inr order"
  shows "\<exists>s1 s2 es. sys_step E cfgs s s1 \<and> sys_step E cfgs s1 s2 \<and>
    sy_mgr s1 = RecordActivityChain E [n] cfgs (sy_mgr s) \<and>
    lastSeen (sy_mgr s2) n = Some (fst (Now E (world (mg_io (sy_mgr s))))) \<and>
    trace (mg_io (sy_mgr s2)) = trace (mg_io (sy_mgr s1)) @ es \<and> stop_calls es = [n]"
proof -
  let ?m1 = "RecordActivityChain E [n] cfgs (sy_mgr s)"
  obtain w2 m2 where w: "watch_advance E CtxRoot cfgs (sy_watch s) ?m1 = (w2, m2)" by (meson surj_pair)
  let ?s1 = "\<lparr>sy_mgr = ?m1, sy_threads = sy_threads s, sy_watch = sy_watch s\<rparr>"
    and ?s2 = "\<lparr>sy_mgr = m2, sy_threads = sy_threads s, sy_watch = w2\<rparr>"
  have "sys_step E cfgs s ?s1"
    using active [of E cfgs "sy_mgr s" "sy_threads s" "sy_watch s" "[n]"] by (cases s) simp
  moreover have "sys_step E cfgs ?s1 ?s2" by (rule watched [OF w])
  moreover have "n \<in> (dep_rel cfgs)\<^sup>* `` sortable cfgs [n]" using assms(2) by (auto simp: sortable_def)
  then have "lastSeen ?m1 n = Some (fst (Now E (world (mg_io (sy_mgr s)))))"
    using RecordActivityChain_spec [where roots = "[n]" and m = "sy_mgr s"] by blast
  then have "lastSeen m2 n = Some (fst (Now E (world (mg_io (sy_mgr s)))))" using watch_advance_lastSeen [OF w] by simp
  moreover obtain es where "trace (mg_io m2) = trace (mg_io ?m1) @ es" "stop_calls es = [n]"
    using watch_advance_effect [OF w] assms(1) by (auto simp: effect_def)
  ultimately show ?thesis by (intro exI [of _ ?s1] exI [of _ ?s2] exI [of _ es]) simp
qed

section \<open>On the sample daemon\<close>

text \<open>The container of \<open>nap_cs\<close> runs, was last used two hours ago, and a tick has come to its stop.\<close>

lemma nap_halting:
  "\<exists>m. sys_reach nap_env nap_cs (nap_at [''app''] 7200 None [])
     \<lparr>sy_mgr = m, sy_threads = [], sy_watch = Halting [''app''] ''app'' []\<rparr> \<and> world (mg_io m) = ([''app''], 7200)"
proof -
  let ?m0 = "nap_at [''app''] 7200 None []"
  let ?reach = "\<lambda>m w. sys_reach nap_env nap_cs ?m0 \<lparr>sy_mgr = m, sy_threads = [], sy_watch = w\<rparr>"
  have step: "?reach m' w'" if "?reach m w" "watch_advance nap_env CtxRoot nap_cs w m = (w', m')" for m w m' w'
    using sys_next [OF that(1) watched [OF that(2)]] .
  have 0: "?reach ?m0 Waiting" by (rule sys_init)
  have 1: "?reach ?m0 (Deciding [''app'' \<mapsto> 0])" by (rule step [OF 0]) (simp add: nap_at_def)
  have "filter (idle_entry [''app'' \<mapsto> 0] (7200 * second)) nap_cs \<noteq> []" using nap_eval(4) by auto
  then have 2: "?reach ?m0 (Cascading [''app''])"
    by (intro step [OF 1]) (simp add: time_Now_def on_io_def call_def nap_at_def nap_eval(4))
  have 3: "?reach ?m0 (Looping [''app''] [''app''])"
    by (rule step [OF 2]) (simp add: on_io_def call_def nap_at_def nap_eval Let_def)
  have 4: "?reach ?m0 (Asking [''app''] ''app'' [] [])" by (rule step [OF 3]) (simp add: nap_eval)
  have 5: "?reach ?m0 (Checking [''app''] ''app'' [])" by (rule step [OF 4]) simp
  let ?m1 = "nap_at [''app''] 7200 None [EvInspect ''app'' (Some ''running'')]"
  have "?reach ?m1 (Halting [''app''] ''app'' [])"
    by (rule step [OF 5]) (simp add: on_io_def call_def docker_ops nap_at_def status_seen_def)
  then show ?thesis by (intro exI [of _ ?m1]) (simp add: nap_at_def)
qed

theorem every_stop_was_idle_witness:
  "\<exists>s s' es. sys_step nap_env nap_cs s s' \<and> trace (mg_io (sy_mgr s')) = trace (mg_io (sy_mgr s)) @ es \<and>
     (\<forall>n \<in> set (stop_calls es). was_idle nap_env nap_cs (nap_at [''app''] 7200 None []) s n)"
proof -
  obtain m where r: "sys_reach nap_env nap_cs (nap_at [''app''] 7200 None [])
     \<lparr>sy_mgr = m, sy_threads = [], sy_watch = Halting [''app''] ''app'' []\<rparr>" (is "sys_reach _ _ ?m0 ?s")
    using nap_halting by blast
  obtain w' m' where "watch_advance nap_env CtxRoot nap_cs (Halting [''app''] ''app'' []) m = (w', m')" by (meson surj_pair)
  then have st: "sys_step nap_env nap_cs ?s \<lparr>sy_mgr = m', sy_threads = [], sy_watch = w'\<rparr>" by (rule watched)
  have "dep_rel nap_cs = {}" by (auto simp: dep_rel_def deps_of_def container_map_def nap_cs_def)
  then have "detectDependencyCycles nap_cs = None" by (simp add: detect_None_iff acyclic_def)
  moreover have "ranges_keys nap_env" by (simp add: ranges_keys_def)
  ultimately show ?thesis using every_stop_was_idle [OF _ _ r st] st by blast
qed

theorem stop_ignores_new_activity_witness:
  "\<exists>s s' es. sys_reach nap_env nap_cs (nap_at [''app''] 7200 None []) s \<and> sys_steps nap_env nap_cs s s' \<and>
     lastSeen (sy_mgr s') ''app'' = Some (7200 * second) \<and>
     trace (mg_io (sy_mgr s')) = trace (mg_io (RecordActivityChain nap_env [''app''] nap_cs (sy_mgr s))) @ es \<and>
     stop_calls es = [''app'']"
proof -
  obtain m where r: "sys_reach nap_env nap_cs (nap_at [''app''] 7200 None [])
     \<lparr>sy_mgr = m, sy_threads = [], sy_watch = Halting [''app''] ''app'' []\<rparr>" (is "sys_reach _ _ ?m0 ?s")
    and w: "world (mg_io m) = ([''app''], 7200)"
    using nap_halting by blast
  have "sy_watch ?s = Halting [''app''] ''app'' []" by simp
  from stop_ignores_new_activity [OF this nap_eval(1), of nap_env] obtain s1 s2 es where
    "sys_step nap_env nap_cs ?s s1" "sys_step nap_env nap_cs s1 s2"
    and e: "sy_mgr s1 = RecordActivityChain nap_env [''app''] nap_cs m" "lastSeen (sy_mgr s2) ''app'' = Some (7200 * second)"
      "trace (mg_io (sy_mgr s2)) = trace (mg_io (sy_mgr s1)) @ es" "stop_calls es = [''app'']"
    using w by auto
  then have "sys_steps nap_env nap_cs ?s s2" by (meson converse_rtranclp_into_rtranclp r_into_rtranclp)
  with r e show ?thesis by (intro exI [of _ ?s] exI [of _ s2] exI [of _ es]) simp
qed

end
