(* ===== verification/Spec2Isabelle.thy ===== *)
theory Spec2Isabelle
  imports Passes Lifecycle Stopping
begin

text \<open>
  A verification development for docker-awakening-gateway, a reverse proxy that starts
  Docker containers when a request for them arrives and stops them when they are idle or out
  of their schedule. It models the whole of the Go program under \<^verbatim>\<open>src/\<close>: \<^verbatim>\<open>main.go\<close> and the
  package \<^verbatim>\<open>gateway\<close>. Definitions carry the names of the source.

  \<^bold>\<open>The parts and how they meet.\<close> \<^verbatim>\<open>main\<close> loads and validates the configuration, builds the
  container manager, the schedule manager and the server, runs a first discovery pass and
  starts the background goroutines. A request is routed by its host to a container or, round
  robin, to a member of a group; a container that sleeps is answered with a loading page and
  awakened in a goroutine, its dependencies first; a container that runs is proxied to, and
  the activity of its chain is recorded. The idle watcher stops the chains of entry points
  without recent activity, dependents before dependencies, sparing what is needed elsewhere.
  Cron jobs start and stop containers on schedule. Discovery merges labelled containers into
  the file's configuration and pushes the result to the server, and so does a reload signal.

  \<^bold>\<open>The theories\<close>, in the order they build on each other:

  \<^item> \<open>Prelude\<close>, \<open>Sequences\<close>, \<open>Http\<close>: instants, durations with Go's saturation and
    wrap-around, strings, locations; subsequences; requests and responses.
  \<^item> \<open>Config\<close> (\<^verbatim>\<open>config.go\<close>): the structs as records, defaults, equality and the three
    indexes. \<open>Cycles\<close>: \<^verbatim>\<open>detectDependencyCycles\<close>, equivalent to acyclicity of the
    \<open>depends_on\<close> relation. \<open>Topo\<close> (\<^verbatim>\<open>group.go\<close>) and \<open>StopOrder\<close> (\<^verbatim>\<open>manager.go\<close>): the start
    order \<^verbatim>\<open>TopologicalSort\<close> and the stop order \<^verbatim>\<open>topoMergeStop\<close>. \<open>Schedule\<close> (\<^verbatim>\<open>scheduler.go\<close>):
    the window test and the compatibility check. \<open>Validation\<close>: \<^verbatim>\<open>Validate\<close>, equivalent to the
    declarative \<open>valid_config\<close> and \<open>schedules_ok\<close>. \<open>Loading\<close>: \<^verbatim>\<open>LoadConfig\<close>.
  \<^item> \<open>GroupRouter\<close> (\<^verbatim>\<open>group.go\<close>): round robin with 64-bit counters that wrap.
  \<^item> \<open>Docker\<close> (\<^verbatim>\<open>docker.go\<close>, \<^verbatim>\<open>metrics.go\<close>): every call of the Docker client over the record
    \<open>env\<close>, which answers for the daemon, the network and the clock and moves a world of an
    arbitrary type on; calls and metrics are appended to a trace.
  \<^item> \<open>Manager\<close>, \<open>Awakening\<close>, \<open>IdleWatcher\<close> (\<^verbatim>\<open>manager.go\<close>): the record \<open>mgr\<close> for
    \<^verbatim>\<open>ContainerManager\<close>; \<^verbatim>\<open>EnsureRunning\<close>, \<^verbatim>\<open>EnsureDepsRunning\<close>, \<^verbatim>\<open>EnsureGroupRunning\<close>; \<^verbatim>\<open>checkIdle\<close>
    and \<^verbatim>\<open>cascadeStop\<close>. What they start and stop, in which order and after which checks, is
    read off the trace: \<open>effect\<close> lists both, bounds what else is recorded, and composes.
  \<^item> \<open>SchedManager\<close> (\<^verbatim>\<open>scheduler.go\<close>): \<^verbatim>\<open>Sync\<close> over a cron library with named laws, and the jobs.
  \<^item> \<open>RateLimit\<close>, \<open>NetAddr\<close>, \<open>AdminAuth\<close> (\<^verbatim>\<open>server.go\<close>, \<^verbatim>\<open>admin_auth.go\<close>): the limiter refines a
    history that forgets nothing; client addresses behind trusted proxies; basic and bearer
    credentials.
  \<^item> \<open>Server\<close>, \<open>Serving\<close>, \<open>Dashboard\<close> (\<^verbatim>\<open>server.go\<close>): the record \<open>server\<close>, reload, routing, the
    handlers with the goroutines they spawn (the list \<open>sv_tasks\<close>), and what they guarantee.
  \<^item> \<open>Discovery\<close> (\<^verbatim>\<open>discovery.go\<close>): merging, a pass, an update of the static configuration.
  \<^item> \<open>Gateway\<close> (\<^verbatim>\<open>main.go\<close>): start-up, and the running process as events (requests,
    goroutines, ticks, reload signals, cron jobs) with its invariant \<open>gateway_inv\<close>.
  \<^item> \<open>Watching\<close>, \<open>Interleaving\<close>, \<open>Stopping\<close>: a tick of the idle watcher and \<^verbatim>\<open>EnsureRunning\<close> as
    threads that stop at each Docker call; many awakenings under the mutexes of \<^verbatim>\<open>getLock\<close>,
    request activity and the one watcher take their steps in any order; and what is known of
    the stops the watcher issues then.
  \<^item> \<open>Passes\<close>: discovery passes of the polling goroutine and the signal handler, as steps
    that overlap with each other and with the events of \<open>Gateway\<close>.
  \<^item> \<open>Lifecycle\<close> (\<^verbatim>\<open>main.go\<close>, \<^verbatim>\<open>Server.Start\<close>): the events of \<open>Gateway\<close> with requests that are
    accepted first and handled later, and the end: the termination signal, the loops that
    leave, the shut-down of the server within its grace period, and the exit status.

  \<^bold>\<open>What is shown.\<close> Validation, the cycle check and both orders are correct with respect to
  relations on the configuration. An awakening starts each container at most once, its
  dependencies first, ends when its context does, and records its outcome. A cascade stops
  only idle chains, in order, each container after the inspection of its dependents. The
  handlers start and stop nothing themselves. The invariant of the process holds in every
  state it reaches, and what is served stays sound when discovery passes overlap. The
  threads refine the functions, no interleaving of awakenings deadlocks, and whatever
  interleaves with the idle watcher, it stops only what was idle when it looked. The process
  exits with status 0 only with every accepted request handled. Routing and loading are
  characterised exactly, and a reload by what discovery and validation say. Several
  theorems record where the code departs from what it means to do, each on a reachable or
  concrete state: groups disappear after the first discovery pass, label jobs after
  start-up, a reload under an overlapping pass; WebSocket upgrades are never tunnelled;
  requests to a group are not gated by the schedules of its members; the
  idle watcher stops a container that boots, and one that has just been used.

  \<^bold>\<open>Interfaces.\<close> \<open>last_wins_index\<close> is the contract of the indexes, \<open>dep_sorter\<close> that of the
  two orders, \<open>docker_op\<close> and \<open>docker_query\<close> those of the client's calls, \<open>quiet_handler\<close> that
  of the HTTP handlers and \<open>event_loop\<close> that of the process, running and shutting down; each
  is interpreted on the definitions of the code, in the theory that provides them.

  \<^bold>\<open>Termination and granularity.\<close> Loops over \<^verbatim>\<open>Next\<close> and polling loops are
  \<open>partial_function\<close>s, whose \<open>None\<close> is a run that does not end; that they end is a theorem,
  under contexts that expire and schedules that advance. No fuel is used. In \<open>Gateway\<close> an
  event is taken as a whole; \<open>Watching\<close>, \<open>Interleaving\<close> and \<open>Passes\<close> split the operations
  whose critical sections do not cover all they do. In \<open>Lifecycle\<close> time is left out: the
  grace period may be over at any moment of the shut-down. Integers of Go are HOL integers where the code cannot overflow, durations saturate
  and wrap as \<^verbatim>\<open>time\<close> documents, and the counters of the router are 64-bit words.

  \<^bold>\<open>Parameters.\<close> What is not under \<^verbatim>\<open>src/\<close> is an argument: the Docker daemon, the network and
  the clock (\<open>env\<close>), the cron library (\<open>cronlib\<close>, with the laws \<open>cron_lib_ok\<close>), the cron parser
  and the zone database (\<open>libs\<close>), the environment variables, the file and the YAML decoder
  (\<open>host\<close>), the exchange of the reverse proxy, URL parsing and printing and the formatting
  of times (\<open>outside\<close>). Go's map iteration order is a function of the environment, assumed to list
  the keys (\<open>ranges_keys\<close>). The sample daemon \<open>sim_env\<close> and the sample libraries satisfy the
  hypotheses and carry the witnesses.

  \<^bold>\<open>Not modelled.\<close> The HTML templates and their rendering, log output, the registration and
  rendering of Prometheus collectors, the inside of \<^verbatim>\<open>http.Server\<close> with its read and write
  timeouts, creating and closing the Docker client, and the copying of bytes in a WebSocket
  tunnel: library calls without decisions of this program. A target port that continues into
  another part of a URL (a path, a query, a fragment, a user) is outside \<open>target_host\<close>. The
  commented-out \<^verbatim>\<open>probeTCPReady\<close> of \<^verbatim>\<open>manager.go\<close> is dead text.
\<close>

end
